(* ===== verification/Prelude.thy ===== *)
theory Prelude
  imports Complex_Main "HOL-Library.Word" "HOL-Library.List_Lexorder" "HOL-Library.Char_ord"
begin

text \<open>
  Shared ground of the development: the machine integer types, Rust's \<open>Result\<close>, checked and
  saturating integer operations, and the parts of \<open>str\<close> the program uses. A Rust \<open>String\<close> is the
  list of its UTF-8 bytes, a HOL \<^typ>\<open>string\<close>; \<open>usize\<close> lengths are \<^typ>\<open>nat\<close>, with the overflow
  check written out where the code performs one; \<open>i128\<close> is \<^typ>\<open>int\<close> with its range written out.
\<close>

section \<open>Machine integers and results\<close>

type_synonym u8 = "8 word"
type_synonym u16 = "16 word"
type_synonym u32 = "32 word"
type_synonym u64 = "64 word"

datatype ('e, 'a) result = Err (get_err: 'e) | Ok (get_ok: 'a)

fun is_ok :: "('e, 'a) result \<Rightarrow> bool" where
  "is_ok (Ok _) = True"
| "is_ok (Err _) = False"

definition ok_or :: "'e \<Rightarrow> 'a option \<Rightarrow> ('e, 'a) result" where
  "ok_or e x = (case x of None \<Rightarrow> Err e | Some a \<Rightarrow> Ok a)"

definition map_err :: "('e \<Rightarrow> 'f) \<Rightarrow> ('e, 'a) result \<Rightarrow> ('f, 'a) result" where
  "map_err f r = (case r of Err e \<Rightarrow> Err (f e) | Ok a \<Rightarrow> Ok a)"

definition and_then :: "('e, 'a) result \<Rightarrow> ('a \<Rightarrow> ('e, 'b) result) \<Rightarrow> ('e, 'b) result" where
  "and_then r f = (case r of Err e \<Rightarrow> Err e | Ok a \<Rightarrow> f a)"

named_theorems result_simps \<open>unfolding of the result combinators\<close>

lemma ok_or_simps [simp, result_simps]:
  "ok_or e None = Err e"
  "ok_or e (Some a) = Ok a"
  by (simp_all add: ok_or_def)

lemma map_err_simps [simp, result_simps]:
  "map_err f (Err e) = Err (f e)"
  "map_err f (Ok a) = Ok a"
  by (simp_all add: map_err_def)

lemma and_then_simps [simp, result_simps]:
  "and_then (Err e) g = Err e"
  "and_then (Ok a) g = g a"
  by (simp_all add: and_then_def)

lemma and_then_Ok_iff: "and_then r f = Ok b \<longleftrightarrow> (\<exists>a. r = Ok a \<and> f a = Ok b)"
  by (cases r) simp_all

lemma map_err_Ok_iff [simp]: "map_err f r = Ok a \<longleftrightarrow> r = Ok a"
  by (cases r) simp_all

lemma ok_or_Ok_iff [simp]: "ok_or e x = Ok a \<longleftrightarrow> x = Some a"
  by (cases x) simp_all

lemma is_ok_iff: "is_ok r \<longleftrightarrow> (\<exists>a. r = Ok a)"
  by (cases r) simp_all

section \<open>Integer operations of the standard library\<close>

definition usize_max :: nat where
  "usize_max = 2 ^ 64 - 1"

text \<open>\<open>usize::checked_add\<close>.\<close>

definition checked_add_usize :: "nat \<Rightarrow> nat \<Rightarrow> nat option" where
  "checked_add_usize a b = (if a + b \<le> usize_max then Some (a + b) else None)"

definition saturating_add_u64 :: "u64 \<Rightarrow> u64 \<Rightarrow> u64" where
  "saturating_add_u64 a b = (if unat a + unat b < 2 ^ 64 then a + b else - 1)"

definition saturating_sub_u64 :: "u64 \<Rightarrow> u64 \<Rightarrow> u64" where
  "saturating_sub_u64 a b = (if b \<le> a then a - b else 0)"

definition saturating_mul_u64 :: "u64 \<Rightarrow> u64 \<Rightarrow> u64" where
  "saturating_mul_u64 a b = (if unat a * unat b < 2 ^ 64 then a * b else - 1)"

lemma unat_minus_one_u64: "unat (- 1 :: u64) = 2 ^ 64 - 1"
  by (simp add: unsigned_minus_1_eq_mask mask_eq_exp_minus_1)

lemma unat_u64_less: "unat (a :: u64) < 2 ^ 64"
  using unsigned_less [of a] by simp

lemma unat_saturating_add_u64:
  "unat (saturating_add_u64 a b) = min (unat a + unat b) (2 ^ 64 - 1)"
  by (auto simp: saturating_add_u64_def unat_word_ariths unat_minus_one_u64)

lemma unat_saturating_sub_u64: "unat (saturating_sub_u64 a b) = unat a - unat b"
  by (auto simp: saturating_sub_u64_def unat_sub word_le_nat_alt)

lemma unat_saturating_mul_u64:
  "unat (saturating_mul_u64 a b) = min (unat a * unat b) (2 ^ 64 - 1)"
  by (auto simp: saturating_mul_u64_def unat_word_ariths unat_minus_one_u64)

definition i128_min :: int where
  "i128_min = - (2 ^ 127)"

definition i128_max :: int where
  "i128_max = 2 ^ 127 - 1"

section \<open>Strings\<close>

definition is_ascii_lowercase :: "char \<Rightarrow> bool" where
  "is_ascii_lowercase c \<longleftrightarrow> CHR ''a'' \<le> c \<and> c \<le> CHR ''z''"

definition is_ascii_digit :: "char \<Rightarrow> bool" where
  "is_ascii_digit c \<longleftrightarrow> CHR ''0'' \<le> c \<and> c \<le> CHR ''9''"

text \<open>
  \<open>s.chars().count()\<close> on the UTF-8 bytes: every byte but the continuation bytes \<open>10xxxxxx\<close>.
\<close>

definition is_continuation :: "char \<Rightarrow> bool" where
  "is_continuation c \<longleftrightarrow> 128 \<le> (of_char c :: nat) \<and> (of_char c :: nat) < 192"

definition chars_count :: "string \<Rightarrow> nat" where
  "chars_count s = length (filter (\<lambda>c. \<not> is_continuation c) s)"

lemma chars_count_le: "chars_count s \<le> length s"
  by (simp add: chars_count_def)

text \<open>
  \<open>s.trim().is_empty()\<close>: every character has the Unicode property \<open>White_Space\<close>. The patterns are
  the UTF-8 encodings of exactly those code points.
\<close>

fun bytes_all_whitespace :: "nat list \<Rightarrow> bool" where
  "bytes_all_whitespace [] = True"
| "bytes_all_whitespace (a # bs) =
     (if (9 \<le> a \<and> a \<le> 13) \<or> a = 32 then bytes_all_whitespace bs
      else (case bs of
        [] \<Rightarrow> False
      | b # cs \<Rightarrow>
          (if a = 194 \<and> (b = 133 \<or> b = 160) then bytes_all_whitespace cs
           else (case cs of
             [] \<Rightarrow> False
           | c # ds \<Rightarrow>
               (if (a = 225 \<and> b = 154 \<and> c = 128)
                   \<or> (a = 226 \<and> b = 128 \<and> 128 \<le> c \<and> c \<le> 138)
                   \<or> (a = 226 \<and> b = 128 \<and> (c = 168 \<or> c = 169 \<or> c = 175))
                   \<or> (a = 226 \<and> b = 129 \<and> c = 159)
                   \<or> (a = 227 \<and> b = 128 \<and> c = 128)
                then bytes_all_whitespace ds else False)))))"

definition trim_is_empty :: "string \<Rightarrow> bool" where
  "trim_is_empty s = bytes_all_whitespace (map of_char s)"

text \<open>Decimal rendering, as \<open>Display\<close> prints integers.\<close>

definition digit_char :: "nat \<Rightarrow> char" where
  "digit_char d = char_of (48 + d)"

fun show_nat :: "nat \<Rightarrow> string" where
  "show_nat n = (if n < 10 then [digit_char n] else show_nat (n div 10) @ [digit_char (n mod 10)])"

declare show_nat.simps [simp del]

definition show_int :: "int \<Rightarrow> string" where
  "show_int i = (if i < 0 then ''-'' @ show_nat (nat (- i)) else show_nat (nat i))"

text \<open>
  \<open>str::parse::<i128>\<close>: an optional sign, at least one digit, and a value within the type.
\<close>

fun parse_digits :: "int \<Rightarrow> string \<Rightarrow> int option" where
  "parse_digits acc [] = Some acc"
| "parse_digits acc (c # cs) =
     (if is_ascii_digit c then parse_digits (acc * 10 + (of_char c - 48)) cs else None)"

definition parse_i128 :: "string \<Rightarrow> int option" where
  "parse_i128 s =
     (let (neg, ds) = (case s of
          [] \<Rightarrow> (False, [])
        | c # cs \<Rightarrow> if c = CHR ''-'' then (True, cs) else if c = CHR ''+'' then (False, cs) else (False, s))
      in if ds = [] then None
         else (case parse_digits 0 ds of
            None \<Rightarrow> None
          | Some v \<Rightarrow>
              (let i = (if neg then - v else v)
               in if i128_min \<le> i \<and> i \<le> i128_max then Some i else None)))"

lemma parse_i128_range: "parse_i128 s = Some i \<Longrightarrow> i128_min \<le> i \<and> i \<le> i128_max"
  by (auto simp: parse_i128_def Let_def split: prod.splits if_splits option.splits)

section \<open>Lists\<close>

text \<open>\<open>slice.get(a..b)\<close>.\<close>

definition slice_get :: "'a list \<Rightarrow> nat \<Rightarrow> nat \<Rightarrow> 'a list option" where
  "slice_get xs a b = (if a \<le> b \<and> b \<le> length xs then Some (take (b - a) (drop a xs)) else None)"

definition vec_get :: "'a list \<Rightarrow> nat \<Rightarrow> 'a option" where
  "vec_get xs i = (if i < length xs then Some (xs ! i) else None)"

lemma vec_get_Some_iff: "vec_get xs i = Some x \<longleftrightarrow> i < length xs \<and> xs ! i = x"
  by (auto simp: vec_get_def)

lemma slice_get_length: "slice_get xs a b = Some ys \<Longrightarrow> length ys = b - a"
  by (auto simp: slice_get_def split: if_splits)

text \<open>A \<open>BTreeSet\<close> as its ascending, duplicate-free list of elements.\<close>

definition btset_insert :: "'a::linorder \<Rightarrow> 'a list \<Rightarrow> 'a list" where
  "btset_insert x xs = (if x \<in> set xs then xs else insort x xs)"

lemma set_btset_insert [simp]: "set (btset_insert x xs) = insert x (set xs)"
  by (auto simp: btset_insert_def set_insort_key)

lemma sorted_btset_insert: "sorted xs \<Longrightarrow> sorted (btset_insert x xs)"
  by (simp add: btset_insert_def sorted_insort)

lemma distinct_btset_insert: "distinct xs \<Longrightarrow> distinct (btset_insert x xs)"
  by (simp add: btset_insert_def distinct_insort)

end
