(* ===== verification/Hash_Map.thy ===== *)
theory Hash_Map
  imports Prelude "HOL-Library.AList"
begin

text \<open>
  The standard library's maps. The program uses \<open>HashMap\<close> and \<open>BTreeMap\<close> through \<open>get\<close>,
  \<open>insert\<close>, \<open>remove\<close>, the entry API and iteration over keys or values; the locale \<open>std_map\<close> states
  what those calls promise, and an association list with distinct keys provides it. The iteration
  order of a \<open>HashMap\<close> is unspecified: the model lists the keys in insertion order, and no property of
  the development depends on it.
\<close>

section \<open>The interface\<close>

lemma map_of_rev_distinct:
  assumes "distinct (map fst xs)"
  shows "map_of (rev xs) = map_of xs"
proof -
  have "distinct (map fst (rev xs))"
    using assms by (simp add: rev_map [symmetric])
  then show ?thesis
    using assms by (simp add: map_of_inject_set)
qed

locale std_map =
  fixes mt :: "'m"
    and look :: "'m \<Rightarrow> 'k \<Rightarrow> 'v option"
    and ins :: "'k \<Rightarrow> 'v \<Rightarrow> 'm \<Rightarrow> 'm"
    and del :: "'k \<Rightarrow> 'm \<Rightarrow> 'm"
    and entries :: "'m \<Rightarrow> ('k \<times> 'v) list"
    and invar :: "'m \<Rightarrow> bool"
  assumes invar_mt: "invar mt"
    and invar_ins: "invar m \<Longrightarrow> invar (ins k v m)"
    and invar_del: "invar m \<Longrightarrow> invar (del k m)"
    and look_mt: "look mt k = None"
    and look_ins: "invar m \<Longrightarrow> look (ins k v m) k' = (if k' = k then Some v else look m k')"
    and look_del: "invar m \<Longrightarrow> look (del k m) k' = (if k' = k then None else look m k')"
    and entries_look: "invar m \<Longrightarrow> (k, v) \<in> set (entries m) \<longleftrightarrow> look m k = Some v"
begin

text \<open>Collecting pairs, as \<open>iter.collect()\<close> or a loop of \<open>insert\<close> does: the last one wins.\<close>

lemma invar_collect: "invar m \<Longrightarrow> invar (fold (\<lambda>(k, v). ins k v) kvs m)"
  by (induction kvs arbitrary: m) (auto intro: invar_ins)

lemma look_collect:
  "invar m \<Longrightarrow>
    look (fold (\<lambda>(k, v). ins k v) kvs m) k
      = (case map_of (rev kvs) k of None \<Rightarrow> look m k | Some v \<Rightarrow> Some v)"
proof (induction kvs arbitrary: m)
  case Nil
  then show ?case by simp
next
  case (Cons kv kvs)
  obtain a b where kv: "kv = (a, b)" by (cases kv)
  from Cons show ?case
    by (auto simp: kv map_add_def invar_ins look_ins split: option.splits)
qed

lemma look_collect_distinct:
  assumes "distinct (map fst kvs)" and "(k, v) \<in> set kvs"
  shows "look (fold (\<lambda>(k, v). ins k v) kvs mt) k = Some v"
proof -
  have "map_of (rev kvs) k = Some v"
    using assms by (simp add: map_of_rev_distinct)
  then show ?thesis by (simp add: look_collect invar_mt)
qed

lemma entries_iff: "invar m \<Longrightarrow> v \<in> snd ` set (entries m) \<longleftrightarrow> (\<exists>k. look m k = Some v)"
  by (force simp: entries_look [symmetric])

end

section \<open>Association lists provide it\<close>

type_synonym ('k, 'v) hmap = "('k \<times> 'v) list"

definition hm_wf :: "('k, 'v) hmap \<Rightarrow> bool" where
  "hm_wf m \<longleftrightarrow> distinct (map fst m)"

definition hm_get :: "('k, 'v) hmap \<Rightarrow> 'k \<Rightarrow> 'v option" where
  "hm_get m k = map_of m k"

definition hm_insert :: "'k \<Rightarrow> 'v \<Rightarrow> ('k, 'v) hmap \<Rightarrow> ('k, 'v) hmap" where
  "hm_insert k v m = AList.update k v m"

definition hm_remove :: "'k \<Rightarrow> ('k, 'v) hmap \<Rightarrow> ('k, 'v) hmap" where
  "hm_remove k m = AList.delete k m"

definition hm_contains :: "('k, 'v) hmap \<Rightarrow> 'k \<Rightarrow> bool" where
  "hm_contains m k \<longleftrightarrow> hm_get m k \<noteq> None"

definition hm_values :: "('k, 'v) hmap \<Rightarrow> 'v list" where
  "hm_values m = map snd m"

text \<open>\<open>*m.entry(k).or_default() += 1\<close> and \<open>m.entry(k).or_default().push(x)\<close>.\<close>

definition hm_bump :: "'k \<Rightarrow> ('k, u64) hmap \<Rightarrow> ('k, u64) hmap" where
  "hm_bump k m = hm_insert k ((case hm_get m k of None \<Rightarrow> 0 | Some n \<Rightarrow> n) + 1) m"

definition hm_push :: "'k \<Rightarrow> 'a \<Rightarrow> ('k, 'a list) hmap \<Rightarrow> ('k, 'a list) hmap" where
  "hm_push k x m = hm_insert k ((case hm_get m k of None \<Rightarrow> [] | Some xs \<Rightarrow> xs) @ [x]) m"

interpretation hm: std_map "[]" hm_get hm_insert hm_remove "\<lambda>m. m" hm_wf
  by unfold_locales
    (auto simp: hm_wf_def hm_get_def hm_insert_def hm_remove_def update_conv' delete_conv'
      distinct_update distinct_delete)

lemma hm_wf_empty [simp, intro]: "hm_wf []"
  by (rule hm.invar_mt)

lemma hm_wf_insert [simp, intro]: "hm_wf m \<Longrightarrow> hm_wf (hm_insert k v m)"
  by (rule hm.invar_ins)

lemma hm_wf_remove [simp, intro]: "hm_wf m \<Longrightarrow> hm_wf (hm_remove k m)"
  by (rule hm.invar_del)

lemma hm_get_empty [simp]: "hm_get [] k = None"
  by (rule hm.look_mt)

lemma hm_get_insert [simp]: "hm_get (hm_insert k v m) k' = (if k' = k then Some v else hm_get m k')"
  by (simp add: hm_get_def hm_insert_def update_conv')

lemma hm_get_remove [simp]: "hm_get (hm_remove k m) k' = (if k' = k then None else hm_get m k')"
  by (simp add: hm_get_def hm_remove_def delete_conv')

lemma hm_values_iff: "hm_wf m \<Longrightarrow> v \<in> set (hm_values m) \<longleftrightarrow> (\<exists>k. hm_get m k = Some v)"
  using hm.entries_iff [of m v] by (simp add: hm_values_def)

lemma hm_wf_bump [simp, intro]: "hm_wf m \<Longrightarrow> hm_wf (hm_bump k m)"
  by (simp add: hm_bump_def)

lemma hm_wf_push [simp, intro]: "hm_wf m \<Longrightarrow> hm_wf (hm_push k x m)"
  by (simp add: hm_push_def)

lemma hm_get_push:
  "hm_get (hm_push k x m) k' =
    (if k' = k then Some ((case hm_get m k of None \<Rightarrow> [] | Some xs \<Rightarrow> xs) @ [x]) else hm_get m k')"
  by (simp add: hm_push_def)

text \<open>The count of a key, 0 when it has no entry: what a counter map reports.\<close>

definition hm_count :: "('k, u64) hmap \<Rightarrow> 'k \<Rightarrow> u64" where
  "hm_count m k = (case hm_get m k of None \<Rightarrow> 0 | Some n \<Rightarrow> n)"

lemma hm_count_empty [simp]: "hm_count [] k = 0"
  by (simp add: hm_count_def)

lemma hm_count_bump: "hm_count (hm_bump k m) k' = hm_count m k' + (if k' = k then 1 else 0)"
  by (simp add: hm_count_def hm_bump_def)

lemma hm_count_bumps: "hm_count (fold hm_bump ks m) k = hm_count m k + of_nat (count_list ks k)"
  by (induction ks arbitrary: m) (auto simp: hm_count_bump)

end
