(* ===== verification/Float64.thy ===== *)
theory Float64
  imports Prelude
begin

text \<open>
  The floating-point types \<open>f64\<close> and \<open>f32\<close> as their IEEE 754 bit patterns, with the operations the
  program applies to them: arithmetic rounded to nearest, ties to even; comparison; \<open>is_finite\<close>;
  \<open>round\<close>; and the casts between floats and integers. Every operation computes the exact result on
  integers and rounds it once (\<open>round_mag\<close>), so all of them evaluate. The sign and payload of a NaN
  result are unspecified in Rust; the model uses the canonical quiet NaN, and the program never
  stores or sends a NaN it has computed.
\<close>

section \<open>Formats and bit patterns\<close>

record float_format =
  frac_bits :: nat
  exp_bits :: nat

definition binary64 :: float_format where
  "binary64 = \<lparr>frac_bits = 52, exp_bits = 11\<rparr>"

definition binary32 :: float_format where
  "binary32 = \<lparr>frac_bits = 23, exp_bits = 8\<rparr>"

text \<open>The exponent of the smallest positive value: \<open>-1074\<close> and \<open>-149\<close>.\<close>

definition emin :: "float_format \<Rightarrow> int" where
  "emin f = 2 - 2 ^ (exp_bits f - 1) - int (frac_bits f)"

definition inf_bits :: "float_format \<Rightarrow> int" where
  "inf_bits f = (2 ^ exp_bits f - 1) * 2 ^ frac_bits f"

text \<open>
  What a bit pattern stands for: \<open>FNum s m e\<close> is the number \<open>(-1)^s * m * 2^e\<close>.
\<close>

datatype fview = FNan | FInf bool | FNum bool int int

definition unpack :: "float_format \<Rightarrow> int \<Rightarrow> fview" where
  "unpack f b =
     (let t = frac_bits f;
          s = odd (b div 2 ^ (t + exp_bits f));
          E = (b div 2 ^ t) mod 2 ^ exp_bits f;
          F = b mod 2 ^ t
      in if E = 2 ^ exp_bits f - 1 then (if F = 0 then FInf s else FNan)
         else if E = 0 then FNum s F (emin f)
         else FNum s (2 ^ t + F) (emin f + (E - 1)))"

definition pack :: "float_format \<Rightarrow> bool \<Rightarrow> int \<Rightarrow> int" where
  "pack f s b = (if s then 2 ^ (frac_bits f + exp_bits f) else 0) + b"

section \<open>Rounding\<close>

text \<open>\<open>n / d\<close> rounded to the nearest integer, ties to even.\<close>

definition rne :: "int \<Rightarrow> int \<Rightarrow> int" where
  "rne n d =
     (let q = n div d; r = n mod d
      in if 2 * r < d then q else if d < 2 * r then q + 1 else if even q then q else q + 1)"

fun ilog2 :: "int \<Rightarrow> nat" where
  "ilog2 n = (if n < 2 then 0 else Suc (ilog2 (n div 2)))"

declare ilog2.simps [simp del]

text \<open>The exponent of the leading bit of \<open>n / d\<close>.\<close>

definition ratio_log2 :: "int \<Rightarrow> int \<Rightarrow> int" where
  "ratio_log2 n d =
     (let k = int (ilog2 n) - int (ilog2 d)
      in if (if 0 \<le> k then d * 2 ^ nat k \<le> n else d \<le> n * 2 ^ nat (- k)) then k else k - 1)"

text \<open>
  The magnitude bits of the value nearest to \<open>n / d * 2^e\<close>: the exponent field and the fraction
  field as one integer, where a carry out of the fraction moves to the next exponent by itself.
\<close>

definition round_mag :: "float_format \<Rightarrow> int \<Rightarrow> int \<Rightarrow> int \<Rightarrow> int" where
  "round_mag f n d e =
     (if n = 0 then 0
      else let q = max (ratio_log2 n d + e - int (frac_bits f)) (emin f);
               k = e - q;
               m = (if 0 \<le> k then rne (n * 2 ^ nat k) d else rne n (d * 2 ^ nat (- k)))
           in min ((q - emin f) * 2 ^ frac_bits f + m) (inf_bits f))"

section \<open>The types and their operations\<close>

datatype f64 = F64 (f64_to_bits: u64)
datatype f32 = F32 (f32_to_bits: u32)

definition view64 :: "f64 \<Rightarrow> fview" where
  "view64 x = unpack binary64 (uint (f64_to_bits x))"

definition view32 :: "f32 \<Rightarrow> fview" where
  "view32 x = unpack binary32 (uint (f32_to_bits x))"

definition mk64 :: "bool \<Rightarrow> int \<Rightarrow> f64" where
  "mk64 s b = F64 (word_of_int (pack binary64 s b))"

definition mk32 :: "bool \<Rightarrow> int \<Rightarrow> f32" where
  "mk32 s b = F32 (word_of_int (pack binary32 s b))"

definition f64_nan :: f64 where
  "f64_nan = F64 0x7FF8000000000000"

definition f64_inf :: "bool \<Rightarrow> f64" where
  "f64_inf s = mk64 s (inf_bits binary64)"

definition f64_zero :: "bool \<Rightarrow> f64" where
  "f64_zero s = mk64 s 0"

definition is_finite :: "f64 \<Rightarrow> bool" where
  "is_finite x = (case view64 x of FNum _ _ _ \<Rightarrow> True | _ \<Rightarrow> False)"

definition is_finite32 :: "f32 \<Rightarrow> bool" where
  "is_finite32 x = (case view32 x of FNum _ _ _ \<Rightarrow> True | _ \<Rightarrow> False)"

definition signed :: "bool \<Rightarrow> int \<Rightarrow> int" where
  "signed s m = (if s then - m else m)"

text \<open>A decimal literal \<open>n / d\<close> of the source is the nearest double.\<close>

definition f64_lit :: "int \<Rightarrow> int \<Rightarrow> f64" where
  "f64_lit n d = mk64 (n < 0) (round_mag binary64 \<bar>n\<bar> d 0)"

definition f64_neg :: "f64 \<Rightarrow> f64" where
  "f64_neg x = F64 (xor (f64_to_bits x) 0x8000000000000000)"

definition f64_abs :: "f64 \<Rightarrow> f64" where
  "f64_abs x = F64 (and (f64_to_bits x) 0x7FFFFFFFFFFFFFFF)"

definition f64_add :: "f64 \<Rightarrow> f64 \<Rightarrow> f64" where
  "f64_add a b =
     (case (view64 a, view64 b) of
        (FNan, _) \<Rightarrow> f64_nan
      | (_, FNan) \<Rightarrow> f64_nan
      | (FInf s, FInf u) \<Rightarrow> if s = u then a else f64_nan
      | (FInf _, FNum _ _ _) \<Rightarrow> a
      | (FNum _ _ _, FInf _) \<Rightarrow> b
      | (FNum s m e, FNum u k g) \<Rightarrow>
          (let h = min e g;
               x = signed s m * 2 ^ nat (e - h) + signed u k * 2 ^ nat (g - h)
           in if x = 0 then f64_zero (s \<and> u) else mk64 (x < 0) (round_mag binary64 \<bar>x\<bar> 1 h)))"

definition f64_sub :: "f64 \<Rightarrow> f64 \<Rightarrow> f64" where
  "f64_sub a b = f64_add a (f64_neg b)"

definition f64_mul :: "f64 \<Rightarrow> f64 \<Rightarrow> f64" where
  "f64_mul a b =
     (case (view64 a, view64 b) of
        (FNan, _) \<Rightarrow> f64_nan
      | (_, FNan) \<Rightarrow> f64_nan
      | (FInf s, FInf u) \<Rightarrow> f64_inf (s \<noteq> u)
      | (FInf s, FNum u k _) \<Rightarrow> if k = 0 then f64_nan else f64_inf (s \<noteq> u)
      | (FNum s m _, FInf u) \<Rightarrow> if m = 0 then f64_nan else f64_inf (s \<noteq> u)
      | (FNum s m e, FNum u k g) \<Rightarrow> mk64 (s \<noteq> u) (round_mag binary64 (m * k) 1 (e + g)))"

definition f64_div :: "f64 \<Rightarrow> f64 \<Rightarrow> f64" where
  "f64_div a b =
     (case (view64 a, view64 b) of
        (FNan, _) \<Rightarrow> f64_nan
      | (_, FNan) \<Rightarrow> f64_nan
      | (FInf s, FInf u) \<Rightarrow> f64_nan
      | (FInf s, FNum u _ _) \<Rightarrow> f64_inf (s \<noteq> u)
      | (FNum s _ _, FInf u) \<Rightarrow> f64_zero (s \<noteq> u)
      | (FNum s m e, FNum u k g) \<Rightarrow>
          if k = 0 then (if m = 0 then f64_nan else f64_inf (s \<noteq> u))
          else mk64 (s \<noteq> u) (round_mag binary64 m k (e - g)))"

text \<open>\<open>x.round()\<close>: to the nearest integer, halves away from zero.\<close>

definition f64_round :: "f64 \<Rightarrow> f64" where
  "f64_round a =
     (case view64 a of
        FNum s m e \<Rightarrow>
          if 0 \<le> e then a
          else mk64 s (round_mag binary64 ((2 * m + 2 ^ nat (- e)) div (2 * 2 ^ nat (- e))) 1 0)
      | _ \<Rightarrow> a)"

text \<open>\<open>x as i128\<close>: truncation that saturates, NaN to 0. \<open>i as f64\<close>: rounded to nearest.\<close>

definition f64_to_i128 :: "f64 \<Rightarrow> int" where
  "f64_to_i128 a =
     (case view64 a of
        FNan \<Rightarrow> 0
      | FInf s \<Rightarrow> if s then i128_min else i128_max
      | FNum s m e \<Rightarrow>
          (let v = signed s (if 0 \<le> e then m * 2 ^ nat e else m div 2 ^ nat (- e))
           in max i128_min (min i128_max v)))"

definition f64_of_int :: "int \<Rightarrow> f64" where
  "f64_of_int i = mk64 (i < 0) (round_mag binary64 \<bar>i\<bar> 1 0)"

definition f64_of_f32 :: "f32 \<Rightarrow> f64" where
  "f64_of_f32 x =
     (case view32 x of
        FNan \<Rightarrow> f64_nan
      | FInf s \<Rightarrow> f64_inf s
      | FNum s m e \<Rightarrow> mk64 s (round_mag binary64 m 1 e))"

definition f32_of_f64 :: "f64 \<Rightarrow> f32" where
  "f32_of_f64 x =
     (case view64 x of
        FNan \<Rightarrow> F32 0x7FC00000
      | FInf s \<Rightarrow> mk32 s (inf_bits binary32)
      | FNum s m e \<Rightarrow> mk32 s (round_mag binary32 m 1 e))"

definition f64_lt :: "f64 \<Rightarrow> f64 \<Rightarrow> bool" where
  "f64_lt a b =
     (case (view64 a, view64 b) of
        (FNan, _) \<Rightarrow> False
      | (_, FNan) \<Rightarrow> False
      | (FInf s, FInf u) \<Rightarrow> s \<and> \<not> u
      | (FInf s, FNum _ _ _) \<Rightarrow> s
      | (FNum _ _ _, FInf u) \<Rightarrow> \<not> u
      | (FNum s m e, FNum u k g) \<Rightarrow>
          (let h = min e g
           in signed s m * 2 ^ nat (e - h) < signed u k * 2 ^ nat (g - h)))"

definition f64_eq :: "f64 \<Rightarrow> f64 \<Rightarrow> bool" where
  "f64_eq a b =
     (case (view64 a, view64 b) of
        (FInf s, FInf u) \<Rightarrow> s = u
      | (FNum s m e, FNum u k g) \<Rightarrow>
          (let h = min e g
           in signed s m * 2 ^ nat (e - h) = signed u k * 2 ^ nat (g - h))
      | _ \<Rightarrow> False)"

definition f64_gt :: "f64 \<Rightarrow> f64 \<Rightarrow> bool" where
  "f64_gt a b = f64_lt b a"

end
