(* ===== verification/Serde.thy ===== *)
theory Serde
  imports Hash_Map Float64
begin

text \<open>
  What the program uses of serde: structs read from the tables and sequences of a document with the
  attributes the code gives them, and JSON documents in both directions. The parsers of the texts are
  parameters of their callers; a JSON text is the tree of its values, with the entries of an object as
  written, duplicates included. Which of several defects of a document is reported, and the wording,
  is not modelled.
\<close>

section \<open>Tables\<close>

text \<open>A required key, a key with a default, and \<open>deny_unknown_fields\<close>.\<close>

definition required :: "('v \<Rightarrow> 'a option) \<Rightarrow> string \<Rightarrow> (string \<times> 'v) list \<Rightarrow> 'a option" where
  "required conv k t = Option.bind (map_of t k) conv"

definition defaulted :: "('v \<Rightarrow> 'a option) \<Rightarrow> 'a \<Rightarrow> string \<Rightarrow> (string \<times> 'v) list \<Rightarrow> 'a option" where
  "defaulted conv d k t = (case map_of t k of None \<Rightarrow> Some d | Some v \<Rightarrow> conv v)"

definition only_keys :: "string list \<Rightarrow> (string \<times> 'v) list \<Rightarrow> bool" where
  "only_keys ks t \<longleftrightarrow> list_all (\<lambda>kv. fst kv \<in> set ks) t"

section \<open>JSON values\<close>

text \<open>An integer literal is a \<open>u64\<close> or a negative \<open>i64\<close>; every other number is an \<open>f64\<close>.\<close>

datatype json =
    JNull
  | JBool bool
  | JPos u64
  | JNeg int
  | JFloat f64
  | JStr string
  | JArr "json list"
  | JObj "(string \<times> json) list"

datatype json_error = JsonSyntax string | JsonData

definition from_str ::
  "(json \<Rightarrow> 'a option) \<Rightarrow> (string \<Rightarrow> (string, json) result) \<Rightarrow> string \<Rightarrow> (json_error, 'a) result" where
  "from_str conv parse text = and_then (map_err JsonSyntax (parse text)) (\<lambda>j. ok_or JsonData (conv j))"

section \<open>Deserialising\<close>

definition json_bool :: "json \<Rightarrow> bool option" where
  "json_bool j = (case j of JBool b \<Rightarrow> Some b | _ \<Rightarrow> None)"

definition json_str :: "json \<Rightarrow> string option" where
  "json_str j = (case j of JStr s \<Rightarrow> Some s | _ \<Rightarrow> None)"

text \<open>An unsigned integer of the width of the result: floats and integers out of range are rejected.\<close>

definition json_uint :: "json \<Rightarrow> 'a::len word option" where
  "json_uint j = (case j of JPos n \<Rightarrow> if uint n < 2 ^ LENGTH('a) then Some (ucast n) else None | _ \<Rightarrow> None)"

text \<open>A float, also from an integer literal.\<close>

definition json_f64 :: "json \<Rightarrow> f64 option" where
  "json_f64 j =
     (case j of JPos n \<Rightarrow> Some (f64_of_int (uint n)) | JNeg i \<Rightarrow> Some (f64_of_int i) | JFloat x \<Rightarrow> Some x | _ \<Rightarrow> None)"

text \<open>\<open>Option\<close>: \<open>null\<close> is \<open>None\<close>.\<close>

definition json_nullable :: "(json \<Rightarrow> 'a option) \<Rightarrow> json \<Rightarrow> 'a option option" where
  "json_nullable conv j = (case j of JNull \<Rightarrow> Some None | _ \<Rightarrow> map_option Some (conv j))"

definition json_seq :: "(json \<Rightarrow> 'a option) \<Rightarrow> json \<Rightarrow> 'a list option" where
  "json_seq conv j = (case j of JArr xs \<Rightarrow> those (map conv xs) | _ \<Rightarrow> None)"

text \<open>An enum of unit variants: the name of a variant, or an object from it to \<open>null\<close>.\<close>

definition json_variant :: "(string \<times> 'a) list \<Rightarrow> json \<Rightarrow> 'a option" where
  "json_variant names j =
     (case j of JStr s \<Rightarrow> map_of names s | JObj [(s, JNull)] \<Rightarrow> map_of names s | _ \<Rightarrow> None)"

text \<open>A \<open>BTreeMap\<close> as its list of entries in ascending key order; a later entry replaces an earlier one.\<close>

definition btmap_insert :: "'k::linorder \<Rightarrow> 'v \<Rightarrow> ('k \<times> 'v) list \<Rightarrow> ('k \<times> 'v) list" where
  "btmap_insert k v m = insort_key fst (k, v) (filter (\<lambda>kv. fst kv \<noteq> k) m)"

definition json_map :: "(json \<Rightarrow> 'a option) \<Rightarrow> json \<Rightarrow> (string \<times> 'a) list option" where
  "json_map conv j =
     (case j of
        JObj kvs \<Rightarrow> map_option (\<lambda>vs. fold (\<lambda>(k, v). btmap_insert k v) (zip (map fst kvs) vs) [])
          (those (map (\<lambda>kv. conv (snd kv)) kvs))
      | _ \<Rightarrow> None)"

text \<open>
  A struct with the given fields: an object, where no field may appear twice and unknown keys are
  rejected (\<open>deny_unknown_fields\<close>) or skipped, or an array of the fields in order, of which trailing
  ones may be missing.
\<close>

definition struct_table :: "bool \<Rightarrow> string list \<Rightarrow> json \<Rightarrow> (string \<times> json) list option" where
  "struct_table deny ks j =
     (case j of
        JObj kvs \<Rightarrow>
          (let t = filter (\<lambda>kv. fst kv \<in> set ks) kvs
           in if (deny \<longrightarrow> only_keys ks kvs) \<and> distinct (map fst t) then Some t else None)
      | JArr xs \<Rightarrow> if length xs \<le> length ks then Some (zip ks xs) else None
      | _ \<Rightarrow> None)"

section \<open>Serialising\<close>

text \<open>A float that is not finite is written as \<open>null\<close>.\<close>

definition f64_json :: "f64 \<Rightarrow> json" where
  "f64_json x = (if is_finite x then JFloat x else JNull)"

definition uint_json :: "'a::len word \<Rightarrow> json" where
  "uint_json n = JPos (ucast n)"

text \<open>A field with \<open>skip_serializing_if = "Option::is_none"\<close>.\<close>

definition optional_field :: "string \<Rightarrow> ('a \<Rightarrow> json) \<Rightarrow> 'a option \<Rightarrow> (string \<times> json) list" where
  "optional_field k f v = (case v of None \<Rightarrow> [] | Some x \<Rightarrow> [(k, f x)])"

definition map_json :: "('a \<Rightarrow> json) \<Rightarrow> (string \<times> 'a) list \<Rightarrow> json" where
  "map_json f m = JObj (map (\<lambda>kv. (fst kv, f (snd kv))) m)"

section \<open>Round trips\<close>

text \<open>
  A document printed and parsed again. The program uses \<open>serde_json\<close> without \<open>float_roundtrip\<close>, so the
  parser may read another number than the one that was printed: \<open>g\<close> is what it reads.
\<close>

primrec json_reread :: "(f64 \<Rightarrow> f64) \<Rightarrow> json \<Rightarrow> json" where
  "json_reread g JNull = JNull"
| "json_reread g (JBool b) = JBool b"
| "json_reread g (JPos n) = JPos n"
| "json_reread g (JNeg i) = JNeg i"
| "json_reread g (JFloat x) = JFloat (g x)"
| "json_reread g (JStr s) = JStr s"
| "json_reread g (JArr xs) = JArr (map (json_reread g) xs)"
| "json_reread g (JObj kvs) = JObj (map (map_prod id (json_reread g)) kvs)"

lemma json_reread_null [simp]: "json_reread g j = JNull \<longleftrightarrow> j = JNull"
  by (cases j) simp_all

text \<open>A serialiser whose output its deserialiser reads back, with other numbers, for the values that \<open>ok\<close> holds of.\<close>

locale json_codec =
  fixes ser :: "'a \<Rightarrow> json" and de :: "json \<Rightarrow> 'a option" and ok :: "'a \<Rightarrow> bool"
    and adj :: "(f64 \<Rightarrow> f64) \<Rightarrow> 'a \<Rightarrow> 'a"
  assumes de_reread: "ok x \<Longrightarrow> de (json_reread g (ser x)) = Some (adj g x)"
    and ser_value: "ok x \<Longrightarrow> ser x \<noteq> JNull"
begin

lemma nullable_reread: "ok x \<Longrightarrow> json_nullable de (json_reread g (ser x)) = Some (Some (adj g x))"
  using ser_value [of x] de_reread [of x g] json_reread_null [of g "ser x"]
  by (cases "json_reread g (ser x)") (simp_all add: json_nullable_def)

lemma those_reread: "list_all ok xs \<Longrightarrow> those (map (\<lambda>x. de (json_reread g (ser x))) xs) = Some (map (adj g) xs)"
  by (induction xs) (simp_all add: de_reread)

lemma seq_reread: "list_all ok xs \<Longrightarrow> json_seq de (json_reread g (JArr (map ser xs))) = Some (map (adj g) xs)"
  by (simp add: json_seq_def comp_def those_reread)

end

lemma json_reread_same: "json_reread (\<lambda>x. x) j = j"
  by (induction j) (force intro!: map_idI)+

lemma uint_json_reread [simp]: "json_reread g (uint_json n) = uint_json n"
  by (simp add: uint_json_def)

lemma uint_json_value [simp]: "uint_json n \<noteq> JNull"
  by (simp add: uint_json_def)

lemma json_uint_json:
  assumes "LENGTH('a::len) \<le> 64"
  shows "json_uint (uint_json (n :: 'a word)) = Some n"
proof -
  have "uint n < 2 ^ LENGTH('a)" by (rule uint_lt2p)
  moreover have same: "uint (ucast n :: u64) = uint n"
    using assms by (simp add: uint_up_ucast is_up)
  moreover have "(ucast (ucast n :: u64) :: 'a word) = n"
    unfolding ucast_eq [of "ucast n :: u64"] same by simp
  ultimately show ?thesis by (simp add: json_uint_def uint_json_def)
qed

end
