(* ===== verification/Catalog.thy ===== *)
theory Catalog
  imports Prelude Hash_Map Float64 Serde
begin

text \<open>
  Physical values and the signal catalog (\<open>crates/protocol/src/value.rs\<close> and \<open>catalog.rs\<close>): the
  catalog document as written in JSON (\<open>catalog_spec\<close>, \<open>signal_def\<close>), its validation
  (\<open>signal_new\<close>, \<open>catalog_new\<close>) and the validated catalog with its lookup tables; loading a document is
  in \<open>Documents\<close>. The enum map of a signal is the list of its entries in
  ascending key order, as iterating the \<open>BTreeMap\<close> yields them. The lemmas characterise exactly
  which documents are accepted and what the lookups of an accepted catalog return.
\<close>

section \<open>Physical values\<close>

datatype signal_value = VBool bool | VNum f64 | VEnum string

fun as_num :: "signal_value \<Rightarrow> f64 option" where
  "as_num (VNum v) = Some v"
| "as_num _ = None"

text \<open>The derived \<open>PartialEq\<close>: numbers compare as IEEE floats.\<close>

fun sv_eq :: "signal_value \<Rightarrow> signal_value \<Rightarrow> bool" where
  "sv_eq (VBool a) (VBool b) = (a = b)"
| "sv_eq (VNum a) (VNum b) = f64_eq a b"
| "sv_eq (VEnum a) (VEnum b) = (a = b)"
| "sv_eq _ _ = False"

section \<open>Wire types\<close>

datatype signal_type = TBool | TU8 | TI8 | TU16 | TI16 | TU32 | TI32 | TU64 | TI64 | TF32 | TF64

definition all_types :: "signal_type list" where
  "all_types = [TBool, TU8, TI8, TU16, TI16, TU32, TI32, TU64, TI64, TF32, TF64]"

fun type_size :: "signal_type \<Rightarrow> nat" where
  "type_size TBool = 1" | "type_size TU8 = 1" | "type_size TI8 = 1"
| "type_size TU16 = 2" | "type_size TI16 = 2"
| "type_size TU32 = 4" | "type_size TI32 = 4" | "type_size TF32 = 4"
| "type_size TU64 = 8" | "type_size TI64 = 8" | "type_size TF64 = 8"

definition is_float :: "signal_type \<Rightarrow> bool" where
  "is_float t \<longleftrightarrow> t = TF32 \<or> t = TF64"

fun int_range :: "signal_type \<Rightarrow> (int \<times> int) option" where
  "int_range TU8 = Some (0, 2 ^ 8 - 1)"
| "int_range TI8 = Some (- (2 ^ 7), 2 ^ 7 - 1)"
| "int_range TU16 = Some (0, 2 ^ 16 - 1)"
| "int_range TI16 = Some (- (2 ^ 15), 2 ^ 15 - 1)"
| "int_range TU32 = Some (0, 2 ^ 32 - 1)"
| "int_range TI32 = Some (- (2 ^ 31), 2 ^ 31 - 1)"
| "int_range TU64 = Some (0, 2 ^ 64 - 1)"
| "int_range TI64 = Some (- (2 ^ 63), 2 ^ 63 - 1)"
| "int_range _ = None"

fun type_debug :: "signal_type \<Rightarrow> string" where
  "type_debug TBool = ''Bool''" | "type_debug TU8 = ''U8''" | "type_debug TI8 = ''I8''"
| "type_debug TU16 = ''U16''" | "type_debug TI16 = ''I16''"
| "type_debug TU32 = ''U32''" | "type_debug TI32 = ''I32''"
| "type_debug TU64 = ''U64''" | "type_debug TI64 = ''I64''"
| "type_debug TF32 = ''F32''" | "type_debug TF64 = ''F64''"

datatype endian = Big | Little
datatype value_kind = KBool | KNum | KEnum

section \<open>Catalog documents\<close>

record signal_def =
  sd_id :: u16
  sd_name :: string
  sd_ty :: signal_type
  sd_endian :: "endian option"
  sd_scale :: f64
  sd_offset :: f64
  sd_unit :: "string option"
  sd_enum_map :: "(string \<times> string) list option"

definition default_scale :: f64 where
  "default_scale = f64_lit 1 1"

record catalog_spec =
  cs_model :: string
  cs_version :: u32
  cs_signals :: "signal_def list"

datatype catalog_error =
    JsonError json_error
  | EmptyModel
  | DuplicateId u16
  | DuplicateName string
  | InvalidName string
  | MissingEndian string
  | InvalidScaleOffset string
  | InvalidEnum string string

definition is_valid_signal_name :: "string \<Rightarrow> bool" where
  "is_valid_signal_name name =
     (case name of
        [] \<Rightarrow> False
      | c # cs \<Rightarrow> is_ascii_lowercase c \<and> length name \<le> 64
          \<and> list_all (\<lambda>c. is_ascii_lowercase c \<or> is_ascii_digit c \<or> c = CHR ''_'') cs)"

section \<open>Signals\<close>

record signal =
  sig_def :: signal_def
  enum_by_raw :: "(int, string) hmap"
  enum_by_label :: "(string, int) hmap"

text \<open>The loop over the enum entries: the tables built so far are threaded through.\<close>

fun enum_tables ::
  "signal_def \<Rightarrow> int \<Rightarrow> int \<Rightarrow> (string \<times> string) list \<Rightarrow> (int, string) hmap \<Rightarrow> (string, int) hmap
    \<Rightarrow> (catalog_error, (int, string) hmap \<times> (string, int) hmap) result" where
  "enum_tables d lo hi [] raws labels = Ok (raws, labels)"
| "enum_tables d lo hi ((key, label) # rest) raws labels =
     (case parse_i128 key of
        None \<Rightarrow> Err (InvalidEnum (sd_name d) (''key '' @ [CHR 0x27] @ key @ [CHR 0x27] @ '' is not an integer''))
      | Some raw \<Rightarrow>
          if raw < lo \<or> raw > hi
          then Err (InvalidEnum (sd_name d)
                 (''key '' @ show_int raw @ '' is out of range for '' @ type_debug (sd_ty d)))
          else if label = []
          then Err (InvalidEnum (sd_name d) (''key '' @ show_int raw @ '' has an empty label''))
          else if hm_contains labels label
          then Err (InvalidEnum (sd_name d) (''duplicate label '' @ [CHR 0x27] @ label @ [CHR 0x27]))
          else enum_tables d lo hi rest (hm_insert raw label raws) (hm_insert label raw labels))"

definition signal_new :: "signal_def \<Rightarrow> (catalog_error, signal) result" where
  "signal_new d =
     (if \<not> is_valid_signal_name (sd_name d) then Err (InvalidName (sd_name d))
      else if type_size (sd_ty d) > 1 \<and> sd_endian d = None then Err (MissingEndian (sd_name d))
      else if \<not> is_finite (sd_scale d) \<or> f64_eq (sd_scale d) (f64_lit 0 1) \<or> \<not> is_finite (sd_offset d)
      then Err (InvalidScaleOffset (sd_name d))
      else (case sd_enum_map d of
          None \<Rightarrow> Ok \<lparr>sig_def = d, enum_by_raw = [], enum_by_label = []\<rparr>
        | Some entries \<Rightarrow>
            (case int_range (sd_ty d) of
               None \<Rightarrow> Err (InvalidEnum (sd_name d)
                         (''enum requires an integer type, got '' @ type_debug (sd_ty d)))
             | Some (lo, hi) \<Rightarrow>
                 if entries = [] then Err (InvalidEnum (sd_name d) ''enum map is empty'')
                 else and_then (enum_tables d lo hi entries [] [])
                   (\<lambda>(raws, labels).
                      Ok \<lparr>sig_def = d, enum_by_raw = raws, enum_by_label = labels\<rparr>))))"

definition sig_id :: "signal \<Rightarrow> u16" where
  "sig_id s = sd_id (sig_def s)"

definition sig_name :: "signal \<Rightarrow> string" where
  "sig_name s = sd_name (sig_def s)"

definition sig_ty :: "signal \<Rightarrow> signal_type" where
  "sig_ty s = sd_ty (sig_def s)"

definition sig_unit :: "signal \<Rightarrow> string option" where
  "sig_unit s = sd_unit (sig_def s)"

definition sig_endian :: "signal \<Rightarrow> endian" where
  "sig_endian s = (case sd_endian (sig_def s) of None \<Rightarrow> Big | Some e \<Rightarrow> e)"

definition sig_kind :: "signal \<Rightarrow> value_kind" where
  "sig_kind s =
     (if sd_ty (sig_def s) = TBool then KBool
      else if sd_enum_map (sig_def s) \<noteq> None then KEnum else KNum)"

definition enum_label :: "signal \<Rightarrow> int \<Rightarrow> string option" where
  "enum_label s raw = hm_get (enum_by_raw s) raw"

definition enum_raw :: "signal \<Rightarrow> string \<Rightarrow> int option" where
  "enum_raw s label = hm_get (enum_by_label s) label"

section \<open>Catalogs\<close>

record catalog =
  cat_model :: string
  cat_version :: u32
  cat_signals :: "signal list"
  cat_by_id :: "(u16, nat) hmap"
  cat_by_name :: "(string, nat) hmap"

text \<open>
  The loop of \<open>Catalog::new\<close> over the enumerated definitions. \<open>seen_names\<close> of the code holds the
  same names as the keys of \<open>by_name\<close>, so one table stands for both.
\<close>

fun build_signals ::
  "nat \<Rightarrow> signal_def list \<Rightarrow> signal list \<Rightarrow> (u16, nat) hmap \<Rightarrow> (string, nat) hmap
    \<Rightarrow> (catalog_error, signal list \<times> (u16, nat) hmap \<times> (string, nat) hmap) result" where
  "build_signals idx [] signals ids names = Ok (signals, ids, names)"
| "build_signals idx (d # ds) signals ids names =
     (if hm_contains ids (sd_id d) then Err (DuplicateId (sd_id d))
      else if hm_contains names (sd_name d) then Err (DuplicateName (sd_name d))
      else and_then (signal_new d)
        (\<lambda>s. build_signals (Suc idx) ds (signals @ [s])
               (hm_insert (sd_id d) idx ids) (hm_insert (sd_name d) idx names)))"

definition catalog_new :: "catalog_spec \<Rightarrow> (catalog_error, catalog) result" where
  "catalog_new spec =
     (if trim_is_empty (cs_model spec) then Err EmptyModel
      else and_then (build_signals 0 (cs_signals spec) [] [] [])
        (\<lambda>(signals, ids, names).
           Ok \<lparr>cat_model = cs_model spec, cat_version = cs_version spec, cat_signals = signals,
               cat_by_id = ids, cat_by_name = names\<rparr>))"

definition by_id :: "catalog \<Rightarrow> u16 \<Rightarrow> signal option" where
  "by_id c i = Option.bind (hm_get (cat_by_id c) i) (vec_get (cat_signals c))"

definition by_name :: "catalog \<Rightarrow> string \<Rightarrow> signal option" where
  "by_name c n = Option.bind (hm_get (cat_by_name c) n) (vec_get (cat_signals c))"

definition to_spec :: "catalog \<Rightarrow> catalog_spec" where
  "to_spec c =
     \<lparr>cs_model = cat_model c, cs_version = cat_version c,
      cs_signals = map sig_def (cat_signals c)\<rparr>"

section \<open>Which documents are accepted\<close>

definition entry_ok :: "int \<Rightarrow> int \<Rightarrow> string \<times> string \<Rightarrow> bool" where
  "entry_ok lo hi e =
     ((case parse_i128 (fst e) of None \<Rightarrow> False | Some raw \<Rightarrow> lo \<le> raw \<and> raw \<le> hi) \<and> snd e \<noteq> [])"

definition enum_ok :: "signal_def \<Rightarrow> bool" where
  "enum_ok d =
     (case sd_enum_map d of
        None \<Rightarrow> True
      | Some entries \<Rightarrow>
          (case int_range (sd_ty d) of
             None \<Rightarrow> False
           | Some (lo, hi) \<Rightarrow>
               entries \<noteq> [] \<and> list_all (entry_ok lo hi) entries \<and> distinct (map snd entries)))"

definition valid_def :: "signal_def \<Rightarrow> bool" where
  "valid_def d \<longleftrightarrow>
     is_valid_signal_name (sd_name d)
     \<and> (type_size (sd_ty d) > 1 \<longrightarrow> sd_endian d \<noteq> None)
     \<and> is_finite (sd_scale d) \<and> \<not> f64_eq (sd_scale d) (f64_lit 0 1) \<and> is_finite (sd_offset d)
     \<and> enum_ok d"

definition valid_spec :: "catalog_spec \<Rightarrow> bool" where
  "valid_spec spec \<longleftrightarrow>
     \<not> trim_is_empty (cs_model spec)
     \<and> distinct (map sd_id (cs_signals spec))
     \<and> distinct (map sd_name (cs_signals spec))
     \<and> list_all valid_def (cs_signals spec)"

definition key_raw :: "string \<times> string \<Rightarrow> int" where
  "key_raw e = the (parse_i128 (fst e))"

lemma enum_tables_Ok_iff:
  "enum_tables d lo hi es raws labels = Ok (r, l) \<longleftrightarrow>
     list_all (entry_ok lo hi) es \<and> distinct (map snd es)
     \<and> list_all (\<lambda>e. hm_get labels (snd e) = None) es
     \<and> r = fold (\<lambda>(k, v). hm_insert k v) (map (\<lambda>e. (key_raw e, snd e)) es) raws
     \<and> l = fold (\<lambda>(k, v). hm_insert k v) (map (\<lambda>e. (snd e, key_raw e)) es) labels"
proof (induction es arbitrary: raws labels)
  case Nil
  then show ?case by auto
next
  case (Cons e es)
  obtain key lab where e: "e = (key, lab)" by (cases e)
  have other: "list_all (\<lambda>x. hm_get (hm_insert lab v labels) (snd x) = None) es \<longleftrightarrow>
      lab \<notin> snd ` set es \<and> list_all (\<lambda>x. hm_get labels (snd x) = None) es" for v
    by (auto simp: list_all_iff)
  show ?case
    by (auto simp: e Cons.IH other entry_ok_def key_raw_def hm_contains_def
        simp del: hm_get_insert split: option.splits)
qed

lemma signal_new_Ok_iff:
  "signal_new d = Ok s \<longleftrightarrow>
     valid_def d
     \<and> s = \<lparr>sig_def = d,
         enum_by_raw = fold (\<lambda>(k, v). hm_insert k v)
           (map (\<lambda>e. (key_raw e, snd e)) (case sd_enum_map d of None \<Rightarrow> [] | Some es \<Rightarrow> es)) [],
         enum_by_label = fold (\<lambda>(k, v). hm_insert k v)
           (map (\<lambda>e. (snd e, key_raw e)) (case sd_enum_map d of None \<Rightarrow> [] | Some es \<Rightarrow> es)) []\<rparr>"
proof (cases "sd_enum_map d")
  case None
  then show ?thesis by (auto simp: signal_new_def valid_def_def enum_ok_def)
next
  case (Some es)
  have tables: "and_then (enum_tables d lo hi es [] [])
        (\<lambda>(raws, labels). Ok \<lparr>sig_def = d, enum_by_raw = raws, enum_by_label = labels\<rparr>) = Ok s
      \<longleftrightarrow> list_all (entry_ok lo hi) es \<and> distinct (map snd es)
        \<and> s = \<lparr>sig_def = d,
            enum_by_raw = fold (\<lambda>(k, v). hm_insert k v) (map (\<lambda>e. (key_raw e, snd e)) es) [],
            enum_by_label = fold (\<lambda>(k, v). hm_insert k v) (map (\<lambda>e. (snd e, key_raw e)) es) []\<rparr>"
    for lo hi
    by (auto simp: and_then_Ok_iff enum_tables_Ok_iff list_all_iff split: prod.splits)
  show ?thesis
    by (auto simp: Some signal_new_def valid_def_def enum_ok_def tables split: option.splits)
qed

lemma signal_new_def_of: "signal_new d = Ok s \<Longrightarrow> sig_def s = d"
  by (simp add: signal_new_Ok_iff)

lemma signal_new_ok_iff: "is_ok (signal_new d) \<longleftrightarrow> valid_def d"
  by (simp add: is_ok_iff signal_new_Ok_iff)

text \<open>The enum tables of an accepted signal.\<close>

definition enum_entries :: "signal_def \<Rightarrow> (string \<times> string) list" where
  "enum_entries d = (case sd_enum_map d of None \<Rightarrow> [] | Some es \<Rightarrow> es)"

lemma valid_def_distinct_labels: "valid_def d \<Longrightarrow> distinct (map snd (enum_entries d))"
  by (auto simp: valid_def_def enum_ok_def enum_entries_def split: option.splits)

lemma enum_raw_iff:
  assumes "signal_new d = Ok s"
  shows "enum_raw s l = Some r \<longleftrightarrow> (\<exists>e\<in>set (enum_entries d). snd e = l \<and> key_raw e = r)"
proof -
  let ?kvs = "map (\<lambda>e. (snd e, key_raw e)) (enum_entries d)"
  have dist: "distinct (map fst ?kvs)"
    using assms valid_def_distinct_labels [of d] by (simp add: signal_new_Ok_iff comp_def)
  have "enum_raw s l = map_of (rev ?kvs) l"
    using assms
    by (simp add: signal_new_Ok_iff enum_raw_def enum_entries_def hm.look_collect split: option.splits)
  also have "\<dots> = map_of ?kvs l"
    by (simp only: map_of_rev_distinct [OF dist])
  finally show ?thesis
    using dist by (auto simp: map_of_eq_Some_iff simp del: map_map)
qed

text \<open>An accepted catalog: its signals are the accepted definitions, indexed by position.\<close>

definition mk_signal :: "signal_def \<Rightarrow> signal" where
  "mk_signal d = get_ok (signal_new d)"

lemma mk_signal: "valid_def d \<Longrightarrow> signal_new d = Ok (mk_signal d)"
  using signal_new_ok_iff [of d] by (auto simp: mk_signal_def is_ok_iff)

lemma sig_def_mk_signal: "valid_def d \<Longrightarrow> sig_def (mk_signal d) = d"
  by (blast dest: mk_signal signal_new_def_of)

lemma and_then_signal_new:
  "and_then (signal_new d) f = Ok r \<longleftrightarrow> valid_def d \<and> f (mk_signal d) = Ok r"
  using mk_signal [of d] signal_new_ok_iff [of d] by (cases "signal_new d") auto

lemma build_signals_Ok_iff:
  "build_signals idx ds sigs ids names = Ok r \<longleftrightarrow>
     list_all valid_def ds
     \<and> distinct (map sd_id ds) \<and> list_all (\<lambda>d. hm_get ids (sd_id d) = None) ds
     \<and> distinct (map sd_name ds) \<and> list_all (\<lambda>d. hm_get names (sd_name d) = None) ds
     \<and> r = (sigs @ map mk_signal ds,
          fold (\<lambda>(k, v). hm_insert k v) (zip (map sd_id ds) [idx..<idx + length ds]) ids,
          fold (\<lambda>(k, v). hm_insert k v) (zip (map sd_name ds) [idx..<idx + length ds]) names)"
proof (induction ds arbitrary: idx sigs ids names)
  case Nil
  then show ?case by auto
next
  case (Cons d ds)
  have other: "list_all (\<lambda>x. hm_get (hm_insert (f d) v m) (f x) = None) ds \<longleftrightarrow>
      f d \<notin> f ` set ds \<and> list_all (\<lambda>x. hm_get m (f x) = None) ds"
    for f :: "signal_def \<Rightarrow> 'k" and v :: nat and m
    by (auto simp: list_all_iff) (metis imageI)
  have upt: "[idx..<idx + length (d # ds)] = idx # [Suc idx..<Suc idx + length ds]"
    by (simp add: upt_rec)
  show ?case
    unfolding build_signals.simps upt
    by (auto simp: and_then_signal_new Cons.IH other hm_contains_def simp del: hm_get_insert)
qed

definition catalog_wf :: "catalog \<Rightarrow> bool" where
  "catalog_wf c \<longleftrightarrow> catalog_new (to_spec c) = Ok c"

lemma catalog_new_Ok_iff:
  "catalog_new spec = Ok c \<longleftrightarrow>
     valid_spec spec
     \<and> c = \<lparr>cat_model = cs_model spec, cat_version = cs_version spec,
         cat_signals = map mk_signal (cs_signals spec),
         cat_by_id = fold (\<lambda>(k, v). hm_insert k v)
           (zip (map sd_id (cs_signals spec)) [0..<length (cs_signals spec)]) [],
         cat_by_name = fold (\<lambda>(k, v). hm_insert k v)
           (zip (map sd_name (cs_signals spec)) [0..<length (cs_signals spec)]) []\<rparr>"
  unfolding catalog_new_def valid_spec_def
  by (auto simp: and_then_Ok_iff build_signals_Ok_iff list_all_iff split: prod.splits)

lemma to_spec_new: "catalog_new spec = Ok c \<Longrightarrow> to_spec c = spec"
  by (auto simp: catalog_new_Ok_iff to_spec_def valid_spec_def list_all_iff sig_def_mk_signal
      intro!: catalog_spec.equality map_idI)

lemma catalog_wf_new: "catalog_new spec = Ok c \<Longrightarrow> catalog_wf c"
  using to_spec_new [of spec c] by (simp add: catalog_wf_def)

text \<open>A table that maps the keys of a list to their positions finds the element itself.\<close>

lemma position_lookup:
  fixes f :: "'a \<Rightarrow> 'k"
  assumes "distinct (map f xs)"
  shows "Option.bind (hm_get (fold (\<lambda>(k, v). hm_insert k v) (zip (map f xs) [0..<length xs]) []) i)
      (vec_get (map g xs)) = Some y \<longleftrightarrow> (\<exists>x\<in>set xs. f x = i \<and> g x = y)"
proof -
  let ?kvs = "zip (map f xs) [0..<length xs]"
  have dist: "distinct (map fst ?kvs)"
    using assms by simp
  have get: "hm_get (fold (\<lambda>(k, v). hm_insert k v) ?kvs []) i = map_of ?kvs i"
    by (cases "map_of ?kvs i")
      (simp_all only: hm.look_collect [OF hm_wf_empty] map_of_rev_distinct [OF dist] hm_get_empty
        option.case)
  have pos: "map_of ?kvs i = Some n \<longleftrightarrow> n < length xs \<and> f (xs ! n) = i" for n
    using dist by (force simp: map_of_eq_Some_iff in_set_zip)
  have "Option.bind (map_of ?kvs i) (vec_get (map g xs)) = Some y \<longleftrightarrow>
      (\<exists>n<length xs. f (xs ! n) = i \<and> g (xs ! n) = y)"
    by (force simp: bind_eq_Some_conv pos vec_get_Some_iff)
  then show ?thesis
    unfolding get by (metis in_set_conv_nth)
qed

section \<open>The catalog as the decoder and the rule compiler see it\<close>

text \<open>
  What a client of a catalog relies on: a lookup finds exactly the listed signal with that id or
  that name.
\<close>

locale signal_directory =
  fixes signals_of :: "'c \<Rightarrow> signal list"
    and find_id :: "'c \<Rightarrow> u16 \<Rightarrow> signal option"
    and find_name :: "'c \<Rightarrow> string \<Rightarrow> signal option"
    and invar :: "'c \<Rightarrow> bool"
  assumes find_id_iff: "invar c \<Longrightarrow> find_id c i = Some s \<longleftrightarrow> s \<in> set (signals_of c) \<and> sig_id s = i"
    and find_name_iff: "invar c \<Longrightarrow> find_name c n = Some s \<longleftrightarrow> s \<in> set (signals_of c) \<and> sig_name s = n"
begin

lemma id_unique:
  "invar c \<Longrightarrow> s \<in> set (signals_of c) \<Longrightarrow> t \<in> set (signals_of c) \<Longrightarrow> sig_id s = sig_id t \<Longrightarrow> s = t"
  by (metis find_id_iff option.inject)

lemma name_unique:
  "invar c \<Longrightarrow> s \<in> set (signals_of c) \<Longrightarrow> t \<in> set (signals_of c) \<Longrightarrow> sig_name s = sig_name t \<Longrightarrow> s = t"
  by (metis find_name_iff option.inject)

lemma same_signal: "invar c \<Longrightarrow> find_id c i = Some s \<Longrightarrow> find_name c (sig_name s) = Some s"
  by (simp add: find_id_iff find_name_iff)

lemma find_id_total: "invar c \<Longrightarrow> s \<in> set (signals_of c) \<Longrightarrow> find_id c (sig_id s) = Some s"
  by (simp add: find_id_iff)

lemma find_name_total: "invar c \<Longrightarrow> s \<in> set (signals_of c) \<Longrightarrow> find_name c (sig_name s) = Some s"
  by (simp add: find_name_iff)

end

lemma catalog_lookup_iff:
  assumes "catalog_wf c"
  shows "by_id c i = Some s \<longleftrightarrow> s \<in> set (cat_signals c) \<and> sig_id s = i"
    and "by_name c n = Some s \<longleftrightarrow> s \<in> set (cat_signals c) \<and> sig_name s = n"
proof -
  define ds where "ds = cs_signals (to_spec c)"
  from assms have wf: "valid_spec (to_spec c)"
    and sigs: "cat_signals c = map mk_signal ds"
    and ids: "cat_by_id c = fold (\<lambda>(k, v). hm_insert k v) (zip (map sd_id ds) [0..<length ds]) []"
    and names: "cat_by_name c = fold (\<lambda>(k, v). hm_insert k v) (zip (map sd_name ds) [0..<length ds]) []"
    unfolding catalog_wf_def catalog_new_Ok_iff ds_def by (metis catalog.select_convs)+
  have dist: "distinct (map sd_id ds)" "distinct (map sd_name ds)"
    and fields: "\<forall>d\<in>set ds. sig_id (mk_signal d) = sd_id d \<and> sig_name (mk_signal d) = sd_name d"
    using wf by (auto simp: valid_spec_def ds_def list_all_iff sig_id_def sig_name_def sig_def_mk_signal)
  show "by_id c i = Some s \<longleftrightarrow> s \<in> set (cat_signals c) \<and> sig_id s = i"
    unfolding by_id_def ids sigs position_lookup [OF dist(1)] using fields by auto
  show "by_name c n = Some s \<longleftrightarrow> s \<in> set (cat_signals c) \<and> sig_name s = n"
    unfolding by_name_def names sigs position_lookup [OF dist(2)] using fields by auto
qed

interpretation cat: signal_directory cat_signals by_id by_name catalog_wf
  by unfold_locales (simp_all add: catalog_lookup_iff)

lemma catalog_wf_signals:
  assumes "catalog_wf c" and "s \<in> set (cat_signals c)"
  shows "valid_def (sig_def s)" and "signal_new (sig_def s) = Ok s"
proof -
  from assms(1) have v: "valid_spec (to_spec c)"
    and sigs: "cat_signals c = map mk_signal (cs_signals (to_spec c))"
    unfolding catalog_wf_def catalog_new_Ok_iff by (metis catalog.select_convs)+
  with assms(2) obtain d where d: "d \<in> set (cs_signals (to_spec c))" "s = mk_signal d" by auto
  with v have vd: "valid_def d" by (auto simp: valid_spec_def list_all_iff)
  with d show "valid_def (sig_def s)" and "signal_new (sig_def s) = Ok s"
    by (simp_all add: sig_def_mk_signal mk_signal)
qed

end
