(* ===== verification/Byte_Codec.thy ===== *)
theory Byte_Codec
  imports Prelude
begin

text \<open>
  Fixed-width byte encodings of machine integers: \<open>to_be_bytes\<close>, \<open>to_le_bytes\<close>, \<open>from_be_bytes\<close> and
  \<open>from_le_bytes\<close> of the integer types, with the conversion of a slice to an array (\<open>try_into\<close>) that
  fails on a wrong length. The locale \<open>byte_codec\<close> states the contract the wire format relies on; it
  is interpreted for both byte orders at every width the program uses.
\<close>

section \<open>The contract of a fixed-width encoding\<close>

locale byte_codec =
  fixes enc :: "'a \<Rightarrow> u8 list"
    and dec :: "u8 list \<Rightarrow> 'a option"
    and width :: nat
  assumes dec_enc: "dec (enc x) = Some x"
    and enc_dec: "dec bs = Some x \<Longrightarrow> enc x = bs"
    and length_enc: "length (enc x) = width"
    and dec_total: "length bs = width \<Longrightarrow> dec bs \<noteq> None"
begin

lemma length_dec: "dec bs = Some x \<Longrightarrow> length bs = width"
  using enc_dec length_enc by metis

lemma dec_None_iff: "dec bs = None \<longleftrightarrow> length bs \<noteq> width"
  by (metis dec_total length_dec option.exhaust)

lemma dec_iff: "dec bs = Some x \<longleftrightarrow> bs = enc x"
  using dec_enc enc_dec by auto

lemma enc_inject: "enc x = enc y \<longleftrightarrow> x = y"
  by (metis dec_enc option.inject)

text \<open>Reading the field off the front of a longer buffer.\<close>

lemma dec_take_append: "dec (take width (enc x @ rest)) = Some x"
  by (simp add: length_enc [symmetric, of x] dec_enc)

lemma drop_append: "drop width (enc x @ rest) = rest"
  by (simp add: length_enc [symmetric, of x])

end

text \<open>Reversing the bytes of a codec gives a codec: the two byte orders mirror each other.\<close>

lemma byte_codec_rev:
  assumes "byte_codec enc dec w"
  shows "byte_codec (\<lambda>x. rev (enc x)) (\<lambda>bs. dec (rev bs)) w"
proof -
  note c = assms
  show ?thesis
  proof
    show "dec (rev (rev (enc x))) = Some x" for x
      by (simp add: byte_codec.dec_enc [OF c])
    show "rev (enc x) = bs" if "dec (rev bs) = Some x" for bs x
      using byte_codec.enc_dec [OF c that] by simp
    show "length (rev (enc x)) = w" for x
      by (simp add: byte_codec.length_enc [OF c])
    show "dec (rev bs) \<noteq> None" if "length bs = w" for bs
      using byte_codec.dec_total [OF c, of "rev bs"] that by simp
  qed
qed

section \<open>Integers as bytes\<close>

text \<open>The value of little-endian bytes, least significant first.\<close>

definition le_value :: "u8 list \<Rightarrow> nat" where
  "le_value bs = horner_sum unat 256 bs"

fun le_digits :: "nat \<Rightarrow> nat \<Rightarrow> u8 list" where
  "le_digits 0 v = []"
| "le_digits (Suc n) v = word_of_nat v # le_digits n (v div 256)"

lemma length_le_digits [simp]: "length (le_digits n v) = n"
  by (induction n arbitrary: v) simp_all

lemma le_value_simps [simp]:
  "le_value [] = 0"
  "le_value (b # bs) = unat b + 256 * le_value bs"
  by (simp_all add: le_value_def)

lemma unat_word_of_nat_u8: "unat (word_of_nat v :: u8) = v mod 256"
  by (simp add: unsigned_of_nat take_bit_eq_mod)

lemma unat_u8_less: "unat (b :: u8) < 256"
  using unsigned_less [of b] by simp

lemma le_value_bound: "le_value bs < 256 ^ length bs"
proof (induction bs)
  case Nil
  then show ?case by simp
next
  case (Cons b bs)
  from Cons have "Suc (le_value bs) \<le> 256 ^ length bs" by simp
  then have "256 * Suc (le_value bs) \<le> 256 * 256 ^ length bs" by (rule mult_le_mono2)
  with unat_u8_less [of b] show ?case by simp
qed

lemma le_value_digits: "le_value (le_digits n v) = v mod 256 ^ n"
proof (induction n arbitrary: v)
  case 0
  then show ?case by simp
next
  case (Suc n)
  then show ?case
    by (simp add: unat_word_of_nat_u8 mod_mult2_eq)
qed

lemma le_digits_value: "le_digits (length bs) (le_value bs) = bs"
proof (induction bs)
  case Nil
  then show ?case by simp
next
  case (Cons b bs)
  have "(unat b + 256 * le_value bs) div 256 = le_value bs"
    using unat_u8_less [of b] by simp
  moreover have "word_of_nat (unat b + 256 * le_value bs) = b"
  proof (rule word_unat_eq_iff [THEN iffD2])
    show "unat (word_of_nat (unat b + 256 * le_value bs) :: u8) = unat b"
      unfolding unat_word_of_nat_u8 using unat_u8_less [of b] by simp
  qed
  ultimately show ?case using Cons by simp
qed

definition to_le_bytes :: "'a::len word \<Rightarrow> u8 list" where
  "to_le_bytes w = le_digits (LENGTH('a) div 8) (unat w)"

definition to_be_bytes :: "'a::len word \<Rightarrow> u8 list" where
  "to_be_bytes w = rev (to_le_bytes w)"

definition from_le_bytes :: "u8 list \<Rightarrow> 'a::len word option" where
  "from_le_bytes bs =
     (if length bs = LENGTH('a) div 8 then Some (word_of_nat (le_value bs)) else None)"

definition from_be_bytes :: "u8 list \<Rightarrow> 'a::len word option" where
  "from_be_bytes bs = from_le_bytes (rev bs)"

lemma byte_codec_le:
  assumes "LENGTH('a::len) = 8 * n"
  shows "byte_codec (to_le_bytes :: 'a word \<Rightarrow> u8 list) from_le_bytes n"
proof
  have n: "LENGTH('a) div 8 = n" using assms by simp
  have pow: "(256::nat) ^ n = 2 ^ LENGTH('a)" by (simp add: assms power_mult)
  show "from_le_bytes (to_le_bytes x) = Some x" for x :: "'a word"
    by (simp add: to_le_bytes_def from_le_bytes_def n le_value_digits pow
        unsigned_less word_unat_eq_iff unsigned_of_nat take_bit_eq_mod)
  show "to_le_bytes x = bs" if "from_le_bytes bs = Some x" for bs and x :: "'a word"
  proof -
    from that have len: "length bs = n" and x: "x = word_of_nat (le_value bs)"
      by (auto simp: from_le_bytes_def n split: if_splits)
    have "unat x = le_value bs"
      using le_value_bound [of bs] by (simp add: x len pow unsigned_of_nat take_bit_eq_mod)
    then show ?thesis
      using le_digits_value [of bs] by (simp add: to_le_bytes_def n len)
  qed
  show "length (to_le_bytes x) = n" for x :: "'a word"
    by (simp add: to_le_bytes_def n)
  show "(from_le_bytes bs :: 'a word option) \<noteq> None" if "length bs = n" for bs
    using that by (simp add: from_le_bytes_def n)
qed

lemma byte_codec_be:
  assumes "LENGTH('a::len) = 8 * n"
  shows "byte_codec (to_be_bytes :: 'a word \<Rightarrow> u8 list) from_be_bytes n"
  using byte_codec_rev [OF byte_codec_le [OF assms]]
  by (simp add: to_be_bytes_def [abs_def] from_be_bytes_def [abs_def])

section \<open>The widths the program uses\<close>

interpretation be8: byte_codec "to_be_bytes :: u8 \<Rightarrow> u8 list" from_be_bytes 1
  by (rule byte_codec_be) simp

interpretation be16: byte_codec "to_be_bytes :: u16 \<Rightarrow> u8 list" from_be_bytes 2
  by (rule byte_codec_be) simp

interpretation be32: byte_codec "to_be_bytes :: u32 \<Rightarrow> u8 list" from_be_bytes 4
  by (rule byte_codec_be) simp

interpretation be64: byte_codec "to_be_bytes :: u64 \<Rightarrow> u8 list" from_be_bytes 8
  by (rule byte_codec_be) simp

interpretation le8: byte_codec "to_le_bytes :: u8 \<Rightarrow> u8 list" from_le_bytes 1
  by (rule byte_codec_le) simp

interpretation le16: byte_codec "to_le_bytes :: u16 \<Rightarrow> u8 list" from_le_bytes 2
  by (rule byte_codec_le) simp

interpretation le32: byte_codec "to_le_bytes :: u32 \<Rightarrow> u8 list" from_le_bytes 4
  by (rule byte_codec_le) simp

interpretation le64: byte_codec "to_le_bytes :: u64 \<Rightarrow> u8 list" from_le_bytes 8
  by (rule byte_codec_le) simp

lemma to_be_bytes_u8 [simp]: "to_be_bytes (b :: u8) = [b]"
  by (simp add: to_be_bytes_def to_le_bytes_def)

lemmas bytes_eval = to_be_bytes_def to_le_bytes_def from_be_bytes_def from_le_bytes_def
  le_digits.simps le_value_simps

end
