(* ===== verification/Wire.thy ===== *)
theory Wire
  imports Catalog Byte_Codec
begin

text \<open>
  The UDP wire format (\<open>crates/protocol/src/wire.rs\<close>): the bounds-checked \<open>Reader\<close>, the raw payload
  codec (\<open>read_raw\<close>, \<open>write_raw\<close>), the conversion between payloads and physical values
  (\<open>decode_value\<close>, \<open>encode_value\<close>) and the packet decoder and encoder. The definitions follow the
  code; the lemmas about them are in \<open>Wire_Frames\<close>, \<open>Wire_Packet\<close> and \<open>Wire_Values\<close>.
\<close>

section \<open>Constants and error types\<close>

definition MAGIC :: u16 where
  "MAGIC = 0x5445"

definition VERSION :: u8 where
  "VERSION = 1"

definition PACKET_HEADER_LEN :: nat where
  "PACKET_HEADER_LEN = 4"

definition FRAME_HEADER_LEN :: nat where
  "FRAME_HEADER_LEN = 11"

definition MAX_FRAMES :: nat where
  "MAX_FRAMES = 64"

definition MAX_DATAGRAM_LEN :: nat where
  "MAX_DATAGRAM_LEN = 1500"

record sample =
  smp_signal_id :: u16
  smp_name :: string
  smp_timestamp_us :: u64
  smp_value :: signal_value

datatype packet_error =
    Oversize nat
  | HeaderTruncated nat
  | BadMagic u16
  | BadVersion u8
  | ZeroFrames
  | TooManyFrames u8

fun packet_reason :: "packet_error \<Rightarrow> string" where
  "packet_reason (Oversize _) = ''oversize''"
| "packet_reason (HeaderTruncated _) = ''truncated''"
| "packet_reason (BadMagic _) = ''bad_magic''"
| "packet_reason (BadVersion _) = ''bad_version''"
| "packet_reason ZeroFrames = ''zero_frames''"
| "packet_reason (TooManyFrames _) = ''too_many_frames''"

datatype frame_error_kind =
    Truncated
  | LengthMismatch nat nat
  | InvalidValue
  | TrailingBytes nat

fun frame_reason :: "frame_error_kind \<Rightarrow> string" where
  "frame_reason Truncated = ''truncated''"
| "frame_reason (LengthMismatch _ _) = ''length_mismatch''"
| "frame_reason InvalidValue = ''invalid_value''"
| "frame_reason (TrailingBytes _) = ''trailing_bytes''"

record frame_error =
  fe_index :: nat
  fe_signal_id :: "u16 option"
  fe_kind :: frame_error_kind

record decoded_packet =
  dp_samples :: "sample list"
  dp_errors :: "frame_error list"
  dp_unknown :: nat

definition decoded_default :: decoded_packet where
  "decoded_default = \<lparr>dp_samples = [], dp_errors = [], dp_unknown = 0\<rparr>"

section \<open>The reader\<close>

record reader =
  rd_buf :: "u8 list"
  rd_pos :: nat

definition reader_new :: "u8 list \<Rightarrow> reader" where
  "reader_new buf = \<lparr>rd_buf = buf, rd_pos = 0\<rparr>"

definition reader_take :: "reader \<Rightarrow> nat \<Rightarrow> u8 list option \<times> reader" where
  "reader_take r n =
     (case checked_add_usize (rd_pos r) n of
        None \<Rightarrow> (None, r)
      | Some end_pos \<Rightarrow>
          (case slice_get (rd_buf r) (rd_pos r) end_pos of
             None \<Rightarrow> (None, r)
           | Some bytes \<Rightarrow> (Some bytes, r\<lparr>rd_pos := end_pos\<rparr>)))"

definition reader_array :: "nat \<Rightarrow> reader \<Rightarrow> u8 list option \<times> reader" where
  "reader_array n r =
     (case reader_take r n of
        (None, r') \<Rightarrow> (None, r')
      | (Some bytes, r') \<Rightarrow> (if length bytes = n then Some bytes else None, r'))"

definition read_u8 :: "reader \<Rightarrow> u8 option \<times> reader" where
  "read_u8 r = (case reader_array 1 r of (bs, r') \<Rightarrow> (Option.bind bs from_be_bytes, r'))"

definition read_u16_be :: "reader \<Rightarrow> u16 option \<times> reader" where
  "read_u16_be r = (case reader_array 2 r of (bs, r') \<Rightarrow> (Option.bind bs from_be_bytes, r'))"

definition read_u64_be :: "reader \<Rightarrow> u64 option \<times> reader" where
  "read_u64_be r = (case reader_array 8 r of (bs, r') \<Rightarrow> (Option.bind bs from_be_bytes, r'))"

definition reader_remaining :: "reader \<Rightarrow> nat" where
  "reader_remaining r = length (rd_buf r) - rd_pos r"

section \<open>Raw payloads\<close>

datatype raw = RInt int | RFloat f64

definition word_from_bytes :: "endian \<Rightarrow> u8 list \<Rightarrow> 'a::len word option" where
  "word_from_bytes en p = (case en of Big \<Rightarrow> from_be_bytes p | Little \<Rightarrow> from_le_bytes p)"

definition word_to_bytes :: "endian \<Rightarrow> 'a::len word \<Rightarrow> u8 list" where
  "word_to_bytes en w = (case en of Big \<Rightarrow> to_be_bytes w | Little \<Rightarrow> to_le_bytes w)"

fun read_raw :: "signal_type \<Rightarrow> endian \<Rightarrow> u8 list \<Rightarrow> raw option" where
  "read_raw TBool en p = map_option (\<lambda>v. RInt (uint v)) (word_from_bytes en p :: u8 option)"
| "read_raw TU8 en p = map_option (\<lambda>v. RInt (uint v)) (word_from_bytes en p :: u8 option)"
| "read_raw TI8 en p = map_option (\<lambda>v. RInt (sint v)) (word_from_bytes en p :: u8 option)"
| "read_raw TU16 en p = map_option (\<lambda>v. RInt (uint v)) (word_from_bytes en p :: u16 option)"
| "read_raw TI16 en p = map_option (\<lambda>v. RInt (sint v)) (word_from_bytes en p :: u16 option)"
| "read_raw TU32 en p = map_option (\<lambda>v. RInt (uint v)) (word_from_bytes en p :: u32 option)"
| "read_raw TI32 en p = map_option (\<lambda>v. RInt (sint v)) (word_from_bytes en p :: u32 option)"
| "read_raw TU64 en p = map_option (\<lambda>v. RInt (uint v)) (word_from_bytes en p :: u64 option)"
| "read_raw TI64 en p = map_option (\<lambda>v. RInt (sint v)) (word_from_bytes en p :: u64 option)"
| "read_raw TF32 en p = map_option (\<lambda>v. RFloat (f64_of_f32 (F32 v))) (word_from_bytes en p :: u32 option)"
| "read_raw TF64 en p = map_option (\<lambda>v. RFloat (F64 v)) (word_from_bytes en p :: u64 option)"

text \<open>\<open><$t>::try_from(i)\<close> for an unsigned or signed type, then its bytes.\<close>

definition unsigned_bytes :: "'a::len itself \<Rightarrow> endian \<Rightarrow> raw \<Rightarrow> u8 list option" where
  "unsigned_bytes _ en r =
     (case r of
        RFloat _ \<Rightarrow> None
      | RInt i \<Rightarrow> if 0 \<le> i \<and> i < 2 ^ LENGTH('a)
                 then Some (word_to_bytes en (word_of_int i :: 'a word)) else None)"

definition signed_bytes :: "'a::len itself \<Rightarrow> endian \<Rightarrow> raw \<Rightarrow> u8 list option" where
  "signed_bytes _ en r =
     (case r of
        RFloat _ \<Rightarrow> None
      | RInt i \<Rightarrow> if - (2 ^ (LENGTH('a) - 1)) \<le> i \<and> i < 2 ^ (LENGTH('a) - 1)
                 then Some (word_to_bytes en (word_of_int i :: 'a word)) else None)"

fun write_raw :: "signal_type \<Rightarrow> endian \<Rightarrow> raw \<Rightarrow> u8 list option" where
  "write_raw TBool en r = unsigned_bytes TYPE(8) en r"
| "write_raw TU8 en r = unsigned_bytes TYPE(8) en r"
| "write_raw TI8 en r = signed_bytes TYPE(8) en r"
| "write_raw TU16 en r = unsigned_bytes TYPE(16) en r"
| "write_raw TI16 en r = signed_bytes TYPE(16) en r"
| "write_raw TU32 en r = unsigned_bytes TYPE(32) en r"
| "write_raw TI32 en r = signed_bytes TYPE(32) en r"
| "write_raw TU64 en r = unsigned_bytes TYPE(64) en r"
| "write_raw TI64 en r = signed_bytes TYPE(64) en r"
| "write_raw TF32 en r =
     (case r of
        RInt _ \<Rightarrow> None
      | RFloat f \<Rightarrow> (let v = f32_of_f64 f
                    in if \<not> is_finite32 v then None else Some (word_to_bytes en (f32_to_bits v))))"
| "write_raw TF64 en r =
     (case r of
        RInt _ \<Rightarrow> None
      | RFloat f \<Rightarrow> Some (word_to_bytes en (f64_to_bits f)))"

section \<open>Values\<close>

definition raw_to_f64 :: "raw \<Rightarrow> f64" where
  "raw_to_f64 r = (case r of RInt i \<Rightarrow> f64_of_int i | RFloat f \<Rightarrow> f)"

definition decode_value :: "signal \<Rightarrow> u8 list \<Rightarrow> (frame_error_kind, signal_value) result" where
  "decode_value s payload =
     (let ty = sig_ty s;
          length_mismatch = LengthMismatch (type_size ty) (length payload)
      in if length payload \<noteq> type_size ty then Err length_mismatch
         else and_then (ok_or length_mismatch (read_raw ty (sig_endian s) payload))
           (\<lambda>r. case (sig_kind s, r) of
                  (KBool, RInt i) \<Rightarrow>
                    if i = 0 then Ok (VBool False) else if i = 1 then Ok (VBool True) else Err InvalidValue
                | (KEnum, RInt i) \<Rightarrow> ok_or InvalidValue (map_option VEnum (enum_label s i))
                | (KNum, r) \<Rightarrow>
                    (let phys = f64_add (f64_mul (raw_to_f64 r) (sd_scale (sig_def s))) (sd_offset (sig_def s))
                     in if is_finite phys then Ok (VNum phys) else Err InvalidValue)
                | _ \<Rightarrow> Err InvalidValue))"

record raw_frame =
  rf_signal_id :: u16
  rf_timestamp_us :: u64
  rf_payload :: "u8 list"

datatype encode_error =
    NoFrames
  | EncTooManyFrames nat
  | PayloadTooLong u16 nat
  | EncOversize nat
  | KindMismatch string signal_value
  | OutOfRange string f64
  | UnknownEnumLabel string string

text \<open>The raw value \<open>encode_value\<close> computes before \<open>write_raw\<close>.\<close>

definition encode_raw :: "signal \<Rightarrow> signal_value \<Rightarrow> (encode_error, raw) result" where
  "encode_raw s v =
     (case (sig_kind s, v) of
        (KBool, VBool b) \<Rightarrow> Ok (RInt (of_bool b))
      | (KEnum, VEnum label) \<Rightarrow>
          ok_or (UnknownEnumLabel (sig_name s) label) (map_option RInt (enum_raw s label))
      | (KNum, VNum x) \<Rightarrow>
          (let scaled = f64_div (f64_sub x (sd_offset (sig_def s))) (sd_scale (sig_def s))
           in if \<not> is_finite scaled then Err (OutOfRange (sig_name s) x)
              else if is_float (sig_ty s) then Ok (RFloat scaled)
              else Ok (RInt (f64_to_i128 (f64_round scaled))))
      | _ \<Rightarrow> Err (KindMismatch (sig_name s) v))"

definition encode_value :: "signal \<Rightarrow> signal_value \<Rightarrow> (encode_error, u8 list) result" where
  "encode_value s v =
     and_then (encode_raw s v)
       (\<lambda>r. ok_or (OutOfRange (sig_name s) (case as_num v of None \<Rightarrow> f64_nan | Some x \<Rightarrow> x))
              (write_raw (sig_ty s) (sig_endian s) r))"

definition encode_frame :: "signal \<Rightarrow> u64 \<Rightarrow> signal_value \<Rightarrow> (encode_error, raw_frame) result" where
  "encode_frame s ts v =
     and_then (encode_value s v)
       (\<lambda>p. Ok \<lparr>rf_signal_id = sig_id s, rf_timestamp_us = ts, rf_payload = p\<rparr>)"

section \<open>Decoding packets\<close>

definition push_error :: "frame_error \<Rightarrow> decoded_packet \<Rightarrow> decoded_packet" where
  "push_error e d = d\<lparr>dp_errors := dp_errors d @ [e]\<rparr>"

definition push_sample :: "sample \<Rightarrow> decoded_packet \<Rightarrow> decoded_packet" where
  "push_sample s d = d\<lparr>dp_samples := dp_samples d @ [s]\<rparr>"

text \<open>
  The first half of the loop body: the frame header and the payload. The error is the signal id of
  the truncated frame, when its bytes were there. All three header reads happen before any is
  inspected.
\<close>

definition read_frame :: "reader \<Rightarrow> (u16 option, raw_frame \<times> reader) result" where
  "read_frame r =
     (let (sid, r1) = read_u16_be r;
          (ts, r2) = read_u64_be r1;
          (len, r3) = read_u8 r2
      in case (sid, ts, len) of
           (Some i, Some t, Some n) \<Rightarrow>
             (case reader_take r3 (unat n) of
                (None, _) \<Rightarrow> Err (Some i)
              | (Some payload, r4) \<Rightarrow>
                  Ok (\<lparr>rf_signal_id = i, rf_timestamp_us = t, rf_payload = payload\<rparr>, r4))
         | _ \<Rightarrow> Err sid)"

text \<open>The second half: the catalog lookup and the value.\<close>

definition apply_frame :: "catalog \<Rightarrow> nat \<Rightarrow> raw_frame \<Rightarrow> decoded_packet \<Rightarrow> decoded_packet" where
  "apply_frame c index f out =
     (case by_id c (rf_signal_id f) of
        None \<Rightarrow> out\<lparr>dp_unknown := dp_unknown out + 1\<rparr>
      | Some s \<Rightarrow>
          (case decode_value s (rf_payload f) of
             Ok v \<Rightarrow> push_sample \<lparr>smp_signal_id = rf_signal_id f, smp_name = sig_name s,
                        smp_timestamp_us = rf_timestamp_us f, smp_value = v\<rparr> out
           | Err kind \<Rightarrow> push_error \<lparr>fe_index = index, fe_signal_id = Some (rf_signal_id f),
                           fe_kind = kind\<rparr> out))"

text \<open>The loop over \<open>index..count\<close>; \<open>Err\<close> is the early return of a truncated frame.\<close>

fun decode_frames ::
  "catalog \<Rightarrow> nat \<Rightarrow> nat \<Rightarrow> reader \<Rightarrow> decoded_packet \<Rightarrow> (decoded_packet, decoded_packet \<times> reader) result" where
  "decode_frames c index 0 r out = Ok (out, r)"
| "decode_frames c index (Suc n) r out =
     (case read_frame r of
        Err sid \<Rightarrow> Err (push_error \<lparr>fe_index = index, fe_signal_id = sid, fe_kind = Truncated\<rparr> out)
      | Ok (f, r') \<Rightarrow> decode_frames c (Suc index) n r' (apply_frame c index f out))"

definition decode_packet :: "u8 list \<Rightarrow> catalog \<Rightarrow> (packet_error, decoded_packet) result" where
  "decode_packet buf c =
     (if length buf > MAX_DATAGRAM_LEN then Err (Oversize (length buf))
      else let (magic, r1) = read_u16_be (reader_new buf);
               (version, r2) = read_u8 r1;
               (frame_count, r3) = read_u8 r2
           in case (magic, version, frame_count) of
                (Some m, Some v, Some n) \<Rightarrow>
                  if m \<noteq> MAGIC then Err (BadMagic m)
                  else if v \<noteq> VERSION then Err (BadVersion v)
                  else if n = 0 then Err ZeroFrames
                  else if unat n > MAX_FRAMES then Err (TooManyFrames n)
                  else (case decode_frames c 0 (unat n) r3 decoded_default of
                          Err out \<Rightarrow> Ok out
                        | Ok (out, r) \<Rightarrow>
                            Ok (if reader_remaining r > 0
                                then push_error \<lparr>fe_index = unat n, fe_signal_id = None,
                                       fe_kind = TrailingBytes (reader_remaining r)\<rparr> out
                                else out))
              | _ \<Rightarrow> Err (HeaderTruncated (length buf)))"

section \<open>Encoding packets\<close>

fun encode_frames :: "raw_frame list \<Rightarrow> u8 list \<Rightarrow> (encode_error, u8 list) result" where
  "encode_frames [] out = Ok out"
| "encode_frames (f # fs) out =
     (if length (rf_payload f) > 255
      then Err (PayloadTooLong (rf_signal_id f) (length (rf_payload f)))
      else encode_frames fs
        (out @ to_be_bytes (rf_signal_id f) @ to_be_bytes (rf_timestamp_us f)
             @ [word_of_nat (length (rf_payload f))] @ rf_payload f))"

definition packet_size :: "raw_frame list \<Rightarrow> nat" where
  "packet_size fs = PACKET_HEADER_LEN + sum_list (map (\<lambda>f. FRAME_HEADER_LEN + length (rf_payload f)) fs)"

definition encode_packet :: "raw_frame list \<Rightarrow> (encode_error, u8 list) result" where
  "encode_packet fs =
     (if fs = [] then Err NoFrames
      else if length fs > 255 \<or> length fs > MAX_FRAMES then Err (EncTooManyFrames (length fs))
      else if packet_size fs > MAX_DATAGRAM_LEN then Err (EncOversize (packet_size fs))
      else encode_frames fs
        (to_be_bytes MAGIC @ [VERSION] @ [word_of_nat (length fs)]))"

end
