(* ===== verification/Wire_Frames.thy ===== *)
theory Wire_Frames
  imports Wire
begin

text \<open>
  The framing layer of the wire format: what the reader and the loop over frames do on the bytes
  still unread. The reader is an instance of the interface \<open>byte_source\<close>, and reading a fixed-width
  field from any byte source inverts the field's codec (\<open>field_reader\<close>). From these, a buffer parses
  as a frame exactly when it starts with the encoding of that frame, and the loop over frames is the
  fold of \<open>apply_frame\<close> over the frames the buffer encodes.
\<close>

section \<open>A source of bytes and the fields read from it\<close>

locale byte_source =
  fixes rest :: "'r \<Rightarrow> u8 list"
    and take_n :: "'r \<Rightarrow> nat \<Rightarrow> u8 list option \<times> 'r"
    and invar :: "'r \<Rightarrow> bool"
  assumes take_enough: "invar r \<Longrightarrow> n \<le> length (rest r) \<Longrightarrow>
      \<exists>r'. take_n r n = (Some (take n (rest r)), r') \<and> rest r' = drop n (rest r) \<and> invar r'"
    and take_short: "invar r \<Longrightarrow> length (rest r) < n \<Longrightarrow> take_n r n = (None, r)"
begin

lemma take_append:
  assumes "invar r" and "rest r = xs @ ys"
  shows "\<exists>r'. take_n r (length xs) = (Some xs, r') \<and> rest r' = ys \<and> invar r'"
  using take_enough [OF assms(1), of "length xs"] assms(2) by simp

lemma take_cases:
  assumes "invar r"
  obtains (short) "length (rest r) < n" and "take_n r n = (None, r)"
    | (enough) bs r' where "take_n r n = (Some bs, r')" and "length bs = n" and "rest r = bs @ rest r'"
        and "invar r'"
proof (cases "n \<le> length (rest r)")
  case True
  from take_enough [OF assms True] obtain r' where r': "take_n r n = (Some (take n (rest r)), r')"
      "rest r' = drop n (rest r)" "invar r'" by blast
  show ?thesis
    by (rule enough [OF r'(1)]) (use True r' in simp_all)
next
  case False
  with take_short [OF assms] show ?thesis by (auto intro: short)
qed

end

locale field_reader = byte_source rest take_n invar + byte_codec enc dec width
  for rest :: "'r \<Rightarrow> u8 list" and take_n and invar and enc :: "'a \<Rightarrow> u8 list" and dec and width +
  fixes read :: "'r \<Rightarrow> 'a option \<times> 'r"
  assumes read_eq: "read r =
      (case take_n r width of (None, r') \<Rightarrow> (None, r') | (Some bs, r') \<Rightarrow> (dec bs, r'))"
begin

lemma read_encoded:
  assumes "invar r" and "rest r = enc x @ ys"
  shows "\<exists>r'. read r = (Some x, r') \<and> rest r' = ys \<and> invar r'"
  using take_append [OF assms] by (auto simp: read_eq length_enc dec_enc)

lemma read_short: "invar r \<Longrightarrow> length (rest r) < width \<Longrightarrow> read r = (None, r)"
  by (simp add: read_eq take_short)

lemma read_cases:
  assumes "invar r"
  obtains (short) "length (rest r) < width" and "read r = (None, r)"
    | (enough) x r' where "read r = (Some x, r')" and "rest r = enc x @ rest r'" and "invar r'"
proof (cases rule: take_cases [OF assms, of width])
  case 1
  then show ?thesis by (auto intro: short simp: read_eq)
next
  case (2 bs r')
  then obtain x where "dec bs = Some x" using dec_total by blast
  with 2 show ?thesis by (auto intro: enough simp: read_eq dec_iff)
qed

end

section \<open>The reader is a byte source\<close>

definition rd_rest :: "reader \<Rightarrow> u8 list" where
  "rd_rest r = drop (rd_pos r) (rd_buf r)"

definition rd_inv :: "reader \<Rightarrow> bool" where
  "rd_inv r \<longleftrightarrow> rd_pos r \<le> length (rd_buf r) \<and> length (rd_buf r) \<le> usize_max"

interpretation rd: byte_source rd_rest reader_take rd_inv
proof
  show "\<exists>r'. reader_take r n = (Some (take n (rd_rest r)), r') \<and> rd_rest r' = drop n (rd_rest r) \<and> rd_inv r'"
    if "rd_inv r" "n \<le> length (rd_rest r)" for r n
    using that by (auto simp: reader_take_def checked_add_usize_def slice_get_def rd_rest_def rd_inv_def
        add.commute)
  show "reader_take r n = (None, r)" if "rd_inv r" "length (rd_rest r) < n" for r n
    using that by (auto simp: reader_take_def checked_add_usize_def slice_get_def rd_rest_def rd_inv_def)
qed

lemma reader_array_eq: "rd_inv r \<Longrightarrow> reader_array n r = reader_take r n"
  by (cases rule: rd.take_cases [of r n]) (auto simp: reader_array_def)

lemma reader_array_bind:
  "(case reader_array n r of (bs, r') \<Rightarrow> (Option.bind bs f, r')) =
    (case reader_take r n of (None, r') \<Rightarrow> (None, r')
     | (Some bs, r') \<Rightarrow> (if length bs = n then f bs else None, r'))"
  by (auto simp: reader_array_def split: prod.splits option.splits)

lemma from_be_bytes_wrong_length:
  "length bs \<noteq> LENGTH('a::len) div 8 \<Longrightarrow> (from_be_bytes bs :: 'a word option) = None"
  by (simp add: from_be_bytes_def from_le_bytes_def)

interpretation rd8: field_reader rd_rest reader_take rd_inv "to_be_bytes :: u8 \<Rightarrow> u8 list" from_be_bytes 1 read_u8
  by unfold_locales
    (auto simp: read_u8_def reader_array_bind from_be_bytes_wrong_length split: prod.splits option.splits)

interpretation rd16: field_reader rd_rest reader_take rd_inv "to_be_bytes :: u16 \<Rightarrow> u8 list" from_be_bytes 2 read_u16_be
  by unfold_locales
    (auto simp: read_u16_be_def reader_array_bind from_be_bytes_wrong_length split: prod.splits option.splits)

interpretation rd64: field_reader rd_rest reader_take rd_inv "to_be_bytes :: u64 \<Rightarrow> u8 list" from_be_bytes 8 read_u64_be
  by unfold_locales
    (auto simp: read_u64_be_def reader_array_bind from_be_bytes_wrong_length split: prod.splits option.splits)

lemma reader_remaining_rest: "reader_remaining r = length (rd_rest r)"
  by (simp add: reader_remaining_def rd_rest_def)

section \<open>One frame\<close>

definition frame_bytes :: "raw_frame \<Rightarrow> u8 list" where
  "frame_bytes f = to_be_bytes (rf_signal_id f) @ to_be_bytes (rf_timestamp_us f)
     @ [word_of_nat (length (rf_payload f))] @ rf_payload f"

definition frame_fits :: "raw_frame \<Rightarrow> bool" where
  "frame_fits f \<longleftrightarrow> length (rf_payload f) \<le> 255"

lemma length_frame_bytes: "length (frame_bytes f) = FRAME_HEADER_LEN + length (rf_payload f)"
  by (simp add: frame_bytes_def FRAME_HEADER_LEN_def be16.length_enc be64.length_enc)

lemma unat_len_byte: "n \<le> 255 \<Longrightarrow> unat (word_of_nat n :: u8) = n"
  by (simp add: unat_word_of_nat_u8)

lemma read_frame_encoded:
  assumes "rd_inv r" and "frame_fits f" and "rd_rest r = frame_bytes f @ ys"
  shows "\<exists>r'. read_frame r = Ok (f, r') \<and> rd_rest r' = ys \<and> rd_inv r'"
proof -
  obtain r1 where r1: "read_u16_be r = (Some (rf_signal_id f), r1)" "rd_inv r1"
      "rd_rest r1 = to_be_bytes (rf_timestamp_us f) @ [word_of_nat (length (rf_payload f))] @ rf_payload f @ ys"
    using rd16.read_encoded [OF assms(1), of "rf_signal_id f"] assms(3) by (auto simp: frame_bytes_def)
  obtain r2 where r2: "read_u64_be r1 = (Some (rf_timestamp_us f), r2)" "rd_inv r2"
      "rd_rest r2 = [word_of_nat (length (rf_payload f))] @ rf_payload f @ ys"
    using rd64.read_encoded [OF r1(2,3)] by auto
  obtain r3 where r3: "read_u8 r2 = (Some (word_of_nat (length (rf_payload f))), r3)" "rd_inv r3"
      "rd_rest r3 = rf_payload f @ ys"
    using rd8.read_encoded [OF r2(2), of "word_of_nat (length (rf_payload f))"] r2(3) by auto
  obtain r4 where r4: "reader_take r3 (length (rf_payload f)) = (Some (rf_payload f), r4)" "rd_inv r4"
      "rd_rest r4 = ys"
    using rd.take_append [OF r3(2,3)] by auto
  from assms(2) have "unat (word_of_nat (length (rf_payload f)) :: u8) = length (rf_payload f)"
    by (simp add: frame_fits_def unat_len_byte)
  with r1 r2 r3 r4 show ?thesis by (simp add: read_frame_def)
qed

lemma read_frame_Ok:
  assumes "rd_inv r" and "read_frame r = Ok (f, r')"
  shows "rd_rest r = frame_bytes f @ rd_rest r' \<and> frame_fits f \<and> rd_inv r'"
proof -
  obtain i r1 where r1: "read_u16_be r = (Some i, r1)" "rd_rest r = to_be_bytes i @ rd_rest r1" "rd_inv r1"
    using assms by (cases rule: rd16.read_cases [OF assms(1)])
      (auto simp: read_frame_def split: prod.splits)
  obtain t r2 where r2: "read_u64_be r1 = (Some t, r2)" "rd_rest r1 = to_be_bytes t @ rd_rest r2" "rd_inv r2"
    using assms r1 by (cases rule: rd64.read_cases [OF r1(3)])
      (auto simp: read_frame_def split: prod.splits)
  obtain n r3 where r3: "read_u8 r2 = (Some n, r3)" "rd_rest r2 = n # rd_rest r3" "rd_inv r3"
    using assms r1 r2 by (cases rule: rd8.read_cases [OF r2(3)])
      (auto simp: read_frame_def split: prod.splits)
  obtain p r4 where r4: "reader_take r3 (unat n) = (Some p, r4)" "length p = unat n"
      "rd_rest r3 = p @ rd_rest r4" "rd_inv r4"
    using assms r1 r2 r3 by (cases rule: rd.take_cases [OF r3(3), of "unat n"])
      (auto simp: read_frame_def)
  have "unat n \<le> 255" using unat_u8_less [of n] by simp
  then show ?thesis
    using assms(2) r1 r2 r3 r4
    by (auto simp: read_frame_def frame_bytes_def frame_fits_def)
qed

lemma read_frame_Err_iff:
  assumes "rd_inv r"
  shows "(\<exists>sid. read_frame r = Err sid) \<longleftrightarrow> (\<nexists>f ys. frame_fits f \<and> rd_rest r = frame_bytes f @ ys)"
proof
  assume "\<exists>sid. read_frame r = Err sid"
  with read_frame_encoded [OF assms] show "\<nexists>f ys. frame_fits f \<and> rd_rest r = frame_bytes f @ ys"
    by (metis result.distinct(1))
next
  assume none: "\<nexists>f ys. frame_fits f \<and> rd_rest r = frame_bytes f @ ys"
  show "\<exists>sid. read_frame r = Err sid"
  proof (cases "read_frame r")
    case (Ok fr)
    with read_frame_Ok [OF assms, of "fst fr" "snd fr"] none show ?thesis by auto
  qed auto
qed

text \<open>The signal id a truncated frame is reported under.\<close>

lemma read_frame_Err_sid:
  assumes "rd_inv r" and "read_frame r = Err sid"
  shows "sid = (if length (rd_rest r) < 2 then None else from_be_bytes (take 2 (rd_rest r)))"
proof (cases rule: rd16.read_cases [OF assms(1)])
  case 1
  then show ?thesis
    using assms(2) by (auto simp: read_frame_def split: prod.splits option.splits)
next
  case (2 i r1)
  then have "sid = Some i"
    using assms(2) by (auto simp: read_frame_def split: prod.splits option.splits)
  moreover have "from_be_bytes (take 2 (rd_rest r)) = Some i"
    using be16.dec_take_append [of i "rd_rest r1"] 2(2) by simp
  moreover have "length (rd_rest r) \<ge> 2"
    using 2(2) be16.length_enc [of i] by simp
  ultimately show ?thesis by simp
qed

section \<open>The loop over frames\<close>

fun apply_frames :: "catalog \<Rightarrow> nat \<Rightarrow> raw_frame list \<Rightarrow> decoded_packet \<Rightarrow> decoded_packet" where
  "apply_frames c i [] out = out"
| "apply_frames c i (f # fs) out = apply_frames c (Suc i) fs (apply_frame c i f out)"

definition frames_bytes :: "raw_frame list \<Rightarrow> u8 list" where
  "frames_bytes fs = concat (map frame_bytes fs)"

lemma frames_bytes_simps [simp]:
  "frames_bytes [] = []"
  "frames_bytes (f # fs) = frame_bytes f @ frames_bytes fs"
  "frames_bytes (fs @ gs) = frames_bytes fs @ frames_bytes gs"
  by (simp_all add: frames_bytes_def)

lemma decode_frames_encoded:
  assumes "rd_inv r" and "list_all frame_fits fs" and "rd_rest r = frames_bytes fs @ ys"
  shows "\<exists>r'. decode_frames c i (length fs) r out = Ok (apply_frames c i fs out, r')
    \<and> rd_rest r' = ys \<and> rd_inv r'"
  using assms
proof (induction fs arbitrary: i r out)
  case Nil
  then show ?case by simp
next
  case (Cons f fs)
  then have rest: "rd_rest r = frame_bytes f @ frames_bytes fs @ ys" by simp
  from Cons.prems have fits: "frame_fits f" by simp
  obtain r1 where r1: "read_frame r = Ok (f, r1)" "rd_rest r1 = frames_bytes fs @ ys" "rd_inv r1"
    using read_frame_encoded [OF Cons.prems(1) fits rest] by blast
  from Cons.IH [OF r1(3) _ r1(2), of "Suc i" "apply_frame c i f out"] Cons.prems(2) r1(1)
  show ?case by simp
qed

lemma decode_frames_truncated:
  assumes "rd_inv r" and "list_all frame_fits fs" and "rd_rest r = frames_bytes fs @ ys"
    and "length fs < n" and "\<nexists>f zs. frame_fits f \<and> ys = frame_bytes f @ zs"
  shows "decode_frames c i n r out =
    Err (push_error \<lparr>fe_index = i + length fs,
           fe_signal_id = (if length ys < 2 then None else from_be_bytes (take 2 ys)),
           fe_kind = Truncated\<rparr> (apply_frames c i fs out))"
  using assms
proof (induction fs arbitrary: i n r out)
  case Nil
  then obtain m where m: "n = Suc m" by (cases n) auto
  from Nil obtain sid where sid: "read_frame r = Err sid"
    using read_frame_Err_iff [OF Nil.prems(1)] by auto
  with read_frame_Err_sid [OF Nil.prems(1) sid] Nil.prems(3) show ?case
    by (simp add: m)
next
  case (Cons f fs)
  then have rest: "rd_rest r = frame_bytes f @ frames_bytes fs @ ys" by simp
  from Cons.prems have fits: "frame_fits f" by simp
  obtain r1 where r1: "read_frame r = Ok (f, r1)" "rd_rest r1 = frames_bytes fs @ ys" "rd_inv r1"
    using read_frame_encoded [OF Cons.prems(1) fits rest] by blast
  from Cons.prems obtain m where m: "n = Suc m" "length fs < m" by (cases n) auto
  from Cons.IH [OF r1(3) _ r1(2) m(2)] Cons.prems(2,5) r1(1)
  show ?case by (simp add: m(1))
qed

text \<open>Every buffer splits into whole frames and a rest that either is left over or does not parse.\<close>

lemma split_frames:
  obtains (all_read) fs zs where "length fs = n" and "list_all frame_fits fs" and "ys = frames_bytes fs @ zs"
    | (short) fs zs where "length fs < n" and "list_all frame_fits fs" and "ys = frames_bytes fs @ zs"
        and "\<nexists>f us. frame_fits f \<and> zs = frame_bytes f @ us"
proof -
  have "(\<exists>fs zs. length fs = n \<and> list_all frame_fits fs \<and> ys = frames_bytes fs @ zs)
      \<or> (\<exists>fs zs. length fs < n \<and> list_all frame_fits fs \<and> ys = frames_bytes fs @ zs
           \<and> (\<nexists>f us. frame_fits f \<and> zs = frame_bytes f @ us))"
  proof (induction n)
    case 0
    show ?case by (rule disjI1) (auto intro!: exI [of _ "[]"])
  next
    case (Suc n)
    then show ?case
    proof
      assume "\<exists>fs zs. length fs = n \<and> list_all frame_fits fs \<and> ys = frames_bytes fs @ zs"
      then obtain fs zs where fs: "length fs = n" "list_all frame_fits fs" "ys = frames_bytes fs @ zs"
        by blast
      show ?thesis
      proof (cases "\<exists>f us. frame_fits f \<and> zs = frame_bytes f @ us")
        case True
        then obtain f us where "frame_fits f" "zs = frame_bytes f @ us" by blast
        with fs have "length (fs @ [f]) = Suc n \<and> list_all frame_fits (fs @ [f])
            \<and> ys = frames_bytes (fs @ [f]) @ us" by simp
        then show ?thesis by blast
      next
        case False
        with fs show ?thesis by (metis lessI)
      qed
    next
      assume "\<exists>fs zs. length fs < n \<and> list_all frame_fits fs \<and> ys = frames_bytes fs @ zs
           \<and> (\<nexists>f us. frame_fits f \<and> zs = frame_bytes f @ us)"
      then show ?thesis by (metis less_SucI)
    qed
  qed
  then show ?thesis using all_read short by blast
qed

end
