(* ===== verification/Wire_Packet.thy ===== *)
theory Wire_Packet
  imports Wire_Frames
begin

text \<open>
  The packet layer: an explicit description of what \<open>decode_packet\<close> returns on any buffer, in terms
  of the frames the buffer encodes and of the outcome of each frame on its own, and the inverse
  relation between \<open>encode_packet\<close> and \<open>decode_packet\<close>.
\<close>

section \<open>The outcome of each frame\<close>

definition frame_sample :: "catalog \<Rightarrow> raw_frame \<Rightarrow> sample option" where
  "frame_sample c f =
     (case by_id c (rf_signal_id f) of
        None \<Rightarrow> None
      | Some s \<Rightarrow>
          (case decode_value s (rf_payload f) of
             Err _ \<Rightarrow> None
           | Ok v \<Rightarrow> Some \<lparr>smp_signal_id = rf_signal_id f, smp_name = sig_name s,
                        smp_timestamp_us = rf_timestamp_us f, smp_value = v\<rparr>))"

definition frame_failure :: "catalog \<Rightarrow> nat \<times> raw_frame \<Rightarrow> frame_error option" where
  "frame_failure c e =
     (case by_id c (rf_signal_id (snd e)) of
        None \<Rightarrow> None
      | Some s \<Rightarrow>
          (case decode_value s (rf_payload (snd e)) of
             Err kind \<Rightarrow> Some \<lparr>fe_index = fst e, fe_signal_id = Some (rf_signal_id (snd e)), fe_kind = kind\<rparr>
           | Ok v \<Rightarrow> None))"

definition frame_unknown :: "catalog \<Rightarrow> raw_frame \<Rightarrow> bool" where
  "frame_unknown c f \<longleftrightarrow> by_id c (rf_signal_id f) = None"

definition frames_outcome :: "catalog \<Rightarrow> raw_frame list \<Rightarrow> decoded_packet" where
  "frames_outcome c fs =
     \<lparr>dp_samples = List.map_filter (frame_sample c) fs,
      dp_errors = List.map_filter (frame_failure c) (enumerate 0 fs),
      dp_unknown = length (filter (frame_unknown c) fs)\<rparr>"

lemma apply_frames_eq:
  "apply_frames c i fs out =
     \<lparr>dp_samples = dp_samples out @ List.map_filter (frame_sample c) fs,
      dp_errors = dp_errors out @ List.map_filter (frame_failure c) (enumerate i fs),
      dp_unknown = dp_unknown out + length (filter (frame_unknown c) fs)\<rparr>"
proof (induction fs arbitrary: i out)
  case Nil
  then show ?case by simp
next
  case (Cons f fs)
  show ?case
    by (simp add: Cons.IH apply_frame_def push_sample_def push_error_def frame_sample_def
        frame_failure_def frame_unknown_def split: option.split result.split)
qed

lemma apply_frames_default: "apply_frames c 0 fs decoded_default = frames_outcome c fs"
  by (simp add: apply_frames_eq frames_outcome_def decoded_default_def)

text \<open>Every frame counts exactly once.\<close>

lemma frames_outcome_total:
  "length (List.map_filter (frame_sample c) fs) + length (List.map_filter (frame_failure c) (enumerate i fs))
    + length (filter (frame_unknown c) fs) = length fs"
proof (induction fs arbitrary: i)
  case Nil
  then show ?case by simp
next
  case (Cons f fs)
  from Cons.IH [of "Suc i"] show ?case
    by (auto simp: frame_sample_def frame_failure_def frame_unknown_def split: option.split result.split)
qed

section \<open>The header\<close>

definition header_bytes :: "u8 \<Rightarrow> u8 list" where
  "header_bytes n = to_be_bytes MAGIC @ [VERSION, n]"

lemma length_header_bytes: "length (header_bytes n) = PACKET_HEADER_LEN"
  by (simp add: header_bytes_def be16.length_enc PACKET_HEADER_LEN_def)

lemma decode_packet_short:
  assumes "length buf < PACKET_HEADER_LEN"
  shows "decode_packet buf c = Err (HeaderTruncated (length buf))"
proof -
  have inv: "rd_inv (reader_new buf)" and rest: "rd_rest (reader_new buf) = buf"
    using assms by (simp_all add: rd_inv_def rd_rest_def reader_new_def PACKET_HEADER_LEN_def usize_max_def)
  have le: "\<not> MAX_DATAGRAM_LEN < length buf"
    using assms by (simp add: MAX_DATAGRAM_LEN_def PACKET_HEADER_LEN_def)
  show ?thesis
  proof (cases rule: rd16.read_cases [OF inv])
    case 1
    then show ?thesis using le by (simp add: decode_packet_def split: prod.splits)
  next
    case (2 m r1)
    have len1: "length (rd_rest r1) + 2 = length buf"
      using 2(2) be16.length_enc [of m] by (simp add: rest)
    show ?thesis
    proof (cases rule: rd8.read_cases [OF 2(3)])
      case 1
      then show ?thesis using le 2(1) by (simp add: decode_packet_def split: prod.splits)
    next
      case (2 v r2)
      have "length (rd_rest r1) = Suc (length (rd_rest r2))"
        using 2(2) by simp
      then have "length (rd_rest r2) < 1"
        using len1 assms unfolding PACKET_HEADER_LEN_def by arith
      from rd8.read_short [OF 2(3) this] show ?thesis
        using le \<open>read_u16_be (reader_new buf) = _\<close> 2(1) by (simp add: decode_packet_def)
    qed
  qed
qed

definition after_header :: "u8 \<Rightarrow> catalog \<Rightarrow> reader \<Rightarrow> decoded_packet" where
  "after_header n c r3 =
     (case decode_frames c 0 (unat n) r3 decoded_default of
        Err out \<Rightarrow> out
      | Ok (out, r) \<Rightarrow>
          (if reader_remaining r > 0
           then push_error \<lparr>fe_index = unat n, fe_signal_id = None,
                  fe_kind = TrailingBytes (reader_remaining r)\<rparr> out
           else out))"

lemma decode_packet_header:
  assumes "length ys + PACKET_HEADER_LEN \<le> MAX_DATAGRAM_LEN"
  obtains r where "rd_inv r" and "rd_rest r = ys"
    and "decode_packet (to_be_bytes m @ [v, n] @ ys) c =
      (if m \<noteq> MAGIC then Err (BadMagic m)
       else if v \<noteq> VERSION then Err (BadVersion v)
       else if n = 0 then Err ZeroFrames
       else if unat n > MAX_FRAMES then Err (TooManyFrames n)
       else Ok (after_header n c r))"
proof -
  define buf where "buf = to_be_bytes m @ [v, n] @ ys"
  have len: "length buf \<le> MAX_DATAGRAM_LEN"
    using assms by (simp add: buf_def be16.length_enc PACKET_HEADER_LEN_def)
  then have inv: "rd_inv (reader_new buf)"
    by (simp add: rd_inv_def reader_new_def MAX_DATAGRAM_LEN_def usize_max_def)
  have rest: "rd_rest (reader_new buf) = to_be_bytes m @ v # n # ys"
    by (simp add: rd_rest_def reader_new_def buf_def)
  obtain r1 where r1: "read_u16_be (reader_new buf) = (Some m, r1)" "rd_rest r1 = v # n # ys" "rd_inv r1"
    using rd16.read_encoded [OF inv rest] by blast
  obtain r2 where r2: "read_u8 r1 = (Some v, r2)" "rd_rest r2 = n # ys" "rd_inv r2"
    using rd8.read_encoded [OF r1(3), of v] r1(2) by auto
  obtain r3 where r3: "read_u8 r2 = (Some n, r3)" "rd_rest r3 = ys" "rd_inv r3"
    using rd8.read_encoded [OF r2(3), of n] r2(2) by auto
  have "decode_packet buf c =
      (if m \<noteq> MAGIC then Err (BadMagic m)
       else if v \<noteq> VERSION then Err (BadVersion v)
       else if n = 0 then Err ZeroFrames
       else if unat n > MAX_FRAMES then Err (TooManyFrames n)
       else Ok (after_header n c r3))"
    using len r1(1) r2(1) r3(1)
    by (simp add: decode_packet_def after_header_def split: result.split)
  with r3(2,3) show ?thesis using that unfolding buf_def by blast
qed

section \<open>The frames of a packet\<close>

definition with_trailing :: "u8 \<Rightarrow> u8 list \<Rightarrow> decoded_packet \<Rightarrow> decoded_packet" where
  "with_trailing n zs d =
     (if zs = [] then d
      else push_error \<lparr>fe_index = unat n, fe_signal_id = None, fe_kind = TrailingBytes (length zs)\<rparr> d)"

definition with_truncated :: "nat \<Rightarrow> u8 list \<Rightarrow> decoded_packet \<Rightarrow> decoded_packet" where
  "with_truncated i zs d =
     push_error \<lparr>fe_index = i,
       fe_signal_id = (if length zs < 2 then None else from_be_bytes (take 2 zs)),
       fe_kind = Truncated\<rparr> d"

lemma after_header_whole:
  assumes "rd_inv r" and "rd_rest r = frames_bytes fs @ zs" and "list_all frame_fits fs" and "length fs = unat n"
  shows "after_header n c r = with_trailing n zs (frames_outcome c fs)"
  using decode_frames_encoded [OF assms(1,3,2), of c 0 decoded_default] assms(4)
  by (auto simp: after_header_def with_trailing_def reader_remaining_rest apply_frames_default)

lemma after_header_cut:
  assumes "rd_inv r" and "rd_rest r = frames_bytes fs @ zs" and "list_all frame_fits fs" and "length fs < unat n"
    and "\<nexists>f us. frame_fits f \<and> zs = frame_bytes f @ us"
  shows "after_header n c r = with_truncated (length fs) zs (frames_outcome c fs)"
  using decode_frames_truncated [OF assms(1,3,2,4,5), of c 0 decoded_default]
  by (simp add: after_header_def with_truncated_def apply_frames_default)

text \<open>The number of frames the header may announce.\<close>

definition count_ok :: "u8 \<Rightarrow> bool" where
  "count_ok n \<longleftrightarrow> 0 < unat n \<and> unat n \<le> MAX_FRAMES"

lemma count_ok_iff: "count_ok n \<longleftrightarrow> n \<noteq> 0 \<and> unat n \<le> MAX_FRAMES"
  by (auto simp: count_ok_def unat_gt_0)

lemma decode_packet_whole:
  assumes "count_ok n" and "length fs = unat n" and "list_all frame_fits fs"
    and "length (header_bytes n @ frames_bytes fs @ zs) \<le> MAX_DATAGRAM_LEN"
  shows "decode_packet (header_bytes n @ frames_bytes fs @ zs) c = Ok (with_trailing n zs (frames_outcome c fs))"
proof -
  have "length (frames_bytes fs @ zs) + PACKET_HEADER_LEN \<le> MAX_DATAGRAM_LEN"
    using assms(4) by (simp add: length_header_bytes)
  then obtain r where r: "rd_inv r" "rd_rest r = frames_bytes fs @ zs"
    and d: "decode_packet (to_be_bytes MAGIC @ [VERSION, n] @ frames_bytes fs @ zs) c = Ok (after_header n c r)"
    using decode_packet_header [of "frames_bytes fs @ zs" MAGIC VERSION n c] assms(1)
    by (auto simp: count_ok_iff)
  from d show ?thesis
    by (simp add: header_bytes_def after_header_whole [OF r assms(3,2)])
qed

lemma decode_packet_cut:
  assumes "count_ok n" and "length fs < unat n" and "list_all frame_fits fs"
    and "length (header_bytes n @ frames_bytes fs @ zs) \<le> MAX_DATAGRAM_LEN"
    and "\<nexists>f us. frame_fits f \<and> zs = frame_bytes f @ us"
  shows "decode_packet (header_bytes n @ frames_bytes fs @ zs) c
    = Ok (with_truncated (length fs) zs (frames_outcome c fs))"
proof -
  have "length (frames_bytes fs @ zs) + PACKET_HEADER_LEN \<le> MAX_DATAGRAM_LEN"
    using assms(4) by (simp add: length_header_bytes)
  then obtain r where r: "rd_inv r" "rd_rest r = frames_bytes fs @ zs"
    and d: "decode_packet (to_be_bytes MAGIC @ [VERSION, n] @ frames_bytes fs @ zs) c = Ok (after_header n c r)"
    using decode_packet_header [of "frames_bytes fs @ zs" MAGIC VERSION n c] assms(1)
    by (auto simp: count_ok_iff)
  from d show ?thesis
    by (simp add: header_bytes_def after_header_cut [OF r assms(3,2,5)])
qed

text \<open>Any buffer of at least four bytes is a magic, a version, a count and the rest.\<close>

lemma header_split:
  assumes "PACKET_HEADER_LEN \<le> length buf"
  obtains m v n ys where "buf = to_be_bytes (m :: u16) @ [v, n] @ ys"
proof -
  have "length (take 2 buf) = 2"
    using assms by (simp add: PACKET_HEADER_LEN_def)
  then obtain m :: u16 where m: "take 2 buf = to_be_bytes m"
    by (metis be16.dec_iff be16.dec_total option.exhaust)
  have "Suc (Suc 0) \<le> length (drop 2 buf)"
    using assms by (simp add: PACKET_HEADER_LEN_def)
  then obtain v n ys where "drop 2 buf = v # n # ys"
    by (auto simp only: Suc_le_length_iff)
  then have "buf = to_be_bytes m @ [v, n] @ ys"
    using append_take_drop_id [of 2 buf] m by simp
  with that show ?thesis by blast
qed

text \<open>The exact set of accepted buffers, and the result on each.\<close>

lemma decode_packet_Ok_cases:
  assumes "decode_packet buf c = Ok d"
  obtains (whole) n fs zs where "buf = header_bytes n @ frames_bytes fs @ zs" and "count_ok n"
        and "length fs = unat n" and "list_all frame_fits fs" and "d = with_trailing n zs (frames_outcome c fs)"
    | (cut) n fs zs where "buf = header_bytes n @ frames_bytes fs @ zs" and "count_ok n"
        and "length fs < unat n" and "list_all frame_fits fs"
        and "\<nexists>f us. frame_fits f \<and> zs = frame_bytes f @ us"
        and "d = with_truncated (length fs) zs (frames_outcome c fs)"
proof -
  have len: "length buf \<le> MAX_DATAGRAM_LEN"
    using assms by (auto simp: decode_packet_def split: if_splits)
  have "PACKET_HEADER_LEN \<le> length buf"
    using assms decode_packet_short [of buf c] by (cases "length buf < PACKET_HEADER_LEN") auto
  from header_split [OF this] obtain m v n ys where buf: "buf = to_be_bytes (m :: u16) @ [v, n] @ ys" .
  have ylen: "length ys + PACKET_HEADER_LEN \<le> MAX_DATAGRAM_LEN"
    using len by (simp add: buf be16.length_enc PACKET_HEADER_LEN_def)
  obtain r where "decode_packet buf c =
      (if m \<noteq> MAGIC then Err (BadMagic m)
       else if v \<noteq> VERSION then Err (BadVersion v)
       else if n = 0 then Err ZeroFrames
       else if unat n > MAX_FRAMES then Err (TooManyFrames n)
       else Ok (after_header n c r))"
    unfolding buf by (rule decode_packet_header [OF ylen, of m v n c])
  with assms have "m = MAGIC \<and> v = VERSION \<and> count_ok n"
    by (simp add: count_ok_iff split: if_splits)
  then have h: "buf = header_bytes n @ ys" and n: "count_ok n"
    by (simp_all add: buf header_bytes_def)
  show ?thesis
  proof (cases rule: split_frames [of "unat n" ys])
    case (all_read fs zs)
    with assms len show ?thesis
      by (intro whole [OF _ n all_read(1,2)]) (auto simp: h decode_packet_whole n)
  next
    case (short fs zs)
    with assms len show ?thesis
      by (intro cut [OF _ n short(1,2,4)]) (auto simp: h decode_packet_cut n)
  qed
qed

section \<open>The encoder\<close>

lemma encode_frames_Ok_iff:
  "encode_frames fs out = Ok bytes \<longleftrightarrow> list_all frame_fits fs \<and> bytes = out @ frames_bytes fs"
  by (induction fs arbitrary: out) (auto simp: frame_fits_def frame_bytes_def)

lemma length_frames_bytes:
  "length (frames_bytes fs) = sum_list (map (\<lambda>f. FRAME_HEADER_LEN + length (rf_payload f)) fs)"
  by (induction fs) (simp_all add: length_frame_bytes)

lemma encode_packet_Ok_iff:
  "encode_packet fs = Ok bytes \<longleftrightarrow>
     fs \<noteq> [] \<and> length fs \<le> MAX_FRAMES \<and> packet_size fs \<le> MAX_DATAGRAM_LEN \<and> list_all frame_fits fs
     \<and> bytes = header_bytes (word_of_nat (length fs)) @ frames_bytes fs"
  by (auto simp: encode_packet_def encode_frames_Ok_iff header_bytes_def MAX_FRAMES_def)

lemma length_encoded: "encode_packet fs = Ok bytes \<Longrightarrow> length bytes = packet_size fs"
  by (simp add: encode_packet_Ok_iff length_header_bytes length_frames_bytes packet_size_def)

lemma count_of_length:
  assumes "fs \<noteq> []" and "length fs \<le> MAX_FRAMES"
  shows "unat (word_of_nat (length fs) :: u8) = length fs" and "count_ok (word_of_nat (length fs))"
  using assms by (simp_all add: unat_word_of_nat_u8 MAX_FRAMES_def count_ok_def)

lemma decode_encoded_whole:
  assumes "encode_packet fs = Ok bytes"
    and "length (bytes @ zs) \<le> MAX_DATAGRAM_LEN"
  shows "decode_packet (bytes @ zs) c
    = Ok (with_trailing (word_of_nat (length fs)) zs (frames_outcome c fs))"
proof -
  from assms(1) have fs: "fs \<noteq> []" "length fs \<le> MAX_FRAMES" "list_all frame_fits fs"
    and bytes: "bytes = header_bytes (word_of_nat (length fs)) @ frames_bytes fs"
    by (auto simp: encode_packet_Ok_iff)
  show ?thesis
    using decode_packet_whole [OF count_of_length(2) [OF fs(1,2)] _ fs(3), of zs c]
      count_of_length(1) [OF fs(1,2)] assms(2)
    by (simp add: bytes)
qed

section \<open>Packets cut short\<close>

lemma frame_bytes_inj:
  assumes "frame_bytes f @ ys = frame_bytes g @ zs" and "frame_fits f" and "frame_fits g"
  shows "f = g \<and> ys = zs"
proof -
  from assms(1) have "rf_signal_id f = rf_signal_id g" "rf_timestamp_us f = rf_timestamp_us g"
    and len: "(word_of_nat (length (rf_payload f)) :: u8) = word_of_nat (length (rf_payload g))"
    and rest: "rf_payload f @ ys = rf_payload g @ zs"
    by (auto simp: frame_bytes_def be16.length_enc be64.length_enc append_eq_append_conv
        be16.enc_inject be64.enc_inject)
  have "length (rf_payload f) = length (rf_payload g)"
    using arg_cong [OF len, of unat] assms(2,3) by (simp add: frame_fits_def unat_len_byte)
  with rest have "rf_payload f = rf_payload g" "ys = zs" by simp_all
  with \<open>rf_signal_id f = _\<close> \<open>rf_timestamp_us f = _\<close> show ?thesis by (cases f; cases g) simp
qed

text \<open>A proper prefix of a frame is not a frame with a rest.\<close>

lemma prefix_of_frame:
  assumes "j < length (frame_bytes f)" and "frame_fits f"
  shows "\<nexists>g us. frame_fits g \<and> take j (frame_bytes f) = frame_bytes g @ us"
proof
  assume "\<exists>g us. frame_fits g \<and> take j (frame_bytes f) = frame_bytes g @ us"
  then obtain g us where g: "frame_fits g" "take j (frame_bytes f) = frame_bytes g @ us" by blast
  have "frame_bytes f @ [] = frame_bytes g @ us @ drop j (frame_bytes f)"
    using g(2) append_take_drop_id [of j "frame_bytes f"] by simp
  from frame_bytes_inj [OF this assms(2) g(1)] assms(1) show False by simp
qed

lemma decode_inside_frame:
  assumes "encode_packet (gs @ f # hs) = Ok bytes"
    and "PACKET_HEADER_LEN + length (frames_bytes gs) \<le> k"
    and "k < PACKET_HEADER_LEN + length (frames_bytes gs) + length (frame_bytes f)"
  shows "\<exists>sid. decode_packet (take k bytes) c =
    Ok (push_error \<lparr>fe_index = length gs, fe_signal_id = sid, fe_kind = Truncated\<rparr> (frames_outcome c gs))"
proof -
  let ?n = "word_of_nat (length (gs @ f # hs)) :: u8"
  from assms(1) have fs: "gs @ f # hs \<noteq> []" "length (gs @ f # hs) \<le> MAX_FRAMES"
      "list_all frame_fits (gs @ f # hs)" "packet_size (gs @ f # hs) \<le> MAX_DATAGRAM_LEN"
    and bytes: "bytes = header_bytes ?n @ frames_bytes (gs @ f # hs)"
    by (auto simp: encode_packet_Ok_iff)
  define j where "j = k - (PACKET_HEADER_LEN + length (frames_bytes gs))"
  have j: "j < length (frame_bytes f)" using assms(2,3) by (simp add: j_def)
  have cut: "take k bytes = header_bytes ?n @ frames_bytes gs @ take j (frame_bytes f)"
    using assms(2) j by (simp add: bytes length_header_bytes j_def)
  have none: "\<nexists>g us. frame_fits g \<and> take j (frame_bytes f) = frame_bytes g @ us"
    by (rule prefix_of_frame [OF j]) (use fs(3) in simp)
  have "length (take k bytes) \<le> MAX_DATAGRAM_LEN"
    using length_encoded [OF assms(1)] fs(4) by simp
  then have "decode_packet (take k bytes) c =
      Ok (with_truncated (length gs) (take j (frame_bytes f)) (frames_outcome c gs))"
    unfolding cut using fs none count_of_length [OF fs(1,2)]
    by (intro decode_packet_cut) auto
  then show ?thesis by (auto simp: with_truncated_def)
qed

end
