(* ===== verification/Wire_Values.thy ===== *)
theory Wire_Values
  imports Wire
begin

text \<open>
  Payloads and values: \<open>read_raw\<close> and \<open>write_raw\<close> invert each other at every integer type and byte
  order, the two byte orders mirror each other, decoded values have the kind of their signal, and
  bool and enum signals round-trip in both directions.
\<close>

section \<open>Byte orders\<close>

lemma word_codec:
  assumes "LENGTH('a::len) = 8 * n"
  shows "byte_codec (word_to_bytes en :: 'a word \<Rightarrow> u8 list) (word_from_bytes en) n"
  using byte_codec_be [OF assms] byte_codec_le [OF assms]
  by (cases en) (simp_all add: word_to_bytes_def [abs_def] word_from_bytes_def [abs_def])

interpretation w8: byte_codec "word_to_bytes en :: u8 \<Rightarrow> u8 list" "word_from_bytes en" 1 for en
  by (rule word_codec) simp

interpretation w16: byte_codec "word_to_bytes en :: u16 \<Rightarrow> u8 list" "word_from_bytes en" 2 for en
  by (rule word_codec) simp

interpretation w32: byte_codec "word_to_bytes en :: u32 \<Rightarrow> u8 list" "word_from_bytes en" 4 for en
  by (rule word_codec) simp

interpretation w64: byte_codec "word_to_bytes en :: u64 \<Rightarrow> u8 list" "word_from_bytes en" 8 for en
  by (rule word_codec) simp

lemma word_to_bytes_mirror: "word_to_bytes Little w = rev (word_to_bytes Big w)"
  by (simp add: word_to_bytes_def to_be_bytes_def)

lemma word_from_bytes_mirror: "word_from_bytes Little p = word_from_bytes Big (rev p)"
  by (simp add: word_from_bytes_def from_be_bytes_def)

lemma write_raw_mirror: "write_raw ty Little r = map_option rev (write_raw ty Big r)"
  by (cases ty; cases r)
    (simp_all add: unsigned_bytes_def signed_bytes_def word_to_bytes_mirror Let_def)

lemma read_raw_mirror: "read_raw ty Little p = read_raw ty Big (rev p)"
  by (cases ty) (simp_all add: word_from_bytes_mirror)

section \<open>Integers in payloads\<close>

lemma uint_of_range: "0 \<le> i \<Longrightarrow> i < 2 ^ LENGTH('a::len) \<Longrightarrow> uint (word_of_int i :: 'a word) = i"
  by (simp add: uint_word_of_int_eq take_bit_int_eq_self)

lemma sint_of_range:
  "- (2 ^ (LENGTH('a::len) - 1)) \<le> i \<Longrightarrow> i < 2 ^ (LENGTH('a) - 1) \<Longrightarrow> sint (word_of_int i :: 'a word) = i"
  using signed_take_bit_int_eq_self [of "LENGTH('a) - 1" i] by (simp add: sint_sbintrunc')

lemma uint_range: "0 \<le> uint (w :: 'a::len word) \<and> uint w < 2 ^ LENGTH('a)"
  by simp

lemma sint_range: "- (2 ^ (LENGTH('a::len) - 1)) \<le> sint (w :: 'a word) \<and> sint w < 2 ^ (LENGTH('a) - 1)"
  using sint_greater_eq [of w] sint_less [of w] by simp

lemma word_bounds:
  "uint (a :: u8) < 2 ^ 8" "- (2 ^ 7) \<le> sint a" "sint a < 2 ^ 7"
  "uint (b :: u16) < 2 ^ 16" "- (2 ^ 15) \<le> sint b" "sint b < 2 ^ 15"
  "uint (c :: u32) < 2 ^ 32" "- (2 ^ 31) \<le> sint c" "sint c < 2 ^ 31"
  "uint (d :: u64) < 2 ^ 64" "- (2 ^ 63) \<le> sint d" "sint d < 2 ^ 63"
  using uint_range [of a] uint_range [of b] uint_range [of c] uint_range [of d]
    sint_range [of a] sint_range [of b] sint_range [of c] sint_range [of d]
  by simp_all

lemmas word_bounds_num = word_bounds [simplified]

lemma read_raw_None_iff: "read_raw ty en p = None \<longleftrightarrow> length p \<noteq> type_size ty"
  by (cases ty) (simp_all add: w8.dec_None_iff w16.dec_None_iff w32.dec_None_iff w64.dec_None_iff)

lemma write_raw_length: "write_raw ty en r = Some p \<Longrightarrow> length p = type_size ty"
  by (cases ty; cases r)
    (auto simp: unsigned_bytes_def signed_bytes_def Let_def w8.length_enc w16.length_enc w32.length_enc
      w64.length_enc split: if_splits)

lemma read_write_int: "write_raw ty en (RInt i) = Some p \<Longrightarrow> read_raw ty en p = Some (RInt i)"
  by (cases ty)
    (auto simp: unsigned_bytes_def signed_bytes_def w8.dec_enc w16.dec_enc w32.dec_enc w64.dec_enc
      uint_of_range sint_of_range split: if_splits)

lemma write_read_int: "read_raw ty en p = Some (RInt i) \<Longrightarrow> write_raw ty en (RInt i) = Some p"
  by (cases ty)
    (auto simp: unsigned_bytes_def signed_bytes_def w8.dec_iff w16.dec_iff w32.dec_iff w64.dec_iff
      word_bounds_num)

lemma write_int_iff:
  "int_range ty = Some (lo, hi) \<Longrightarrow> (\<exists>p. write_raw ty en (RInt i) = Some p) \<longleftrightarrow> lo \<le> i \<and> i \<le> hi"
  by (cases ty) (auto simp: unsigned_bytes_def signed_bytes_def)

lemma read_raw_int_type: "read_raw ty en p = Some r \<Longrightarrow> (\<exists>i. r = RInt i) \<longleftrightarrow> \<not> is_float ty"
  by (cases ty) (auto simp: is_float_def)

lemma read_raw_int_range:
  "int_range ty = Some (lo, hi) \<Longrightarrow> read_raw ty en p = Some (RInt i) \<Longrightarrow> lo \<le> i \<and> i \<le> hi"
  using write_read_int [of ty en p i] write_int_iff [of ty lo hi en i] by auto

section \<open>Decoded values\<close>

definition kind_matches :: "value_kind \<Rightarrow> signal_value \<Rightarrow> bool" where
  "kind_matches k v =
     (case (k, v) of
        (KBool, VBool _) \<Rightarrow> True
      | (KNum, VNum x) \<Rightarrow> is_finite x
      | (KEnum, VEnum _) \<Rightarrow> True
      | _ \<Rightarrow> False)"

lemma decode_value_kind: "decode_value s p = Ok v \<Longrightarrow> kind_matches (sig_kind s) v"
  by (auto simp: decode_value_def kind_matches_def Let_def and_then_Ok_iff split: if_splits
      value_kind.splits raw.splits option.splits)

lemma decode_value_length: "decode_value s p = Ok v \<Longrightarrow> length p = type_size (sig_ty s)"
  by (auto simp: decode_value_def Let_def split: if_splits)

lemma decode_value_error_length:
  "decode_value s p = Err (LengthMismatch e a) \<longleftrightarrow>
     length p \<noteq> type_size (sig_ty s) \<and> e = type_size (sig_ty s) \<and> a = length p"
proof (cases "length p = type_size (sig_ty s)")
  case True
  then obtain r where "read_raw (sig_ty s) (sig_endian s) p = Some r"
    using read_raw_None_iff by blast
  then show ?thesis
    using True by (auto simp: decode_value_def Let_def ok_or_def split: value_kind.splits raw.splits option.splits)
next
  case False
  then show ?thesis by (auto simp: decode_value_def Let_def)
qed

lemma decode_value_errors:
  "decode_value s p = Err k \<Longrightarrow>
     k = InvalidValue \<or> k = LengthMismatch (type_size (sig_ty s)) (length p)"
  by (auto simp: decode_value_def Let_def ok_or_def and_then_def
      split: if_splits value_kind.splits raw.splits option.splits)

lemma encode_value_length: "encode_value s v = Ok p \<Longrightarrow> length p = type_size (sig_ty s)"
  by (auto simp: encode_value_def and_then_Ok_iff dest: write_raw_length)

section \<open>Bool and enum signals\<close>

lemma bool_roundtrip:
  assumes "sig_kind s = KBool"
  shows "encode_value s (VBool b) = Ok p \<Longrightarrow> decode_value s p = Ok (VBool b)"
    and "decode_value s p = Ok v \<Longrightarrow> encode_value s v = Ok p"
proof -
  assume e: "encode_value s (VBool b) = Ok p"
  then have w: "write_raw (sig_ty s) (sig_endian s) (RInt (of_bool b)) = Some p"
    using assms by (simp add: encode_value_def encode_raw_def)
  from read_write_int [OF w] write_raw_length [OF w] show "decode_value s p = Ok (VBool b)"
    using assms by (cases b) (simp_all add: decode_value_def)
next
  assume d: "decode_value s p = Ok v"
  then obtain b where "v = VBool b" "read_raw (sig_ty s) (sig_endian s) p = Some (RInt (of_bool b))"
    using assms
    by (auto simp: decode_value_def Let_def ok_or_def and_then_def
        split: if_splits raw.splits option.splits)
  with write_read_int show "encode_value s v = Ok p"
    using assms by (fastforce simp: encode_value_def encode_raw_def)
qed

text \<open>The raw codes of an enum map are pairwise different as numbers, not only as JSON keys.\<close>

definition codes_distinct :: "signal_def \<Rightarrow> bool" where
  "codes_distinct d = distinct (map key_raw (enum_entries d))"

lemma enum_label_eq:
  assumes "signal_new d = Ok s"
  shows "enum_label s r = map_of (rev (map (\<lambda>e. (key_raw e, snd e)) (enum_entries d))) r"
  using assms by (simp add: signal_new_Ok_iff enum_label_def enum_entries_def hm.look_collect split: option.splits)

lemma enum_label_Some:
  assumes "signal_new d = Ok s" and "enum_label s r = Some l"
  shows "\<exists>e\<in>set (enum_entries d). key_raw e = r \<and> snd e = l"
proof -
  from map_of_SomeD [OF assms(2) [unfolded enum_label_eq [OF assms(1)]]]
  show ?thesis by auto
qed

lemma enum_label_iff:
  assumes "signal_new d = Ok s" and "codes_distinct d"
  shows "enum_label s r = Some l \<longleftrightarrow> (\<exists>e\<in>set (enum_entries d). key_raw e = r \<and> snd e = l)"
proof -
  let ?kvs = "map (\<lambda>e. (key_raw e, snd e)) (enum_entries d)"
  have dist: "distinct (map fst ?kvs)"
    using assms(2) by (simp add: codes_distinct_def comp_def)
  show ?thesis
    unfolding enum_label_eq [OF assms(1)] map_of_rev_distinct [OF dist]
    using dist by (auto simp: map_of_eq_Some_iff simp del: map_map)
qed

lemma encode_enum_iff:
  assumes "sig_kind s = KEnum"
  shows "encode_value s (VEnum l) = Ok p \<longleftrightarrow>
    (\<exists>r. enum_raw s l = Some r \<and> write_raw (sig_ty s) (sig_endian s) (RInt r) = Some p)"
  using assms by (auto simp: encode_value_def encode_raw_def and_then_Ok_iff)

lemma decode_enum_iff:
  assumes "sig_kind s = KEnum"
  shows "decode_value s p = Ok v \<longleftrightarrow>
    (\<exists>r l. read_raw (sig_ty s) (sig_endian s) p = Some (RInt r) \<and> enum_label s r = Some l \<and> v = VEnum l)"
proof (cases "length p = type_size (sig_ty s)")
  case True
  with assms show ?thesis
    by (auto simp: decode_value_def Let_def ok_or_def and_then_def
        split: raw.splits option.splits)
next
  case False
  with assms show ?thesis
    using read_raw_None_iff [of "sig_ty s" "sig_endian s" p] by (auto simp: decode_value_def Let_def)
qed

lemma decode_encode_enum:
  assumes "signal_new d = Ok s" and "sig_kind s = KEnum" and "decode_value s p = Ok v"
  shows "encode_value s v = Ok p"
proof -
  from assms(3) obtain r l where r: "read_raw (sig_ty s) (sig_endian s) p = Some (RInt r)"
    and l: "enum_label s r = Some l" and v: "v = VEnum l"
    by (auto simp: decode_enum_iff [OF assms(2)])
  from enum_label_Some [OF assms(1) l] have "enum_raw s l = Some r"
    by (auto simp: enum_raw_iff [OF assms(1)])
  with write_read_int [OF r] show ?thesis
    by (simp add: v encode_enum_iff [OF assms(2)])
qed

lemma encode_decode_enum:
  assumes "signal_new d = Ok s" and "sig_kind s = KEnum" and "codes_distinct d"
    and "encode_value s (VEnum l) = Ok p"
  shows "decode_value s p = Ok (VEnum l)"
proof -
  from assms(4) obtain r where raw: "enum_raw s l = Some r"
    and w: "write_raw (sig_ty s) (sig_endian s) (RInt r) = Some p"
    by (auto simp: encode_enum_iff [OF assms(2)])
  from raw have "enum_label s r = Some l"
    by (auto simp: enum_raw_iff [OF assms(1)] enum_label_iff [OF assms(1,3)])
  with read_write_int [OF w] show ?thesis
    by (auto simp: decode_enum_iff [OF assms(2)])
qed

text \<open>Every label of an accepted enum signal can be encoded.\<close>

lemma encode_enum_total:
  assumes "signal_new d = Ok s" and "sig_kind s = KEnum" and "l \<in> snd ` set (enum_entries d)"
  shows "\<exists>p. encode_value s (VEnum l) = Ok p"
proof -
  have d: "sig_def s = d" and vd: "valid_def d"
    using assms(1) by (simp_all add: signal_new_Ok_iff)
  from assms(3) obtain e where e: "e \<in> set (enum_entries d)" "snd e = l" by blast
  from vd e obtain lo hi where rng: "int_range (sd_ty d) = Some (lo, hi)" and ok: "entry_ok lo hi e"
    by (auto simp: valid_def_def enum_ok_def enum_entries_def list_all_iff split: option.splits)
  from ok have "lo \<le> key_raw e \<and> key_raw e \<le> hi"
    by (auto simp: entry_ok_def key_raw_def split: option.splits)
  with rng have "\<exists>p. write_raw (sig_ty s) (sig_endian s) (RInt (key_raw e)) = Some p"
    by (simp add: sig_ty_def d write_int_iff)
  moreover have "enum_raw s l = Some (key_raw e)"
    using e by (auto simp: enum_raw_iff [OF assms(1)])
  ultimately show ?thesis
    by (auto simp: encode_enum_iff [OF assms(2)])
qed

lemma sent_value_decodes:
  assumes "signal_new (sig_def s) = Ok s"
    and "sig_kind s = KBool \<or> sig_kind s = KEnum \<and> codes_distinct (sig_def s)"
    and "encode_value s v = Ok p"
  shows "decode_value s p = Ok v"
proof (cases "sig_kind s = KBool")
  case True
  with assms(3) obtain b where "v = VBool b"
    by (auto simp: encode_value_def encode_raw_def and_then_Ok_iff split: signal_value.splits)
  with bool_roundtrip(1) [OF True, of b p] assms(3) show ?thesis by simp
next
  case False
  with assms(2) have k: "sig_kind s = KEnum" "codes_distinct (sig_def s)" by auto
  with assms(3) obtain l where "v = VEnum l"
    by (auto simp: encode_value_def encode_raw_def and_then_Ok_iff split: signal_value.splits)
  with assms(3) k encode_decode_enum [OF assms(1)] show ?thesis by simp
qed

end
