(* ===== verification/Ruleset.thy ===== *)
theory Ruleset
  imports Catalog
begin

text \<open>
  The rule set document (\<open>crates/protocol/src/ruleset.rs\<close>). Loading it is in \<open>Documents\<close>,
  validation and compilation are in \<open>Compile\<close>.
\<close>

definition any_model :: string where
  "any_model = ''*''"

datatype mode = ModeOnChange | ModePeriodic

record rule =
  rule_ident :: string
  rule_signal :: string
  rule_mode :: mode
  interval_ms :: "u64 option"
  max_age_ms :: "u64 option"
  deadband :: "f64 option"
  rule_condition :: "string option"

record ruleset =
  ruleset_version :: u64
  rs_model :: string
  rs_rules :: "rule list"

text \<open>The derived \<open>PartialEq\<close> of \<open>Rule\<close>: the deadband compares as an IEEE float.\<close>

fun deadband_eq :: "f64 option \<Rightarrow> f64 option \<Rightarrow> bool" where
  "deadband_eq None None = True"
| "deadband_eq (Some a) (Some b) = f64_eq a b"
| "deadband_eq _ _ = False"

definition rule_eq :: "rule \<Rightarrow> rule \<Rightarrow> bool" where
  "rule_eq a b \<longleftrightarrow>
     rule_ident a = rule_ident b \<and> rule_signal a = rule_signal b \<and> rule_mode a = rule_mode b
     \<and> interval_ms a = interval_ms b \<and> max_age_ms a = max_age_ms b
     \<and> deadband_eq (deadband a) (deadband b) \<and> rule_condition a = rule_condition b"

text \<open>A rule equals itself unless its deadband is a NaN, which validation rejects.\<close>

lemma f64_eq_refl: "is_finite x \<Longrightarrow> f64_eq x x"
  by (auto simp: is_finite_def f64_eq_def Let_def split: fview.splits)

lemma rule_eq_refl: "(\<And>d. deadband r = Some d \<Longrightarrow> is_finite d) \<Longrightarrow> rule_eq r r"
  by (cases "deadband r") (auto simp: rule_eq_def f64_eq_refl)

end
