(* ===== verification/Condition.thy ===== *)
theory Condition
  imports Ruleset
begin

text \<open>
  Rule conditions (\<open>crates/rules/src/condition.rs\<close>). The CEL parser and interpreter are a third-party
  crate: the record \<open>cel\<close> holds the four functions of it the program calls, as parameters. The
  program's own part is the check of the parsed expression, a loop over an explicit stack, and the
  construction of the evaluation context. The lemmas show the loop equal to a walk of the
  expression and give exactly which expressions it accepts.
\<close>

section \<open>The CEL crate as the program sees it\<close>

datatype cel_literal =
    LBoolean bool
  | LDouble f64
  | LInt "64 word"
  | LUInt u64
  | LString string
  | LBytes "u8 list"
  | LNull

text \<open>
  The syntax tree of \<open>cel::common::ast\<close>, with the payloads the program reads; the constructors it
  rejects on sight carry none.
\<close>

datatype cel_expr =
    EUnspecified
  | ECall (call_target: "cel_expr option") (func_name: string) (call_args: "cel_expr list")
  | EComprehension
  | EIdent string
  | EList
  | ELiteral cel_literal
  | EMap
  | ESelect
  | EStruct

text \<open>\<open>cel::Value\<close>: the variants the program builds or matches, and all the others.\<close>

datatype 'v cel_value = CelBool bool | CelFloat f64 | CelString string | CelOther 'v

type_synonym 'v cel_context = "string \<Rightarrow> 'v cel_value option"

record ('p, 'v) cel =
  cel_compile :: "string \<Rightarrow> (string, 'p) result"
  cel_expression :: "'p \<Rightarrow> cel_expr"
  cel_execute :: "'p \<Rightarrow> 'v cel_context \<Rightarrow> (string, 'v cel_value) result"
  cel_debug :: "'v cel_value \<Rightarrow> string"

section \<open>Checking an expression\<close>

definition max_condition_chars :: nat where
  "max_condition_chars = 512"

definition max_condition_depth :: nat where
  "max_condition_depth = 24"

definition allowed_operators :: "string list" where
  "allowed_operators =
     [''_&&_'', ''_||_'', ''!_'', ''-_'', ''_==_'', ''_!=_'', ''_<_'', ''_<=_'', ''_>_'', ''_>=_'',
      ''_+_'', ''_-_'', ''_*_'', ''_/_'', ''_%_'', ''_?_:_'']"

definition quoted :: "string \<Rightarrow> string" where
  "quoted s = [CHR 0x27] @ s @ [CHR 0x27]"

lemma size_pushed:
  "sum_list (map (\<lambda>(e, d). Suc (size e)) (rev (map (\<lambda>a. (a, depth)) args))) = size_list size args"
  by (induction args) simp_all

text \<open>
  The loop of \<open>check_ast\<close>. The head of the list is the end of the code's vector: \<open>extend\<close> pushes the
  arguments in order, so the last one is popped first.
\<close>

function check_stack ::
  "catalog \<Rightarrow> string list \<Rightarrow> (cel_expr \<times> nat) list \<Rightarrow> (string, string list) result" where
  "check_stack c signals [] = Ok signals"
| "check_stack c signals ((node, depth) # stack) =
     (if depth > max_condition_depth
      then Err (''condition is nested too deeply (limit '' @ show_nat max_condition_depth @ '')'')
      else (case node of
          EIdent name \<Rightarrow>
            if by_name c name = None then Err (''unknown signal '' @ quoted name)
            else check_stack c (btset_insert name signals) stack
        | ELiteral lit \<Rightarrow>
            (case lit of
               LBytes _ \<Rightarrow> Err ''bytes and null literals are not allowed''
             | LNull \<Rightarrow> Err ''bytes and null literals are not allowed''
             | _ \<Rightarrow> check_stack c signals stack)
        | ECall target func args \<Rightarrow>
            if target \<noteq> None \<or> func \<notin> set allowed_operators
            then Err (quoted func
                   @ '' is not allowed; only comparison, logical and arithmetic operators'')
            else check_stack c signals (rev (map (\<lambda>a. (a, depth + 1)) args) @ stack)
        | ESelect \<Rightarrow> Err ''field access is not allowed''
        | EComprehension \<Rightarrow> Err ''macros are not allowed''
        | EList \<Rightarrow> Err ''list, map and struct literals are not allowed''
        | EMap \<Rightarrow> Err ''list, map and struct literals are not allowed''
        | EStruct \<Rightarrow> Err ''list, map and struct literals are not allowed''
        | EUnspecified \<Rightarrow> Err ''unsupported expression''))"
  by pat_completeness auto

termination
  by (relation "measure (\<lambda>(c, signals, stack). sum_list (map (\<lambda>(e, d). Suc (size e)) stack))")
    (simp_all add: size_pushed)

definition check_ast :: "cel_expr \<Rightarrow> catalog \<Rightarrow> (string, string list) result" where
  "check_ast e c = check_stack c [] [(e, 1)]"

section \<open>Conditions\<close>

record 'p condition =
  cond_program :: 'p
  cond_signals :: "string list"

datatype eval_error = Execution string | NotBool string

definition condition_compile ::
  "('p, 'v) cel \<Rightarrow> string \<Rightarrow> catalog \<Rightarrow> (string, 'p condition) result" where
  "condition_compile cel source c =
     (let chars = chars_count source in
      if chars > max_condition_chars
      then Err (''condition is '' @ show_nat chars @ '' characters, limit is ''
             @ show_nat max_condition_chars)
      else if trim_is_empty source then Err ''condition is empty''
      else and_then (map_err (\<lambda>e. ''syntax error: '' @ e) (cel_compile cel source))
        (\<lambda>program. and_then (check_ast (cel_expression cel program) c)
          (\<lambda>signals. Ok \<lparr>cond_program = program, cond_signals = signals\<rparr>)))"

fun to_cel :: "signal_value \<Rightarrow> 'v cel_value" where
  "to_cel (VBool b) = CelBool b"
| "to_cel (VNum n) = CelFloat n"
| "to_cel (VEnum s) = CelString s"

text \<open>The loop filling the context; \<^term>\<open>None\<close> is its early \<open>return Ok(false)\<close>.\<close>

fun bind_signals ::
  "(string \<Rightarrow> signal_value option) \<Rightarrow> string list \<Rightarrow> 'v cel_context \<Rightarrow> 'v cel_context option" where
  "bind_signals look [] ctx = Some ctx"
| "bind_signals look (name # names) ctx =
     (case look name of
        None \<Rightarrow> None
      | Some v \<Rightarrow> bind_signals look names (ctx(name \<mapsto> to_cel v)))"

definition evaluate ::
  "('p, 'v) cel \<Rightarrow> 'p condition \<Rightarrow> (string \<Rightarrow> signal_value option) \<Rightarrow> (eval_error, bool) result" where
  "evaluate cel cond look =
     (case bind_signals look (cond_signals cond) (\<lambda>_. None) of
        None \<Rightarrow> Ok False
      | Some ctx \<Rightarrow>
          (case cel_execute cel (cond_program cond) ctx of
             Ok (CelBool b) \<Rightarrow> Ok b
           | Ok other \<Rightarrow> Err (NotBool (cel_debug cel other))
           | Err e \<Rightarrow> Err (Execution e)))"

section \<open>What the check accepts\<close>

text \<open>
  The nodes of an expression with their depths, in the order the loop visits them, and the error a
  single node raises.
\<close>

fun preorder :: "nat \<Rightarrow> cel_expr \<Rightarrow> (cel_expr \<times> nat) list" where
  "preorder d (ECall target func args) =
     (ECall target func args, d) # concat (map (preorder (d + 1)) (rev args))"
| "preorder d e = [(e, d)]"

fun literal_allowed :: "cel_literal \<Rightarrow> bool" where
  "literal_allowed (LBytes _) = False"
| "literal_allowed LNull = False"
| "literal_allowed _ = True"

definition node_error :: "catalog \<Rightarrow> cel_expr \<times> nat \<Rightarrow> string option" where
  "node_error c n =
     (case n of (node, depth) \<Rightarrow>
        if depth > max_condition_depth
        then Some (''condition is nested too deeply (limit '' @ show_nat max_condition_depth @ '')'')
        else (case node of
            EIdent name \<Rightarrow>
              if by_name c name = None then Some (''unknown signal '' @ quoted name) else None
          | ELiteral lit \<Rightarrow>
              if literal_allowed lit then None else Some ''bytes and null literals are not allowed''
          | ECall target func args \<Rightarrow>
              if target = None \<and> func \<in> set allowed_operators then None
              else Some (quoted func
                     @ '' is not allowed; only comparison, logical and arithmetic operators'')
          | ESelect \<Rightarrow> Some ''field access is not allowed''
          | EComprehension \<Rightarrow> Some ''macros are not allowed''
          | EUnspecified \<Rightarrow> Some ''unsupported expression''
          | _ \<Rightarrow> Some ''list, map and struct literals are not allowed''))"

fun node_ident :: "cel_expr \<times> nat \<Rightarrow> string option" where
  "node_ident (EIdent name, d) = Some name"
| "node_ident _ = None"

definition stack_nodes :: "(cel_expr \<times> nat) list \<Rightarrow> (cel_expr \<times> nat) list" where
  "stack_nodes stack = concat (map (\<lambda>(e, d). preorder d e) stack)"

lemma stack_nodes_simps [simp]:
  "stack_nodes [] = []"
  "stack_nodes ((e, d) # stack) = preorder d e @ stack_nodes stack"
  by (simp_all add: stack_nodes_def)

lemma stack_nodes_pushed:
  "stack_nodes (rev (map (\<lambda>a. (a, d)) args) @ stack)
    = concat (map (preorder d) (rev args)) @ stack_nodes stack"
  by (simp add: stack_nodes_def rev_map comp_def)

lemma node_error_simps:
  "\<not> d \<le> max_condition_depth \<Longrightarrow> node_error c (e, d) =
     Some (''condition is nested too deeply (limit '' @ show_nat max_condition_depth @ '')'')"
  "d \<le> max_condition_depth \<Longrightarrow> node_error c (EIdent name, d) =
     (if by_name c name = None then Some (''unknown signal '' @ quoted name) else None)"
  "d \<le> max_condition_depth \<Longrightarrow> node_error c (ELiteral lit, d) =
     (if literal_allowed lit then None else Some ''bytes and null literals are not allowed'')"
  "d \<le> max_condition_depth \<Longrightarrow> node_error c (ECall target func args, d) =
     (if target = None \<and> func \<in> set allowed_operators then None
      else Some (quoted func @ '' is not allowed; only comparison, logical and arithmetic operators''))"
  "d \<le> max_condition_depth \<Longrightarrow> node_error c (ESelect, d) = Some ''field access is not allowed''"
  "d \<le> max_condition_depth \<Longrightarrow> node_error c (EComprehension, d) = Some ''macros are not allowed''"
  "d \<le> max_condition_depth \<Longrightarrow> node_error c (EUnspecified, d) = Some ''unsupported expression''"
  "d \<le> max_condition_depth \<Longrightarrow> node_error c (EList, d) =
     Some ''list, map and struct literals are not allowed''"
  "d \<le> max_condition_depth \<Longrightarrow> node_error c (EMap, d) =
     Some ''list, map and struct literals are not allowed''"
  "d \<le> max_condition_depth \<Longrightarrow> node_error c (EStruct, d) =
     Some ''list, map and struct literals are not allowed''"
  by (simp_all add: node_error_def)

lemma map_filter_Cons [simp]:
  "List.map_filter f (x # xs) = (case f x of None \<Rightarrow> [] | Some y \<Rightarrow> [y]) @ List.map_filter f xs"
  by (auto simp: List.map_filter_def split: option.splits)

lemma map_filter_Nil [simp]: "List.map_filter f [] = []"
  by (simp add: List.map_filter_def)

text \<open>The first error, or else the identifiers.\<close>

definition verdict :: "string list \<Rightarrow> string list \<Rightarrow> (string, string list) result" where
  "verdict errs signals = (case errs of [] \<Rightarrow> Ok signals | err # _ \<Rightarrow> Err err)"

lemma verdict_simps [simp]: "verdict [] signals = Ok signals" "verdict (err # errs) signals = Err err"
  by (simp_all add: verdict_def)

lemma check_stack_eq:
  "check_stack c signals stack =
    verdict (List.map_filter (node_error c) (stack_nodes stack))
      (fold btset_insert (List.map_filter node_ident (stack_nodes stack)) signals)"
proof (induction c signals stack rule: check_stack.induct)
  case (1 c signals)
  then show ?case by simp
next
  case (2 c signals node depth stack)
  show ?case
  proof (cases node)
    case (ECall target func args)
    with 2 show ?thesis
      by (cases "depth \<le> max_condition_depth") (simp_all add: node_error_simps stack_nodes_pushed)
  next
    case (ELiteral lit)
    with 2 show ?thesis
      by (cases "depth \<le> max_condition_depth"; cases lit) (simp_all add: node_error_simps)
  qed (use 2 in \<open>cases "depth \<le> max_condition_depth"; simp add: node_error_simps\<close>)+
qed

lemma fold_btset_insert:
  "sorted s \<Longrightarrow> distinct s \<Longrightarrow> fold btset_insert xs s = sorted_list_of_set (set s \<union> set xs)"
proof (induction xs arbitrary: s)
  case Nil
  then show ?case by (simp add: sorted_list_of_set.idem_if_sorted_distinct)
next
  case (Cons x xs)
  then show ?case
    using Cons.IH [of "btset_insert x s"] by (simp add: sorted_btset_insert distinct_btset_insert)
qed

text \<open>The nesting depth, the allowed shapes and the identifiers, by recursion on the expression.\<close>

fun nesting :: "cel_expr \<Rightarrow> nat" where
  "nesting (ECall target func args) = Suc (fold max (map nesting args) 0)"
| "nesting e = 1"

fun expr_allowed :: "catalog \<Rightarrow> cel_expr \<Rightarrow> bool" where
  "expr_allowed c (EIdent name) \<longleftrightarrow> by_name c name \<noteq> None"
| "expr_allowed c (ELiteral lit) \<longleftrightarrow> literal_allowed lit"
| "expr_allowed c (ECall target func args) \<longleftrightarrow>
     target = None \<and> func \<in> set allowed_operators \<and> list_all (expr_allowed c) args"
| "expr_allowed c _ \<longleftrightarrow> False"

fun idents :: "cel_expr \<Rightarrow> string list" where
  "idents (EIdent name) = [name]"
| "idents (ECall target func args) = concat (map idents args)"
| "idents _ = []"

lemma fold_max_le: "d + fold max xs (b :: nat) \<le> n \<longleftrightarrow> d + b \<le> n \<and> (\<forall>x\<in>set xs. d + x \<le> n)"
  by (induction xs arbitrary: b) (auto simp: max_def)

lemma preorder_depth: "(e', d') \<in> set (preorder d e) \<Longrightarrow> d \<le> d'"
  by (induction d e rule: preorder.induct) (auto, fastforce)

lemma preorder_fine:
  "(\<forall>n\<in>set (preorder d e). node_error c n = None) \<longleftrightarrow>
    expr_allowed c e \<and> d + nesting e \<le> Suc max_condition_depth"
proof (induction d e rule: preorder.induct)
  case (1 d target func args)
  have "(\<forall>n\<in>set (preorder d (ECall target func args)). node_error c n = None) \<longleftrightarrow>
      node_error c (ECall target func args, d) = None
      \<and> (\<forall>a\<in>set args. expr_allowed c a \<and> d + 1 + nesting a \<le> Suc max_condition_depth)"
    using 1 by auto
  then show ?case
    by (cases "d \<le> max_condition_depth")
      (auto simp: node_error_simps fold_max_le list_all_iff split: if_splits)
qed (case_tac "d \<le> max_condition_depth", simp_all add: node_error_simps)+

lemma map_filter_empty: "List.map_filter f xs = [] \<longleftrightarrow> (\<forall>x\<in>set xs. f x = None)"
  by (induction xs) (auto split: option.splits)

lemma set_map_filter_iff: "y \<in> set (List.map_filter f xs) \<longleftrightarrow> (\<exists>x\<in>set xs. f x = Some y)"
  by (induction xs) (auto split: option.splits)

lemma preorder_idents: "(\<exists>x\<in>set (preorder d e). node_ident x = Some n) \<longleftrightarrow> n \<in> set (idents e)"
  by (induction d e rule: preorder.induct) auto

lemma set_preorder_idents: "set (List.map_filter node_ident (preorder d e)) = set (idents e)"
  using preorder_idents by (auto simp: set_map_filter_iff)

lemma check_ast_cases:
  "check_ast e c =
    verdict (List.map_filter (node_error c) (preorder 1 e)) (sorted_list_of_set (set (idents e)))"
  by (simp add: check_ast_def check_stack_eq fold_btset_insert set_preorder_idents)

lemma check_ast_Ok_iff:
  "check_ast e c = Ok ss \<longleftrightarrow>
    expr_allowed c e \<and> nesting e \<le> max_condition_depth \<and> ss = sorted_list_of_set (set (idents e))"
  using preorder_fine [of 1 e c] map_filter_empty [of "node_error c" "preorder 1 e"]
  by (auto simp: check_ast_cases verdict_def split: list.splits)

lemma idents_known: "expr_allowed c e \<Longrightarrow> n \<in> set (idents e) \<Longrightarrow> by_name c n \<noteq> None"
  by (induction e rule: idents.induct) (auto simp: list_all_iff)

section \<open>Compiled conditions\<close>

definition condition_wf :: "('p, 'v) cel \<Rightarrow> catalog \<Rightarrow> 'p condition \<Rightarrow> bool" where
  "condition_wf cel c cond \<longleftrightarrow>
     expr_allowed c (cel_expression cel (cond_program cond))
     \<and> nesting (cel_expression cel (cond_program cond)) \<le> max_condition_depth
     \<and> cond_signals cond = sorted_list_of_set (set (idents (cel_expression cel (cond_program cond))))"

lemma condition_compile_Ok_iff:
  "condition_compile cel source c = Ok cond \<longleftrightarrow>
    chars_count source \<le> max_condition_chars \<and> \<not> trim_is_empty source
    \<and> cel_compile cel source = Ok (cond_program cond) \<and> condition_wf cel c cond"
  by (cases cond) (auto simp: condition_compile_def condition_wf_def Let_def and_then_Ok_iff check_ast_Ok_iff)

lemma condition_wf_signals:
  assumes "condition_wf cel c cond"
  shows "sorted (cond_signals cond)" and "distinct (cond_signals cond)"
    and "n \<in> set (cond_signals cond) \<Longrightarrow> by_name c n \<noteq> None"
  using assms idents_known by (auto simp: condition_wf_def)

section \<open>Evaluation\<close>

lemma bind_signals_eq:
  "bind_signals look names ctx =
    (if \<forall>n\<in>set names. look n \<noteq> None
     then Some (\<lambda>n. if n \<in> set names then map_option to_cel (look n) else ctx n)
     else None)"
  by (induction names arbitrary: ctx) (auto split: option.splits)

lemma evaluate_missing:
  "n \<in> set (cond_signals cond) \<Longrightarrow> look n = None \<Longrightarrow> evaluate cel cond look = Ok False"
  by (auto simp: evaluate_def bind_signals_eq)

lemma evaluate_present:
  assumes "\<forall>n\<in>set (cond_signals cond). look n \<noteq> None"
  shows "evaluate cel cond look =
    (case cel_execute cel (cond_program cond)
        (\<lambda>n. if n \<in> set (cond_signals cond) then map_option to_cel (look n) else None) of
       Ok (CelBool b) \<Rightarrow> Ok b
     | Ok other \<Rightarrow> Err (NotBool (cel_debug cel other))
     | Err e \<Rightarrow> Err (Execution e))"
  using assms by (simp add: evaluate_def bind_signals_eq)

lemma evaluate_cong:
  assumes "\<And>n. n \<in> set (cond_signals cond) \<Longrightarrow> look n = look' n"
  shows "evaluate cel cond look = evaluate cel cond look'"
proof -
  have "bind_signals look (cond_signals cond) (\<lambda>_. None :: 'b cel_value option)
      = bind_signals look' (cond_signals cond) (\<lambda>_. None)"
    using assms by (auto simp: bind_signals_eq fun_eq_iff)
  then show ?thesis by (simp add: evaluate_def)
qed

end
