(* ===== verification/Compile.thy ===== *)
theory Compile
  imports Condition
begin

text \<open>
  Rule set validation and compilation (\<open>crates/rules/src/compile.rs\<close>, \<open>with_big_stack\<close> of
  \<open>lib.rs\<close>). How the compiler thread ends is an input: it can fail to start, panic, or return. The
  lemmas characterise the accepted rules and rule sets and list the errors of the others.
\<close>

section \<open>Compiled rules\<close>

definition max_rules :: nat where
  "max_rules = 256"

definition min_interval_ms :: u64 where
  "min_interval_ms = 100"

datatype behaviour = OnChange f64 | Periodic u64 u64

record 'p compiled_rule =
  cr_def :: rule
  cr_condition :: "'p condition option"
  cr_unit :: "string option"
  cr_behaviour :: behaviour

definition cr_id :: "'p compiled_rule \<Rightarrow> string" where
  "cr_id r = rule_ident (cr_def r)"

record 'p compiled_ruleset =
  crs_version :: u64
  crs_model :: string
  crs_rules :: "'p compiled_rule list"

definition empty_ruleset :: "'p compiled_ruleset" where
  "empty_ruleset = \<lparr>crs_version = 0, crs_model = any_model, crs_rules = []\<rparr>"

section \<open>Errors\<close>

datatype validation_error =
    NotNewer u64 u64
  | ModelMismatch string string
  | TooManyRules nat
  | InvalidRule string string
  | InvalidCondition string string
  | Internal string

fun validation_reason :: "validation_error \<Rightarrow> string" where
  "validation_reason (NotNewer _ _) = ''not_newer''"
| "validation_reason (ModelMismatch _ _) = ''model_mismatch''"
| "validation_reason (TooManyRules _) = ''too_many_rules''"
| "validation_reason (InvalidRule _ _) = ''invalid_rule''"
| "validation_reason (InvalidCondition _ _) = ''invalid_condition''"
| "validation_reason (Internal _) = ''internal''"

text \<open>The label of the first error.\<close>

fun errors_reason :: "validation_error list \<Rightarrow> string" where
  "errors_reason [] = ''internal''"
| "errors_reason (e # _) = validation_reason e"

section \<open>Compiling one rule\<close>

definition is_valid_rule_id :: "string \<Rightarrow> bool" where
  "is_valid_rule_id i \<longleftrightarrow>
     1 \<le> length i \<and> length i \<le> 64
     \<and> list_all (\<lambda>c. is_ascii_lowercase c \<or> is_ascii_digit c \<or> c = CHR ''_'') i"

definition invalid :: "rule \<Rightarrow> string \<Rightarrow> validation_error" where
  "invalid r reason = InvalidRule (rule_ident r) reason"

definition compile_behaviour :: "rule \<Rightarrow> signal \<Rightarrow> (validation_error, behaviour) result" where
  "compile_behaviour r s =
     (case rule_mode r of
        ModeOnChange \<Rightarrow>
          if interval_ms r \<noteq> None \<or> max_age_ms r \<noteq> None
          then Err (invalid r ''interval_ms and max_age_ms apply only to periodic rules'')
          else (let db = (case deadband r of None \<Rightarrow> f64_lit 0 1 | Some d \<Rightarrow> d) in
            if \<not> is_finite db \<or> f64_lt db (f64_lit 0 1)
            then Err (invalid r ''deadband must be a finite number >= 0'')
            else if deadband r \<noteq> None \<and> sig_kind s \<noteq> KNum
            then Err (invalid r ''deadband applies only to numeric signals'')
            else Ok (OnChange db))
      | ModePeriodic \<Rightarrow>
          if deadband r \<noteq> None
          then Err (invalid r ''deadband applies only to on_change rules'')
          else (case interval_ms r of
              None \<Rightarrow> Err (invalid r ''periodic rules require interval_ms'')
            | Some interval \<Rightarrow>
                if interval < min_interval_ms
                then Err (invalid r (''interval_ms must be >= '' @ show_nat (unat min_interval_ms)))
                else (let age = (case max_age_ms r of
                          None \<Rightarrow> saturating_mul_u64 interval 3 | Some a \<Rightarrow> a) in
                  if age = 0 then Err (invalid r ''max_age_ms must be > 0'')
                  else Ok (Periodic interval age))))"

text \<open>\<open>rule.condition.as_deref().map(..).transpose().map_err(..)\<close>.\<close>

definition compile_condition ::
  "('p, 'v) cel \<Rightarrow> rule \<Rightarrow> catalog \<Rightarrow> (validation_error, 'p condition option) result" where
  "compile_condition cel r c =
     (case rule_condition r of
        None \<Rightarrow> Ok None
      | Some src \<Rightarrow>
          (case condition_compile cel src c of
             Err reason \<Rightarrow> Err (InvalidCondition (rule_ident r) reason)
           | Ok cond \<Rightarrow> Ok (Some cond)))"

definition compile_rule ::
  "('p, 'v) cel \<Rightarrow> rule \<Rightarrow> catalog \<Rightarrow> (validation_error, 'p compiled_rule) result" where
  "compile_rule cel r c =
     (if \<not> is_valid_rule_id (rule_ident r)
      then Err (invalid r ''id must match ^[a-z0-9_]{1,64}$'')
      else (case by_name c (rule_signal r) of
          None \<Rightarrow> Err (invalid r (''unknown signal '' @ quoted (rule_signal r)))
        | Some s \<Rightarrow>
            and_then (compile_behaviour r s) (\<lambda>behaviour.
              and_then (compile_condition cel r c) (\<lambda>condition.
                   Ok \<lparr>cr_def = r, cr_condition = condition, cr_unit = sig_unit s,
                       cr_behaviour = behaviour\<rparr>))))"

section \<open>Compiling a rule set\<close>

text \<open>The loop of the compiler thread: the ids seen, the rules compiled and the errors so far.\<close>

fun compile_rules ::
  "('p, 'v) cel \<Rightarrow> catalog \<Rightarrow> rule list \<Rightarrow> string set \<Rightarrow> 'p compiled_rule list
    \<Rightarrow> validation_error list \<Rightarrow> 'p compiled_rule list \<times> validation_error list" where
  "compile_rules cel c [] seen compiled errors = (compiled, errors)"
| "compile_rules cel c (r # rs) seen compiled errors =
     (if rule_ident r \<in> seen
      then compile_rules cel c rs seen compiled (errors @ [invalid r ''duplicate rule id''])
      else (let seen' = insert (rule_ident r) seen in
        case compile_rule cel r c of
          Ok cr \<Rightarrow> compile_rules cel c rs seen' (compiled @ [cr]) errors
        | Err e \<Rightarrow> compile_rules cel c rs seen' compiled (errors @ [e])))"

datatype thread_outcome = Joined | SpawnFailed string | Panicked

definition with_big_stack :: "thread_outcome \<Rightarrow> 'a \<Rightarrow> (string, 'a) result" where
  "with_big_stack t x =
     (case t of
        Joined \<Rightarrow> Ok x
      | SpawnFailed e \<Rightarrow> Err (''cannot start rule compiler thread: '' @ e)
      | Panicked \<Rightarrow> Err ''rule compiler panicked'')"

text \<open>The checks of the document itself, before any rule is looked at.\<close>

definition header_errors :: "ruleset \<Rightarrow> string \<Rightarrow> u64 option \<Rightarrow> validation_error list" where
  "header_errors rs vehicle_model active_version =
     (case active_version of
        None \<Rightarrow> []
      | Some active \<Rightarrow>
          if ruleset_version rs \<le> active then [NotNewer (ruleset_version rs) active] else [])
     @ (if rs_model rs \<noteq> any_model \<and> rs_model rs \<noteq> vehicle_model
        then [ModelMismatch (rs_model rs) vehicle_model] else [])"

definition compile_ruleset ::
  "('p, 'v) cel \<Rightarrow> thread_outcome \<Rightarrow> ruleset \<Rightarrow> catalog \<Rightarrow> string \<Rightarrow> u64 option
    \<Rightarrow> (validation_error list, 'p compiled_ruleset) result" where
  "compile_ruleset cel thread rs c vehicle_model active_version =
     (let errors = header_errors rs vehicle_model active_version in
      if length (rs_rules rs) > max_rules then Err (errors @ [TooManyRules (length (rs_rules rs))])
      else (case with_big_stack thread (compile_rules cel c (rs_rules rs) {} [] []) of
          Ok (compiled, rule_errors) \<Rightarrow>
            if errors @ rule_errors = []
            then Ok \<lparr>crs_version = ruleset_version rs, crs_model = rs_model rs, crs_rules = compiled\<rparr>
            else Err (errors @ rule_errors)
        | Err e \<Rightarrow> Err (errors @ [Internal e])))"

section \<open>Accepted rules\<close>

definition max_age_of :: "rule \<Rightarrow> u64 \<Rightarrow> u64" where
  "max_age_of r interval = (case max_age_ms r of None \<Rightarrow> saturating_mul_u64 interval 3 | Some a \<Rightarrow> a)"

definition deadband_of :: "rule \<Rightarrow> f64" where
  "deadband_of r = (case deadband r of None \<Rightarrow> f64_lit 0 1 | Some d \<Rightarrow> d)"

fun behaviour_for :: "rule \<Rightarrow> signal \<Rightarrow> behaviour \<Rightarrow> bool" where
  "behaviour_for r s (OnChange db) \<longleftrightarrow>
     rule_mode r = ModeOnChange \<and> interval_ms r = None \<and> max_age_ms r = None
     \<and> db = deadband_of r \<and> is_finite db \<and> \<not> f64_lt db (f64_lit 0 1)
     \<and> (deadband r \<noteq> None \<longrightarrow> sig_kind s = KNum)"
| "behaviour_for r s (Periodic interval age) \<longleftrightarrow>
     rule_mode r = ModePeriodic \<and> deadband r = None \<and> interval_ms r = Some interval
     \<and> min_interval_ms \<le> interval \<and> age = max_age_of r interval \<and> age \<noteq> 0"

lemma compile_behaviour_Ok_iff: "compile_behaviour r s = Ok b \<longleftrightarrow> behaviour_for r s b"
  by (cases b) (auto simp: compile_behaviour_def Let_def deadband_of_def max_age_of_def not_less
      split: mode.splits option.splits)

text \<open>The default age limit is never zero: the interval is at least 100.\<close>

lemma saturating_triple_nonzero: "min_interval_ms \<le> i \<Longrightarrow> saturating_mul_u64 i 3 \<noteq> 0"
  by (auto simp: saturating_mul_u64_def min_interval_ms_def word_le_nat_alt unat_word_ariths unat_minus_one_u64
      unat_eq_0 [symmetric])

fun condition_for ::
  "('p, 'v) cel \<Rightarrow> catalog \<Rightarrow> string option \<Rightarrow> 'p condition option \<Rightarrow> bool" where
  "condition_for cel c None None \<longleftrightarrow> True"
| "condition_for cel c (Some src) (Some cond) \<longleftrightarrow>
     chars_count src \<le> max_condition_chars \<and> \<not> trim_is_empty src
     \<and> cel_compile cel src = Ok (cond_program cond) \<and> condition_wf cel c cond"
| "condition_for cel c _ _ \<longleftrightarrow> False"

lemma compile_condition_Ok_iff:
  "compile_condition cel r c = Ok co \<longleftrightarrow> condition_for cel c (rule_condition r) co"
proof (cases "rule_condition r")
  case None
  then show ?thesis by (cases co) (simp_all add: compile_condition_def)
next
  case (Some src)
  show ?thesis
  proof (cases co)
    case None
    with Some show ?thesis by (simp add: compile_condition_def split: result.splits)
  next
    case (Some cond)
    have "compile_condition cel r c = Ok co \<longleftrightarrow> condition_compile cel src c = Ok cond"
      using \<open>rule_condition r = Some src\<close> Some by (simp add: compile_condition_def split: result.splits)
    then show ?thesis
      using \<open>rule_condition r = Some src\<close> Some by (simp add: condition_compile_Ok_iff)
  qed
qed

text \<open>What the engine relies on for every compiled rule.\<close>

definition rule_wf :: "('p, 'v) cel \<Rightarrow> catalog \<Rightarrow> 'p compiled_rule \<Rightarrow> bool" where
  "rule_wf cel c cr \<longleftrightarrow>
     is_valid_rule_id (cr_id cr)
     \<and> (\<exists>s. by_name c (rule_signal (cr_def cr)) = Some s \<and> cr_unit cr = sig_unit s
          \<and> behaviour_for (cr_def cr) s (cr_behaviour cr))
     \<and> condition_for cel c (rule_condition (cr_def cr)) (cr_condition cr)"

lemma compile_rule_Ok_iff: "compile_rule cel r c = Ok cr \<longleftrightarrow> cr_def cr = r \<and> rule_wf cel c cr"
  by (cases cr) (auto simp: compile_rule_def rule_wf_def cr_id_def and_then_Ok_iff compile_behaviour_Ok_iff
      compile_condition_Ok_iff split: option.splits)

section \<open>The loop over the rules\<close>

text \<open>The outcome of one rule, given the rules before it.\<close>

definition rule_outcome ::
  "('p, 'v) cel \<Rightarrow> catalog \<Rightarrow> rule list \<Rightarrow> rule \<Rightarrow> (validation_error, 'p compiled_rule) result" where
  "rule_outcome cel c before r =
     (if rule_ident r \<in> rule_ident ` set before then Err (invalid r ''duplicate rule id'')
      else compile_rule cel r c)"

fun outcomes_from ::
  "('p, 'v) cel \<Rightarrow> catalog \<Rightarrow> rule list \<Rightarrow> rule list
    \<Rightarrow> (validation_error, 'p compiled_rule) result list" where
  "outcomes_from cel c before [] = []"
| "outcomes_from cel c before (r # rs) =
     rule_outcome cel c before r # outcomes_from cel c (before @ [r]) rs"

fun oks :: "('e, 'a) result list \<Rightarrow> 'a list" where
  "oks [] = []"
| "oks (Ok a # rs) = a # oks rs"
| "oks (Err e # rs) = oks rs"

fun errs :: "('e, 'a) result list \<Rightarrow> 'e list" where
  "errs [] = []"
| "errs (Ok a # rs) = errs rs"
| "errs (Err e # rs) = e # errs rs"

lemma length_outcomes [simp]: "length (outcomes_from cel c before rs) = length rs"
  by (induction rs arbitrary: before) simp_all

lemma nth_outcomes:
  "i < length rs \<Longrightarrow>
    outcomes_from cel c before rs ! i = rule_outcome cel c (before @ take i rs) (rs ! i)"
proof (induction rs arbitrary: before i)
  case Nil
  then show ?case by simp
next
  case (Cons r rs)
  then show ?case by (cases i) simp_all
qed

lemma compile_rules_eq:
  "compile_rules cel c rs (rule_ident ` set before) compiled errors =
    (compiled @ oks (outcomes_from cel c before rs), errors @ errs (outcomes_from cel c before rs))"
proof (induction rs arbitrary: before compiled errors)
  case Nil
  then show ?case by simp
next
  case (Cons r rs)
  have step: "compile_rules cel c rs (insert (rule_ident r) (rule_ident ` set before)) comp es =
      (comp @ oks (outcomes_from cel c (before @ [r]) rs),
       es @ errs (outcomes_from cel c (before @ [r]) rs))" for comp es
    using Cons.IH [of "before @ [r]" comp es] by simp
  have dup: "rule_ident r \<in> rule_ident ` set before \<Longrightarrow>
      insert (rule_ident r) (rule_ident ` set before) = rule_ident ` set before"
    by blast
  show ?case
    using step dup by (auto simp: rule_outcome_def Let_def split: result.splits)
qed

lemma compile_rules_outcomes:
  "compile_rules cel c rs {} [] [] =
    (oks (outcomes_from cel c [] rs), errs (outcomes_from cel c [] rs))"
  using compile_rules_eq [of cel c rs "[]" "[]" "[]"] by simp

lemma rule_outcome_Ok_iff:
  "rule_outcome cel c before r = Ok cr \<longleftrightarrow>
    rule_ident r \<notin> rule_ident ` set before \<and> cr_def cr = r \<and> rule_wf cel c cr"
  by (auto simp: rule_outcome_def compile_rule_Ok_iff)

text \<open>No errors exactly when the ids differ and every rule compiles.\<close>

lemma outcomes_fine:
  "errs (outcomes_from cel c before rs) = [] \<and> oks (outcomes_from cel c before rs) = crs \<longleftrightarrow>
    map cr_def crs = rs \<and> list_all (rule_wf cel c) crs \<and> distinct (map rule_ident rs)
    \<and> rule_ident ` set before \<inter> rule_ident ` set rs = {}"
proof (induction rs arbitrary: before crs)
  case Nil
  then show ?case by auto
next
  case (Cons r rs)
  show ?case
  proof (cases "rule_outcome cel c before r")
    case (Err e)
    then have "\<not> (rule_ident r \<notin> rule_ident ` set before \<and> cr_def cr = r \<and> rule_wf cel c cr)" for cr
      using rule_outcome_Ok_iff [of cel c before r cr] by simp
    with Err show ?thesis by (auto simp: map_eq_Cons_conv)
  next
    case (Ok cr)
    then have cr: "rule_ident r \<notin> rule_ident ` set before" "cr_def cr = r" "rule_wf cel c cr"
      by (simp_all add: rule_outcome_Ok_iff)
    have head: "cr_def cr' = r \<and> rule_wf cel c cr' \<longleftrightarrow> cr' = cr" for cr'
      using cr rule_outcome_Ok_iff [of cel c before r cr'] Ok by auto
    show ?thesis
    proof (cases crs)
      case Nil
      with Ok show ?thesis by simp
    next
      case (Cons cr' crs')
      have "errs (outcomes_from cel c before (r # rs)) = []
          \<and> oks (outcomes_from cel c before (r # rs)) = crs \<longleftrightarrow>
        (cr_def cr' = r \<and> rule_wf cel c cr')
        \<and> (map cr_def crs' = rs \<and> list_all (rule_wf cel c) crs' \<and> distinct (map rule_ident rs)
        \<and> rule_ident ` set (before @ [r]) \<inter> rule_ident ` set rs = {})"
        unfolding Cons.IH [symmetric] head using Ok Cons by auto
      also have "rule_ident ` set (before @ [r]) \<inter> rule_ident ` set rs = {} \<longleftrightarrow>
          rule_ident r \<notin> rule_ident ` set rs \<and> rule_ident ` set before \<inter> rule_ident ` set rs = {}"
        by simp
      finally show ?thesis
        using cr(1) Cons by (simp, blast)
    qed
  qed
qed

section \<open>Accepted rule sets\<close>

definition rules_wf :: "('p, 'v) cel \<Rightarrow> catalog \<Rightarrow> 'p compiled_ruleset \<Rightarrow> bool" where
  "rules_wf cel c crs \<longleftrightarrow>
     length (crs_rules crs) \<le> max_rules \<and> distinct (map cr_id (crs_rules crs))
     \<and> list_all (rule_wf cel c) (crs_rules crs)"

lemma rules_wf_empty: "rules_wf cel c empty_ruleset"
  by (simp add: rules_wf_def empty_ruleset_def)

lemma header_errors_empty_iff:
  "header_errors rs vehicle active = [] \<longleftrightarrow>
    (\<forall>a. active = Some a \<longrightarrow> a < ruleset_version rs)
    \<and> (rs_model rs = any_model \<or> rs_model rs = vehicle)"
  by (auto simp: header_errors_def not_le split: option.splits)

lemma ruleset_Ok_iff:
  "compile_ruleset cel thread rs c vehicle active = Ok crs \<longleftrightarrow>
    thread = Joined \<and> header_errors rs vehicle active = []
    \<and> crs_version crs = ruleset_version rs \<and> crs_model crs = rs_model rs
    \<and> map cr_def (crs_rules crs) = rs_rules rs \<and> rules_wf cel c crs"
proof (cases "thread = Joined \<and> length (rs_rules rs) \<le> max_rules")
  case False
  then have "\<not> (thread = Joined \<and> map cr_def (crs_rules crs) = rs_rules rs \<and> rules_wf cel c crs)"
    by (auto simp: rules_wf_def dest!: arg_cong [where f = length])
  moreover have "compile_ruleset cel thread rs c vehicle active \<noteq> Ok crs"
    using False by (auto simp: compile_ruleset_def with_big_stack_def Let_def split: thread_outcome.splits)
  ultimately show ?thesis by blast
next
  case True
  let ?os = "outcomes_from cel c [] (rs_rules rs)"
  have "compile_ruleset cel thread rs c vehicle active = Ok crs \<longleftrightarrow>
      header_errors rs vehicle active = [] \<and> crs_version crs = ruleset_version rs
      \<and> crs_model crs = rs_model rs \<and> (errs ?os = [] \<and> oks ?os = crs_rules crs)"
    using True
    by (cases crs) (auto simp: compile_ruleset_def with_big_stack_def compile_rules_outcomes Let_def)
  moreover have "map cr_def (crs_rules crs) = rs_rules rs \<Longrightarrow>
      distinct (map rule_ident (rs_rules rs)) \<longleftrightarrow> distinct (map cr_id (crs_rules crs))"
    by (drule sym) (simp add: cr_id_def [abs_def] comp_def)
  moreover have "map cr_def (crs_rules crs) = rs_rules rs \<Longrightarrow> length (crs_rules crs) \<le> max_rules"
    using True by (auto dest: arg_cong [where f = length])
  ultimately show ?thesis
    using True unfolding outcomes_fine rules_wf_def by auto
qed

end
