(* ===== verification/Clock.thy ===== *)
theory Clock
  imports Prelude
begin

text \<open>
  The clocks of \<open>crates/rules/src/clock.rs\<close>. A clock reading is an argument of the engine's
  operations; the locale states the one promise the engine's timing properties use, and both clocks
  of the program provide it.
\<close>

text \<open>\<open>SystemClock\<close>: the elapsed milliseconds since construction, \<open>u64::MAX\<close> when they do not fit.\<close>

definition system_now_ms :: "nat \<Rightarrow> u64" where
  "system_now_ms elapsed_millis = (if elapsed_millis < 2 ^ 64 then of_nat elapsed_millis else - 1)"

text \<open>\<open>FakeClock\<close>: the shared counter; \<open>fetch_add\<close> wraps.\<close>

datatype clock_op = Advance u64 | SetTo u64

fun fake_clock_step :: "clock_op \<Rightarrow> u64 \<Rightarrow> u64" where
  "fake_clock_step (Advance ms) t = t + ms"
| "fake_clock_step (SetTo ms) t = ms"

text \<open>An advance that would wrap, or a set that goes back, is a misuse of the test clock.\<close>

fun clock_op_ok :: "clock_op \<Rightarrow> u64 \<Rightarrow> bool" where
  "clock_op_ok (Advance ms) t \<longleftrightarrow> unat t + unat ms < 2 ^ 64"
| "clock_op_ok (SetTo ms) t \<longleftrightarrow> t \<le> ms"

locale monotonic_clock =
  fixes step :: "'o \<Rightarrow> 't \<Rightarrow> 't" and legal :: "'o \<Rightarrow> 't \<Rightarrow> bool" and read :: "'t \<Rightarrow> u64"
  assumes read_mono: "legal x t \<Longrightarrow> read t \<le> read (step x t)"
begin

fun legal_run :: "'o list \<Rightarrow> 't \<Rightarrow> bool" where
  "legal_run [] t \<longleftrightarrow> True"
| "legal_run (x # xs) t \<longleftrightarrow> legal x t \<and> legal_run xs (step x t)"

lemma read_run: "legal_run xs t \<Longrightarrow> read t \<le> read (fold step xs t)"
  by (induction xs arbitrary: t) (auto intro: order_trans read_mono)

end

lemma system_now_mono: "a \<le> b \<Longrightarrow> system_now_ms a \<le> system_now_ms b"
  by (auto simp: system_now_ms_def word_le_nat_alt unat_of_nat unat_minus_one_u64)

lemma unat_system_now: "unat (system_now_ms t) = min t (2 ^ 64 - 1)"
  by (auto simp: system_now_ms_def unat_of_nat unat_minus_one_u64)

interpretation sys_clock: monotonic_clock "\<lambda>d t. t + d" "\<lambda>d t. True" system_now_ms
  by unfold_locales (simp add: system_now_mono)

interpretation fake_clock: monotonic_clock fake_clock_step clock_op_ok "\<lambda>t. t"
proof
  fix x t
  assume "clock_op_ok x t"
  then show "t \<le> fake_clock_step x t"
    by (cases x) (auto simp: word_le_nat_alt unat_word_ariths)
qed

end
