(* ===== verification/Engine.thy ===== *)
theory Engine
  imports Wire Compile Clock
begin

text \<open>
  The rule evaluation engine (\<open>crates/rules/src/engine.rs\<close>): its state, the four operations of the
  daemon (\<open>apply_ruleset\<close>, \<open>on_sample\<close>, \<open>tick\<close>, \<open>next_deadline_ms\<close>) and their helpers. A clock
  reading is the argument \<open>now\<close>. The lemmas are in \<open>Engine_Props\<close>.
\<close>

section \<open>Data\<close>

record log_record =
  lr_ts_us :: u64
  lr_vin :: string
  lr_model :: string
  lr_rule_id :: string
  lr_ruleset_version :: u64
  lr_signal :: string
  lr_value :: signal_value
  lr_unit :: "string option"

record eval_report =
  records :: "log_record list"
  eval_errors :: "(string \<times> eval_error) list"
  stale_skips :: "string list"

definition report_default :: eval_report where
  "report_default = \<lparr>records = [], eval_errors = [], stale_skips = []\<rparr>"

record latest =
  lat_value :: signal_value
  lat_timestamp_us :: u64
  lat_received_ms :: u64

record rule_state =
  last_logged :: "signal_value option"
  next_due_ms :: "u64 option"

record 'p engine =
  eng_vin :: string
  eng_model :: string
  eng_rules :: "'p compiled_ruleset"
  eng_latest :: "(string, latest) hmap"
  eng_state :: "(string, rule_state) hmap"
  eng_on_change :: "(string, nat list) hmap"

definition engine_new :: "string \<Rightarrow> string \<Rightarrow> 'p engine" where
  "engine_new vin model =
     \<lparr>eng_vin = vin, eng_model = model, eng_rules = empty_ruleset, eng_latest = [],
      eng_state = [], eng_on_change = []\<rparr>"

section \<open>Swapping the rule set\<close>

definition fresh_state :: "u64 \<Rightarrow> 'p compiled_rule \<Rightarrow> rule_state" where
  "fresh_state now r =
     \<lparr>last_logged = None,
      next_due_ms = (case cr_behaviour r of
          Periodic interval _ \<Rightarrow> Some (saturating_add_u64 now interval)
        | OnChange _ \<Rightarrow> None)\<rparr>"

text \<open>The loop over the new rules: \<open>self.state\<close> loses the states that move to the new map.\<close>

fun reconcile ::
  "u64 \<Rightarrow> (string, 'p compiled_rule) hmap \<Rightarrow> 'p compiled_rule list
    \<Rightarrow> (string, rule_state) hmap \<Rightarrow> (string, rule_state) hmap \<Rightarrow> (string, rule_state) hmap" where
  "reconcile now old_defs [] self_state state = state"
| "reconcile now old_defs (r # rs) self_state state =
     (let unchanged = (case hm_get old_defs (cr_id r) of
            None \<Rightarrow> False | Some old \<Rightarrow> rule_eq (cr_def old) (cr_def r));
          kept = (if unchanged then hm_get self_state (cr_id r) else None);
          self_state' = (if unchanged then hm_remove (cr_id r) self_state else self_state);
          st = (case kept of None \<Rightarrow> fresh_state now r | Some s \<Rightarrow> s)
      in reconcile now old_defs rs self_state' (hm_insert (cr_id r) st state))"

fun index_on_change ::
  "nat \<Rightarrow> 'p compiled_rule list \<Rightarrow> (string, nat list) hmap \<Rightarrow> (string, nat list) hmap" where
  "index_on_change i [] m = m"
| "index_on_change i (r # rs) m =
     index_on_change (Suc i) rs
       (case cr_behaviour r of
          OnChange _ \<Rightarrow> hm_push (rule_signal (cr_def r)) i m
        | Periodic _ _ \<Rightarrow> m)"

definition apply_ruleset :: "u64 \<Rightarrow> 'p compiled_ruleset \<Rightarrow> 'p engine \<Rightarrow> 'p engine" where
  "apply_ruleset now new e =
     (let old_defs = fold (\<lambda>(k, v). hm_insert k v) (map (\<lambda>r. (cr_id r, r)) (crs_rules (eng_rules e))) []
      in e\<lparr>eng_state := reconcile now old_defs (crs_rules new) (eng_state e) [],
           eng_on_change := index_on_change 0 (crs_rules new) [],
           eng_rules := new\<rparr>)"

section \<open>Evaluation\<close>

definition log_record_of ::
  "'p engine \<Rightarrow> 'p compiled_rule \<Rightarrow> u64 \<Rightarrow> signal_value \<Rightarrow> log_record" where
  "log_record_of e r ts v =
     \<lparr>lr_ts_us = ts, lr_vin = eng_vin e, lr_model = eng_model e, lr_rule_id = cr_id r,
      lr_ruleset_version = crs_version (eng_rules e), lr_signal = rule_signal (cr_def r),
      lr_value = v, lr_unit = cr_unit r\<rparr>"

definition latest_value :: "(string, latest) hmap \<Rightarrow> string \<Rightarrow> signal_value option" where
  "latest_value m name = map_option lat_value (hm_get m name)"

definition condition_passes ::
  "('p, 'v) cel \<Rightarrow> 'p compiled_rule \<Rightarrow> (string, latest) hmap \<Rightarrow> eval_report \<Rightarrow> bool \<times> eval_report" where
  "condition_passes cel r m report =
     (case cr_condition r of
        None \<Rightarrow> (True, report)
      | Some cond \<Rightarrow>
          (case evaluate cel cond (latest_value m) of
             Ok pass \<Rightarrow> (pass, report)
           | Err err \<Rightarrow> (False, report\<lparr>eval_errors := eval_errors report @ [(cr_id r, err)]\<rparr>)))"

definition changed_by :: "f64 \<Rightarrow> signal_value option \<Rightarrow> signal_value \<Rightarrow> bool" where
  "changed_by db logged new =
     (case (logged, new) of
        (None, _) \<Rightarrow> True
      | (Some (VNum a), VNum b) \<Rightarrow> f64_gt (f64_abs (f64_sub b a)) db
      | (Some a, b) \<Rightarrow> \<not> sv_eq a b)"

definition add_record :: "log_record \<Rightarrow> eval_report \<Rightarrow> eval_report" where
  "add_record l report = report\<lparr>records := records report @ [l]\<rparr>"

text \<open>The loop of \<open>on_sample\<close> over the rules of the sample's signal.\<close>

fun on_change_rules ::
  "('p, 'v) cel \<Rightarrow> 'p engine \<Rightarrow> sample \<Rightarrow> 'p compiled_rule list \<Rightarrow> (string, rule_state) hmap
    \<Rightarrow> eval_report \<Rightarrow> (string, rule_state) hmap \<times> eval_report" where
  "on_change_rules cel e smp [] state report = (state, report)"
| "on_change_rules cel e smp (r # rs) state report =
     (case cr_behaviour r of
        Periodic _ _ \<Rightarrow> on_change_rules cel e smp rs state report
      | OnChange db \<Rightarrow>
          (case hm_get state (cr_id r) of
             None \<Rightarrow> on_change_rules cel e smp rs state report
           | Some st \<Rightarrow>
               if changed_by db (last_logged st) (smp_value smp)
               then (let (pass, report') = condition_passes cel r (eng_latest e) report in
                 if pass
                 then on_change_rules cel e smp rs
                   (hm_insert (cr_id r) (st\<lparr>last_logged := Some (smp_value smp)\<rparr>) state)
                   (add_record (log_record_of e r (smp_timestamp_us smp) (smp_value smp)) report')
                 else on_change_rules cel e smp rs state report')
               else on_change_rules cel e smp rs state report))"

definition on_sample ::
  "('p, 'v) cel \<Rightarrow> u64 \<Rightarrow> sample \<Rightarrow> 'p engine \<Rightarrow> 'p engine \<times> eval_report" where
  "on_sample cel now smp e =
     (let e1 = e\<lparr>eng_latest := hm_insert (smp_name smp)
            \<lparr>lat_value = smp_value smp, lat_timestamp_us = smp_timestamp_us smp, lat_received_ms = now\<rparr>
            (eng_latest e)\<rparr>
      in case hm_get (eng_on_change e1) (smp_name smp) of
           None \<Rightarrow> (e1, report_default)
         | Some indices \<Rightarrow>
             (let (state, report) = on_change_rules cel e1 smp
                    (List.map_filter (vec_get (crs_rules (eng_rules e1))) indices)
                    (eng_state e1) report_default
              in (e1\<lparr>eng_state := state\<rparr>, report)))"

text \<open>The slot after \<open>due\<close>; when it has passed already, one interval from now.\<close>

definition next_slot :: "u64 \<Rightarrow> u64 \<Rightarrow> u64 \<Rightarrow> u64" where
  "next_slot now due interval =
     (let next = saturating_add_u64 due interval
      in if next > now then next else saturating_add_u64 now interval)"

fun tick_rules ::
  "('p, 'v) cel \<Rightarrow> 'p engine \<Rightarrow> u64 \<Rightarrow> 'p compiled_rule list \<Rightarrow> (string, rule_state) hmap
    \<Rightarrow> eval_report \<Rightarrow> (string, rule_state) hmap \<times> eval_report" where
  "tick_rules cel e now [] state report = (state, report)"
| "tick_rules cel e now (r # rs) state report =
     (case cr_behaviour r of
        OnChange _ \<Rightarrow> tick_rules cel e now rs state report
      | Periodic interval max_age \<Rightarrow>
          (case hm_get state (cr_id r) of
             None \<Rightarrow> tick_rules cel e now rs state report
           | Some st \<Rightarrow>
               (case next_due_ms st of
                  None \<Rightarrow> tick_rules cel e now rs state report
                | Some due \<Rightarrow>
                    if \<not> due \<le> now then tick_rules cel e now rs state report
                    else (let st' = st\<lparr>next_due_ms := Some (next_slot now due interval)\<rparr>;
                              state' = hm_insert (cr_id r) st' state
                      in case hm_get (eng_latest e) (rule_signal (cr_def r)) of
                           None \<Rightarrow> tick_rules cel e now rs state' report
                         | Some lat \<Rightarrow>
                             if saturating_sub_u64 now (lat_received_ms lat) > max_age
                             then tick_rules cel e now rs state'
                               (report\<lparr>stale_skips := stale_skips report @ [cr_id r]\<rparr>)
                             else (let (pass, report') = condition_passes cel r (eng_latest e) report in
                               if pass
                               then tick_rules cel e now rs
                                 (hm_insert (cr_id r) (st'\<lparr>last_logged := Some (lat_value lat)\<rparr>) state')
                                 (add_record (log_record_of e r (lat_timestamp_us lat) (lat_value lat)) report')
                               else tick_rules cel e now rs state' report')))))"

definition tick :: "('p, 'v) cel \<Rightarrow> u64 \<Rightarrow> 'p engine \<Rightarrow> 'p engine \<times> eval_report" where
  "tick cel now e =
     (let (state, report) = tick_rules cel e now (crs_rules (eng_rules e)) (eng_state e) report_default
      in (e\<lparr>eng_state := state\<rparr>, report))"

definition next_deadline_ms :: "'p engine \<Rightarrow> u64 option" where
  "next_deadline_ms e =
     (case List.map_filter next_due_ms (hm_values (eng_state e)) of
        [] \<Rightarrow> None
      | d # ds \<Rightarrow> Some (fold min ds d))"

end
