(* ===== verification/Engine_Props.thy ===== *)
theory Engine_Props
  imports Engine
begin

text \<open>
  The engine against a specification of single rules. Each loop of the engine threads the state map
  and the report through its rules; the locale \<open>keyed_loop\<close> shows once that such a loop lets every
  rule make its own step on its own state, with the reports joined in rule order. The rest is the
  invariant of the engine, what each operation keeps of it, and what each operation does to one rule.
\<close>

section \<open>Reports\<close>

definition report_add :: "eval_report \<Rightarrow> eval_report \<Rightarrow> eval_report" where
  "report_add a b =
     \<lparr>records = records a @ records b, eval_errors = eval_errors a @ eval_errors b,
      stale_skips = stale_skips a @ stale_skips b\<rparr>"

definition report_concat :: "eval_report list \<Rightarrow> eval_report" where
  "report_concat rs = foldr report_add rs report_default"

lemma report_add_sel [simp]:
  "records (report_add a b) = records a @ records b"
  "eval_errors (report_add a b) = eval_errors a @ eval_errors b"
  "stale_skips (report_add a b) = stale_skips a @ stale_skips b"
  by (simp_all add: report_add_def)

lemma report_default_sel [simp]:
  "records report_default = []" "eval_errors report_default = []" "stale_skips report_default = []"
  by (simp_all add: report_default_def)

lemma report_add_default [simp]: "report_add a report_default = a" "report_add report_default a = a"
  by (simp_all add: report_add_def report_default_def)

lemma report_add_assoc: "report_add (report_add a b) c = report_add a (report_add b c)"
  by (simp add: report_add_def)

lemma report_concat_simps [simp]:
  "report_concat [] = report_default"
  "report_concat (r # rs) = report_add r (report_concat rs)"
  by (simp_all add: report_concat_def)

lemma report_concat_sel:
  "records (report_concat rs) = concat (map records rs)"
  "eval_errors (report_concat rs) = concat (map eval_errors rs)"
  "stale_skips (report_concat rs) = concat (map stale_skips rs)"
  by (induction rs) simp_all

section \<open>Loops over keyed states\<close>

lemma hm_insert_same: "hm_get m k = Some v \<Longrightarrow> hm_insert k v m = m"
  by (induction m) (auto simp: hm_get_def hm_insert_def split: if_splits)

lemma hm_insert_twice: "hm_insert k v (hm_insert k w m) = hm_insert k v m"
  by (induction m) (auto simp: hm_insert_def)

text \<open>The report of one rule, when its key has a state.\<close>

definition keyed_out ::
  "('r \<Rightarrow> 'k) \<Rightarrow> ('r \<Rightarrow> 's \<Rightarrow> 's \<times> eval_report) \<Rightarrow> ('k, 's) hmap \<Rightarrow> 'r \<Rightarrow> eval_report" where
  "keyed_out key step m r =
     (case hm_get m (key r) of None \<Rightarrow> report_default | Some s \<Rightarrow> snd (step r s))"

locale keyed_loop =
  fixes key :: "'r \<Rightarrow> 'k"
    and step :: "'r \<Rightarrow> 's \<Rightarrow> 's \<times> eval_report"
    and loop :: "'r list \<Rightarrow> ('k, 's) hmap \<Rightarrow> eval_report \<Rightarrow> ('k, 's) hmap \<times> eval_report"
  assumes loop_Nil: "loop [] m rep = (m, rep)"
    and loop_Cons: "loop (r # rs) m rep =
      (case hm_get m (key r) of
         None \<Rightarrow> loop rs m rep
       | Some s \<Rightarrow> loop rs (hm_insert (key r) (fst (step r s)) m) (report_add rep (snd (step r s))))"
begin

lemma loop_report:
  "distinct (map key rs) \<Longrightarrow> snd (loop rs m rep) = report_add rep (report_concat (map (keyed_out key step m) rs))"
proof (induction rs arbitrary: m rep)
  case Nil
  then show ?case by (simp add: loop_Nil)
next
  case (Cons r rs)
  have "key r' \<noteq> key r" if "r' \<in> set rs" for r'
    using Cons.prems that by (auto, metis imageI)
  then have "report_concat (map (keyed_out key step (hm_insert (key r) s m)) rs) = report_concat (map (keyed_out key step m) rs)" for s
    by (auto simp: keyed_out_def intro!: arg_cong [where f = report_concat])
  with Cons show ?case
    by (simp add: loop_Cons keyed_out_def [of key step m r] report_add_assoc split: option.splits)
qed

lemma loop_other: "k \<notin> key ` set rs \<Longrightarrow> hm_get (fst (loop rs m rep)) k = hm_get m k"
proof (induction rs arbitrary: m rep)
  case Nil
  then show ?case by (simp add: loop_Nil)
next
  case (Cons r rs)
  then show ?case by (simp add: loop_Cons split: option.splits)
qed

lemma loop_state:
  "distinct (map key rs) \<Longrightarrow> r \<in> set rs \<Longrightarrow>
    hm_get (fst (loop rs m rep)) (key r) = map_option (\<lambda>s. fst (step r s)) (hm_get m (key r))"
proof (induction rs arbitrary: m rep)
  case Nil
  then show ?case by simp
next
  case (Cons a rs)
  show ?case
  proof (cases "r = a")
    case True
    with Cons.prems have "key r \<notin> key ` set rs" by auto
    with True show ?thesis by (simp add: loop_Cons loop_other split: option.splits)
  next
    case False
    with Cons.prems have "r \<in> set rs" "key r \<noteq> key a" "distinct (map key rs)"
      by (auto, metis imageI)
    then show ?thesis using Cons.IH by (simp add: loop_Cons split: option.splits)
  qed
qed

lemma loop_wf: "hm_wf m \<Longrightarrow> hm_wf (fst (loop rs m rep))"
  by (induction rs arbitrary: m rep) (simp_all add: loop_Nil loop_Cons split: option.splits)

lemma loop_id:
  "(\<And>r s. r \<in> set rs \<Longrightarrow> hm_get m (key r) = Some s \<Longrightarrow> step r s = (s, report_default)) \<Longrightarrow>
    loop rs m rep = (m, rep)"
  by (induction rs) (auto simp: loop_Nil loop_Cons hm_insert_same split: option.splits)

lemma loop_dom: "hm_get (fst (loop rs m rep)) k = None \<longleftrightarrow> hm_get m k = None"
  by (induction rs arbitrary: m rep) (auto simp: loop_Nil loop_Cons split: option.splits if_splits)

end

section \<open>One rule\<close>

definition condition_verdict ::
  "('p, 'v) cel \<Rightarrow> 'p compiled_rule \<Rightarrow> (string, latest) hmap \<Rightarrow> (eval_error, bool) result" where
  "condition_verdict cel r m =
     (case cr_condition r of None \<Rightarrow> Ok True | Some cond \<Rightarrow> evaluate cel cond (latest_value m))"

text \<open>Logging a value when the condition holds; its error goes to the report.\<close>

definition log_if ::
  "(eval_error, bool) result \<Rightarrow> signal_value \<Rightarrow> log_record \<Rightarrow> rule_state \<Rightarrow> rule_state \<times> eval_report" where
  "log_if vd v l st =
     (case vd of
        Ok True \<Rightarrow> (st\<lparr>last_logged := Some v\<rparr>, report_default\<lparr>records := [l]\<rparr>)
      | Ok False \<Rightarrow> (st, report_default)
      | Err err \<Rightarrow> (st, report_default\<lparr>eval_errors := [(lr_rule_id l, err)]\<rparr>))"

definition on_change_step ::
  "('p, 'v) cel \<Rightarrow> 'p engine \<Rightarrow> sample \<Rightarrow> 'p compiled_rule \<Rightarrow> rule_state \<Rightarrow> rule_state \<times> eval_report" where
  "on_change_step cel e smp r st =
     (case cr_behaviour r of
        Periodic _ _ \<Rightarrow> (st, report_default)
      | OnChange db \<Rightarrow>
          if changed_by db (last_logged st) (smp_value smp)
          then log_if (condition_verdict cel r (eng_latest e)) (smp_value smp)
                 (log_record_of e r (smp_timestamp_us smp) (smp_value smp)) st
          else (st, report_default))"

definition is_due :: "u64 \<Rightarrow> rule_state \<Rightarrow> bool" where
  "is_due now st \<longleftrightarrow> (case next_due_ms st of None \<Rightarrow> False | Some due \<Rightarrow> due \<le> now)"

definition periodic_step ::
  "('p, 'v) cel \<Rightarrow> 'p engine \<Rightarrow> u64 \<Rightarrow> 'p compiled_rule \<Rightarrow> rule_state \<Rightarrow> rule_state \<times> eval_report" where
  "periodic_step cel e now r st =
     (case cr_behaviour r of
        OnChange _ \<Rightarrow> (st, report_default)
      | Periodic interval max_age \<Rightarrow>
          if \<not> is_due now st then (st, report_default)
          else (let st' = st\<lparr>next_due_ms := Some (next_slot now (the (next_due_ms st)) interval)\<rparr> in
            case hm_get (eng_latest e) (rule_signal (cr_def r)) of
              None \<Rightarrow> (st', report_default)
            | Some lat \<Rightarrow>
                if saturating_sub_u64 now (lat_received_ms lat) > max_age
                then (st', report_default\<lparr>stale_skips := [cr_id r]\<rparr>)
                else log_if (condition_verdict cel r (eng_latest e)) (lat_value lat)
                       (log_record_of e r (lat_timestamp_us lat) (lat_value lat)) st'))"

lemma condition_passes_eq:
  "condition_passes cel r m report =
    (case condition_verdict cel r m of
       Ok b \<Rightarrow> (b, report)
     | Err err \<Rightarrow> (False, report_add report (report_default\<lparr>eval_errors := [(cr_id r, err)]\<rparr>)))"
  by (auto simp: condition_passes_def condition_verdict_def report_add_def split: option.splits result.splits)

lemma add_record_eq: "add_record l report = report_add report (report_default\<lparr>records := [l]\<rparr>)"
  by (simp add: add_record_def report_add_def)

lemma stale_eq:
  "report\<lparr>stale_skips := stale_skips report @ [x]\<rparr> = report_add report (report_default\<lparr>stale_skips := [x]\<rparr>)"
  by (simp add: report_add_def)

lemma log_record_of_id [simp]: "lr_rule_id (log_record_of e r ts v) = cr_id r"
  by (simp add: log_record_of_def)

interpretation oc: keyed_loop cr_id "on_change_step cel e smp" "on_change_rules cel e smp" for cel e smp
proof
  fix m rep
  show "on_change_rules cel e smp [] m rep = (m, rep)" by simp
next
  fix r rs m rep
  show "on_change_rules cel e smp (r # rs) m rep =
    (case hm_get m (cr_id r) of
       None \<Rightarrow> on_change_rules cel e smp rs m rep
     | Some s \<Rightarrow> on_change_rules cel e smp rs (hm_insert (cr_id r) (fst (on_change_step cel e smp r s)) m)
                 (report_add rep (snd (on_change_step cel e smp r s))))"
    by (auto simp: on_change_step_def log_if_def condition_passes_eq add_record_eq hm_insert_same Let_def
        split: behaviour.splits option.splits result.splits bool.splits)
qed

interpretation per: keyed_loop cr_id "periodic_step cel e now" "tick_rules cel e now" for cel e now
proof
  fix m rep
  show "tick_rules cel e now [] m rep = (m, rep)" by simp
next
  fix r rs m rep
  show "tick_rules cel e now (r # rs) m rep =
    (case hm_get m (cr_id r) of
       None \<Rightarrow> tick_rules cel e now rs m rep
     | Some s \<Rightarrow> tick_rules cel e now rs (hm_insert (cr_id r) (fst (periodic_step cel e now r s)) m)
                 (report_add rep (snd (periodic_step cel e now r s))))"
    by (auto simp: periodic_step_def log_if_def is_due_def condition_passes_eq add_record_eq stale_eq
        hm_insert_same hm_insert_twice Let_def
        split: behaviour.splits option.splits result.splits bool.splits)
qed

section \<open>The index of \<open>on_change\<close> rules\<close>

definition is_periodic :: "'p compiled_rule \<Rightarrow> bool" where
  "is_periodic r \<longleftrightarrow> (case cr_behaviour r of Periodic _ _ \<Rightarrow> True | OnChange _ \<Rightarrow> False)"

definition listens :: "string \<Rightarrow> 'p compiled_rule \<Rightarrow> bool" where
  "listens name r \<longleftrightarrow> \<not> is_periodic r \<and> rule_signal (cr_def r) = name"

fun listener_indices :: "string \<Rightarrow> nat \<Rightarrow> 'p compiled_rule list \<Rightarrow> nat list" where
  "listener_indices name i [] = []"
| "listener_indices name i (r # rs) =
     (if listens name r then [i] else []) @ listener_indices name (Suc i) rs"

lemma get_index_on_change:
  "hm_get (index_on_change i rs m) name =
    (if listener_indices name i rs = [] then hm_get m name
     else Some ((case hm_get m name of None \<Rightarrow> [] | Some is \<Rightarrow> is) @ listener_indices name i rs))"
proof (induction rs arbitrary: i m)
  case Nil
  then show ?case by simp
next
  case (Cons r rs)
  then show ?case
    by (cases "cr_behaviour r") (auto simp: listens_def is_periodic_def hm_get_push)
qed

lemma hm_wf_index: "hm_wf m \<Longrightarrow> hm_wf (index_on_change i rs m)"
  by (induction rs arbitrary: i m) (auto split: behaviour.splits)

lemma map_filter_append: "List.map_filter f (xs @ ys) = List.map_filter f xs @ List.map_filter f ys"
  by (induction xs) (auto split: option.splits)

lemma listener_indices_rules:
  "rs = drop i all \<Longrightarrow> List.map_filter (vec_get all) (listener_indices name i rs) = filter (listens name) rs"
proof (induction rs arbitrary: i)
  case Nil
  then show ?case by simp
next
  case (Cons r rs)
  then have "vec_get all i = Some r"
    by (metis drop_eq_Nil drop_eq_nths list.distinct(1) list.sel(1) hd_drop_conv_nth not_le vec_get_Some_iff)
  moreover have "rs = drop (Suc i) all"
    using Cons.prems by (metis drop_Suc list.sel(3) tl_drop)
  ultimately show ?case using Cons.IH by (simp add: map_filter_append)
qed

section \<open>The invariant\<close>

definition state_wf :: "'p compiled_ruleset \<Rightarrow> (string, rule_state) hmap \<Rightarrow> bool" where
  "state_wf crs state \<longleftrightarrow>
     hm_wf state
     \<and> (\<forall>k. hm_get state k = None \<longleftrightarrow> k \<notin> cr_id ` set (crs_rules crs))
     \<and> (\<forall>r\<in>set (crs_rules crs). \<forall>st. hm_get state (cr_id r) = Some st \<longrightarrow>
          (next_due_ms st \<noteq> None \<longleftrightarrow> is_periodic r))"

definition engine_wf :: "('p, 'v) cel \<Rightarrow> catalog \<Rightarrow> 'p engine \<Rightarrow> bool" where
  "engine_wf cel c e \<longleftrightarrow>
     rules_wf cel c (eng_rules e) \<and> hm_wf (eng_latest e) \<and> state_wf (eng_rules e) (eng_state e)
     \<and> hm_wf (eng_on_change e)
     \<and> (\<forall>name. hm_get (eng_on_change e) name =
          (let is = listener_indices name 0 (crs_rules (eng_rules e)) in if is = [] then None else Some is))"

lemma engine_wf_new: "engine_wf cel c (engine_new vin model)"
  by (simp add: engine_wf_def engine_new_def state_wf_def rules_wf_empty empty_ruleset_def rules_wf_def)

lemma engine_wfD:
  assumes "engine_wf cel c e"
  shows "distinct (map cr_id (crs_rules (eng_rules e)))"
    and "r \<in> set (crs_rules (eng_rules e)) \<Longrightarrow> rule_wf cel c r"
    and "r \<in> set (crs_rules (eng_rules e)) \<Longrightarrow> \<exists>st. hm_get (eng_state e) (cr_id r) = Some st"
    and "state_wf (eng_rules e) (eng_state e)"
  using assms by (auto simp: engine_wf_def rules_wf_def state_wf_def list_all_iff)

section \<open>Samples\<close>

definition observe :: "u64 \<Rightarrow> sample \<Rightarrow> 'p engine \<Rightarrow> 'p engine" where
  "observe now smp e = e\<lparr>eng_latest := hm_insert (smp_name smp)
     \<lparr>lat_value = smp_value smp, lat_timestamp_us = smp_timestamp_us smp, lat_received_ms = now\<rparr>
     (eng_latest e)\<rparr>"

lemma observe_sel [simp]:
  "eng_vin (observe now smp e) = eng_vin e" "eng_model (observe now smp e) = eng_model e"
  "eng_rules (observe now smp e) = eng_rules e" "eng_state (observe now smp e) = eng_state e"
  "eng_on_change (observe now smp e) = eng_on_change e"
  by (simp_all add: observe_def)

definition listeners :: "'p engine \<Rightarrow> string \<Rightarrow> 'p compiled_rule list" where
  "listeners e name = filter (listens name) (crs_rules (eng_rules e))"

lemma distinct_listeners:
  "engine_wf cel c e \<Longrightarrow> distinct (map cr_id (listeners e name))"
  unfolding listeners_def by (intro distinct_map_filter engine_wfD(1))

lemma on_sample_eq:
  assumes "engine_wf cel c e"
  shows "on_sample cel now smp e =
    (let (state, report) = on_change_rules cel (observe now smp e) smp (listeners e (smp_name smp))
        (eng_state e) report_default
     in ((observe now smp e)\<lparr>eng_state := state\<rparr>, report))"
proof -
  let ?is = "listener_indices (smp_name smp) 0 (crs_rules (eng_rules e))"
  have get: "hm_get (eng_on_change e) (smp_name smp) = (if ?is = [] then None else Some ?is)"
    using assms by (simp add: engine_wf_def Let_def)
  have rs: "List.map_filter (vec_get (crs_rules (eng_rules e))) ?is = listeners e (smp_name smp)"
    by (simp add: listeners_def listener_indices_rules)
  have none: "(observe now smp e)\<lparr>eng_state := eng_state e\<rparr> = observe now smp e"
    by (simp add: observe_def)
  show ?thesis
  proof (cases "?is = []")
    case True
    with rs have "listeners e (smp_name smp) = []" by simp
    with True none show ?thesis
      by (simp add: on_sample_def Let_def get observe_def)
  next
    case False
    then show ?thesis
      by (simp add: on_sample_def Let_def get rs observe_def [symmetric] split_beta)
  qed
qed

lemma on_sample_fst:
  assumes "engine_wf cel c e"
  shows "eng_vin (fst (on_sample cel now smp e)) = eng_vin e"
    "eng_model (fst (on_sample cel now smp e)) = eng_model e"
    "eng_rules (fst (on_sample cel now smp e)) = eng_rules e"
    "eng_latest (fst (on_sample cel now smp e)) = eng_latest (observe now smp e)"
    "eng_on_change (fst (on_sample cel now smp e)) = eng_on_change e"
  by (simp_all add: on_sample_eq [OF assms] split_beta)

lemma on_sample_report:
  assumes "engine_wf cel c e"
  shows "snd (on_sample cel now smp e) =
    report_concat (map (keyed_out cr_id (on_change_step cel (observe now smp e) smp) (eng_state e)) (listeners e (smp_name smp)))"
  by (simp add: on_sample_eq [OF assms] split_beta oc.loop_report distinct_listeners [OF assms])

lemma on_sample_state:
  assumes "engine_wf cel c e" and "r \<in> set (crs_rules (eng_rules e))"
    and "hm_get (eng_state e) (cr_id r) = Some st"
  shows "hm_get (eng_state (fst (on_sample cel now smp e))) (cr_id r) =
    Some (if listens (smp_name smp) r then fst (on_change_step cel (observe now smp e) smp r st) else st)"
proof (cases "listens (smp_name smp) r")
  case True
  then have "r \<in> set (listeners e (smp_name smp))" using assms(2) by (simp add: listeners_def)
  with True assms(3) show ?thesis
    by (simp add: on_sample_eq [OF assms(1)] split_beta oc.loop_state distinct_listeners [OF assms(1)])
next
  case False
  have "cr_id r \<notin> cr_id ` set (listeners e (smp_name smp))"
    using False assms(2) engine_wfD(1) [OF assms(1)]
    by (auto simp: listeners_def distinct_map inj_on_def)
  with False assms(3) show ?thesis
    by (simp add: on_sample_eq [OF assms(1)] split_beta oc.loop_other)
qed

section \<open>Ticks\<close>

lemma tick_eq:
  "tick cel now e =
    (e\<lparr>eng_state := fst (tick_rules cel e now (crs_rules (eng_rules e)) (eng_state e) report_default)\<rparr>,
     snd (tick_rules cel e now (crs_rules (eng_rules e)) (eng_state e) report_default))"
  by (simp add: tick_def split_beta)

lemma tick_fst [simp]:
  "eng_vin (fst (tick cel now e)) = eng_vin e" "eng_model (fst (tick cel now e)) = eng_model e"
  "eng_rules (fst (tick cel now e)) = eng_rules e" "eng_latest (fst (tick cel now e)) = eng_latest e"
  "eng_on_change (fst (tick cel now e)) = eng_on_change e"
  by (simp_all add: tick_eq)

lemma tick_report:
  assumes "engine_wf cel c e"
  shows "snd (tick cel now e) =
    report_concat (map (keyed_out cr_id (periodic_step cel e now) (eng_state e)) (crs_rules (eng_rules e)))"
  by (simp add: tick_eq per.loop_report engine_wfD(1) [OF assms])

lemma tick_state:
  assumes "engine_wf cel c e" and "r \<in> set (crs_rules (eng_rules e))"
    and "hm_get (eng_state e) (cr_id r) = Some st"
  shows "hm_get (eng_state (fst (tick cel now e))) (cr_id r) = Some (fst (periodic_step cel e now r st))"
  using assms by (simp add: tick_eq per.loop_state engine_wfD(1) [OF assms(1)])

section \<open>Swapping the rule set\<close>

definition unchanged_rule :: "'p engine \<Rightarrow> 'p compiled_rule \<Rightarrow> bool" where
  "unchanged_rule e r \<longleftrightarrow> (\<exists>old\<in>set (crs_rules (eng_rules e)). rule_eq (cr_def old) (cr_def r))"

text \<open>The state a rule has after the swap.\<close>

definition carried_state :: "u64 \<Rightarrow> 'p engine \<Rightarrow> 'p compiled_rule \<Rightarrow> rule_state" where
  "carried_state now e r =
     (if unchanged_rule e r
      then (case hm_get (eng_state e) (cr_id r) of None \<Rightarrow> fresh_state now r | Some st \<Rightarrow> st)
      else fresh_state now r)"

lemma hm_wf_reconcile: "hm_wf state \<Longrightarrow> hm_wf (reconcile now od rs ss state)"
  by (induction rs arbitrary: ss state) (simp_all add: Let_def)

lemma reconcile_other:
  "k \<notin> cr_id ` set rs \<Longrightarrow> hm_get (reconcile now od rs ss state) k = hm_get state k"
  by (induction rs arbitrary: ss state) (simp_all add: Let_def)

lemma reconcile_rule:
  assumes "distinct (map cr_id rs)" and "r \<in> set rs"
  shows "hm_get (reconcile now od rs ss state) (cr_id r) =
    Some (if (case hm_get od (cr_id r) of None \<Rightarrow> False | Some old \<Rightarrow> rule_eq (cr_def old) (cr_def r))
          then (case hm_get ss (cr_id r) of None \<Rightarrow> fresh_state now r | Some st \<Rightarrow> st)
          else fresh_state now r)"
  using assms
proof (induction rs arbitrary: ss state)
  case Nil
  then show ?case by simp
next
  case (Cons a rs)
  show ?case
  proof (cases "r = a")
    case True
    with Cons.prems have "cr_id r \<notin> cr_id ` set rs" by auto
    with True show ?thesis by (simp add: Let_def reconcile_other split: option.splits)
  next
    case False
    with Cons.prems have mem: "r \<in> set rs" "distinct (map cr_id rs)" by auto
    from Cons.prems mem(1) have "cr_id r \<noteq> cr_id a"
      by (auto, metis imageI)
    with Cons.IH [OF mem(2,1)] show ?thesis by (simp add: Let_def)
  qed
qed

lemma get_old_defs:
  assumes "distinct (map cr_id rs)"
  shows "hm_get (fold (\<lambda>(k, v). hm_insert k v) (map (\<lambda>r. (cr_id r, r)) rs) []) k = Some r \<longleftrightarrow>
    r \<in> set rs \<and> cr_id r = k"
proof -
  have "distinct (map fst (map (\<lambda>r. (cr_id r, r)) rs))"
    using assms by (simp add: comp_def)
  from map_of_rev_distinct [OF this] map_of_eq_Some_iff [OF this, of k r] show ?thesis
    by (auto simp: hm.look_collect split: option.splits)
qed

lemma case_Some_iff: "(case x of None \<Rightarrow> False | Some y \<Rightarrow> P y) \<longleftrightarrow> (\<exists>y. x = Some y \<and> P y)"
  by (cases x) auto

lemma unchanged_rule_iff:
  assumes "engine_wf cel c e"
  shows "(case hm_get (fold (\<lambda>(k, v). hm_insert k v) (map (\<lambda>r. (cr_id r, r)) (crs_rules (eng_rules e))) [])
        (cr_id r) of None \<Rightarrow> False | Some old \<Rightarrow> rule_eq (cr_def old) (cr_def r)) \<longleftrightarrow> unchanged_rule e r"
proof -
  have "rule_eq (cr_def old) (cr_def r) \<Longrightarrow> cr_id old = cr_id r" for old :: "'a compiled_rule"
    by (simp add: rule_eq_def cr_id_def)
  then show ?thesis
    by (auto simp: case_Some_iff get_old_defs [OF engine_wfD(1) [OF assms]] unchanged_rule_def)
qed

lemma apply_ruleset_sel [simp]:
  "eng_vin (apply_ruleset now new e) = eng_vin e" "eng_model (apply_ruleset now new e) = eng_model e"
  "eng_rules (apply_ruleset now new e) = new" "eng_latest (apply_ruleset now new e) = eng_latest e"
  "eng_on_change (apply_ruleset now new e) = index_on_change 0 (crs_rules new) []"
  by (simp_all add: apply_ruleset_def Let_def)

lemma apply_ruleset_state:
  assumes "engine_wf cel c e" and "rules_wf cel c' new" and "r \<in> set (crs_rules new)"
  shows "hm_get (eng_state (apply_ruleset now new e)) (cr_id r) = Some (carried_state now e r)"
  using assms(2,3) unchanged_rule_iff [OF assms(1), of r]
  by (simp add: apply_ruleset_def Let_def rules_wf_def reconcile_rule carried_state_def)

lemma apply_ruleset_dropped:
  "k \<notin> cr_id ` set (crs_rules new) \<Longrightarrow> hm_get (eng_state (apply_ruleset now new e)) k = None"
  by (simp add: apply_ruleset_def Let_def reconcile_other)

lemma behaviour_for_periodic:
  "behaviour_for (cr_def r) s (cr_behaviour r) \<Longrightarrow> is_periodic r \<longleftrightarrow> rule_mode (cr_def r) = ModePeriodic"
  by (cases "cr_behaviour r") (simp_all add: is_periodic_def)

lemma rule_wf_periodic: "rule_wf cel c r \<Longrightarrow> is_periodic r \<longleftrightarrow> rule_mode (cr_def r) = ModePeriodic"
  by (auto simp: rule_wf_def dest: behaviour_for_periodic)

lemma fresh_state_due: "next_due_ms (fresh_state now r) \<noteq> None \<longleftrightarrow> is_periodic r"
  by (simp add: fresh_state_def is_periodic_def split: behaviour.splits)

lemma carried_state_due:
  assumes "engine_wf cel c e" and "rule_wf cel c' r"
  shows "next_due_ms (carried_state now e r) \<noteq> None \<longleftrightarrow> is_periodic r"
proof (cases "unchanged_rule e r")
  case True
  then obtain old where old: "old \<in> set (crs_rules (eng_rules e))" "rule_eq (cr_def old) (cr_def r)"
    by (auto simp: unchanged_rule_def)
  from engine_wfD(2,3) [OF assms(1) old(1)] obtain st where
    wf: "rule_wf cel c old" and st: "hm_get (eng_state e) (cr_id old) = Some st" by blast
  from old(2) have ids: "cr_id old = cr_id r" "rule_mode (cr_def old) = rule_mode (cr_def r)"
    by (simp_all add: rule_eq_def cr_id_def)
  from engine_wfD(4) [OF assms(1)] old(1) st have "next_due_ms st \<noteq> None \<longleftrightarrow> is_periodic old"
    by (auto simp: state_wf_def)
  with True st ids rule_wf_periodic [OF wf] rule_wf_periodic [OF assms(2)] show ?thesis
    by (simp add: carried_state_def)
next
  case False
  with fresh_state_due [of now r] show ?thesis by (simp add: carried_state_def)
qed

section \<open>Preservation of the invariant\<close>

lemma on_change_step_due: "next_due_ms (fst (on_change_step cel e smp r st)) = next_due_ms st"
  by (simp add: on_change_step_def log_if_def split: behaviour.splits result.splits bool.splits)

lemma periodic_step_due:
  "next_due_ms (fst (periodic_step cel e now r st)) =
    (case cr_behaviour r of
       OnChange _ \<Rightarrow> next_due_ms st
     | Periodic interval _ \<Rightarrow>
         (case next_due_ms st of
            None \<Rightarrow> None
          | Some due \<Rightarrow> Some (if due \<le> now then next_slot now due interval else due)))"
  by (auto simp: periodic_step_def is_due_def log_if_def Let_def
      split: behaviour.splits result.splits bool.splits option.splits)

lemma state_wf_update:
  assumes "state_wf crs state" and "hm_wf state'"
    and "\<And>k. hm_get state' k = None \<longleftrightarrow> hm_get state k = None"
    and "\<And>r st st'. r \<in> set (crs_rules crs) \<Longrightarrow> hm_get state (cr_id r) = Some st \<Longrightarrow>
      hm_get state' (cr_id r) = Some st' \<Longrightarrow> next_due_ms st' = None \<longleftrightarrow> next_due_ms st = None"
  shows "state_wf crs state'"
  using assms unfolding state_wf_def by (metis not_None_eq)

lemma on_sample_wf:
  assumes "engine_wf cel c e"
  shows "engine_wf cel c (fst (on_sample cel now smp e))"
proof -
  have "state_wf (eng_rules e) (eng_state (fst (on_sample cel now smp e)))"
  proof (rule state_wf_update [OF engine_wfD(4) [OF assms]])
    show "hm_wf (eng_state (fst (on_sample cel now smp e)))"
      using engine_wfD(4) [OF assms] by (simp add: on_sample_eq [OF assms] split_beta oc.loop_wf state_wf_def)
    show "hm_get (eng_state (fst (on_sample cel now smp e))) k = None \<longleftrightarrow> hm_get (eng_state e) k = None" for k
      by (simp add: on_sample_eq [OF assms] split_beta oc.loop_dom)
  qed (auto simp: on_sample_state [OF assms] on_change_step_due split: if_splits)
  with assms show ?thesis
    by (simp add: engine_wf_def on_sample_fst [OF assms] observe_def)
qed

lemma tick_wf:
  assumes "engine_wf cel c e"
  shows "engine_wf cel c (fst (tick cel now e))"
proof -
  have "state_wf (eng_rules e) (eng_state (fst (tick cel now e)))"
  proof (rule state_wf_update [OF engine_wfD(4) [OF assms]])
    show "hm_wf (eng_state (fst (tick cel now e)))"
      using engine_wfD(4) [OF assms] by (simp add: tick_eq per.loop_wf state_wf_def)
    show "hm_get (eng_state (fst (tick cel now e))) k = None \<longleftrightarrow> hm_get (eng_state e) k = None" for k
      by (simp add: tick_eq per.loop_dom)
  qed (auto simp: tick_state [OF assms] periodic_step_due split: behaviour.splits option.splits)
  with assms show ?thesis by (simp add: engine_wf_def)
qed

lemma apply_ruleset_wf:
  assumes "engine_wf cel c e" and "rules_wf cel c new"
  shows "engine_wf cel c (apply_ruleset now new e)"
proof -
  have "state_wf new (eng_state (apply_ruleset now new e))"
    unfolding state_wf_def
  proof (intro conjI allI ballI impI)
    show "hm_wf (eng_state (apply_ruleset now new e))"
      by (simp add: apply_ruleset_def Let_def hm_wf_reconcile)
    show "hm_get (eng_state (apply_ruleset now new e)) k = None \<longleftrightarrow> k \<notin> cr_id ` set (crs_rules new)" for k
      using apply_ruleset_state [OF assms] apply_ruleset_dropped by fastforce
    fix r st
    assume r: "r \<in> set (crs_rules new)" and "hm_get (eng_state (apply_ruleset now new e)) (cr_id r) = Some st"
    then have "st = carried_state now e r" by (simp add: apply_ruleset_state [OF assms r])
    moreover have "rule_wf cel c r" using assms(2) r by (simp add: rules_wf_def list_all_iff)
    ultimately show "next_due_ms st \<noteq> None \<longleftrightarrow> is_periodic r"
      using carried_state_due [OF assms(1)] by simp
  qed
  with assms show ?thesis
    by (simp add: engine_wf_def hm_wf_index get_index_on_change Let_def)
qed

end
