(* ===== verification/Handlers.thy ===== *)
theory Handlers
  imports Prelude
begin

text \<open>
  Components that handle one event at a time: a handler maps an event and a state to the new state
  and an output, and a run feeds it a list of events. The locale \<open>handler_system\<close> lifts an invariant
  of the single steps to runs; the locale \<open>simulation\<close> lifts a correspondence between two handlers.
\<close>

fun run :: "('ev \<Rightarrow> 's \<Rightarrow> 's \<times> 'o) \<Rightarrow> 'ev list \<Rightarrow> 's \<Rightarrow> 's \<times> 'o list" where
  "run h [] s = (s, [])"
| "run h (ev # evs) s =
     (case h ev s of (s', out) \<Rightarrow> (case run h evs s' of (s'', outs) \<Rightarrow> (s'', out # outs)))"

lemma run_Cons [simp]:
  "fst (run h (ev # evs) s) = fst (run h evs (fst (h ev s)))"
  "snd (run h (ev # evs) s) = snd (h ev s) # snd (run h evs (fst (h ev s)))"
  by (simp_all add: split_beta)

declare run.simps(2) [simp del]

lemma run_append:
  "fst (run h (xs @ ys) s) = fst (run h ys (fst (run h xs s)))"
  "snd (run h (xs @ ys) s) = snd (run h xs s) @ snd (run h ys (fst (run h xs s)))"
  by (induction xs arbitrary: s) simp_all

lemma length_run [simp]: "length (snd (run h evs s)) = length evs"
  by (induction evs arbitrary: s) simp_all

locale handler_system =
  fixes handle :: "'ev \<Rightarrow> 's \<Rightarrow> 's \<times> 'o" and inv :: "'s \<Rightarrow> bool" and legal :: "'ev \<Rightarrow> bool"
  assumes inv_handle: "inv s \<Longrightarrow> legal ev \<Longrightarrow> inv (fst (handle ev s))"
begin

lemma inv_run: "inv s \<Longrightarrow> list_all legal evs \<Longrightarrow> inv (fst (run handle evs s))"
  by (induction evs arbitrary: s) (auto intro: inv_handle)

lemma outputs_hold:
  assumes "\<And>s ev. inv s \<Longrightarrow> legal ev \<Longrightarrow> good (snd (handle ev s))"
  shows "inv s \<Longrightarrow> list_all legal evs \<Longrightarrow> list_all good (snd (run handle evs s))"
  by (induction evs arbitrary: s) (auto intro: inv_handle assms)

end

text \<open>
  A simulation: an abstract handler follows the concrete one on related states, and its output is
  the projection of the concrete output.
\<close>

locale simulation = handler_system handle inv legal
  for handle :: "'ev \<Rightarrow> 's \<Rightarrow> 's \<times> 'o" and inv :: "'s \<Rightarrow> bool" and legal :: "'ev \<Rightarrow> bool" +
  fixes ahandle :: "'ev \<Rightarrow> 'a \<Rightarrow> 'a \<times> 'b" and rel :: "'s \<Rightarrow> 'a \<Rightarrow> bool" and proj :: "'o \<Rightarrow> 'b"
  assumes rel_step: "inv s \<Longrightarrow> legal ev \<Longrightarrow> rel s a \<Longrightarrow>
      rel (fst (handle ev s)) (fst (ahandle ev a)) \<and> snd (ahandle ev a) = proj (snd (handle ev s))"
begin

lemma rel_run:
  "inv s \<Longrightarrow> list_all legal evs \<Longrightarrow> rel s a \<Longrightarrow>
    rel (fst (run handle evs s)) (fst (run ahandle evs a))
    \<and> snd (run ahandle evs a) = map proj (snd (run handle evs s))"
proof (induction evs arbitrary: s a)
  case Nil
  then show ?case by simp
next
  case (Cons ev evs)
  then show ?case
    using rel_step [of s ev a] inv_handle [of s ev] Cons.IH [of "fst (handle ev s)" "fst (ahandle ev a)"]
    by simp
qed

end

end
