(* ===== verification/Engine_Traces.thy ===== *)
theory Engine_Traces
  imports Engine_Props Handlers
begin

text \<open>
  Runs of the engine. The engine is a handler of samples, ticks and rule set swaps that keeps its
  invariant; between swaps it is the product of single-rule machines, each seeing the same events.
  From the machines follow the two rates of a rule: an unconditional \<open>on_change\<close> rule logs exactly the
  deadband filter of its signal, and a periodic rule logs at most once per interval.
\<close>

section \<open>The engine as a handler\<close>

datatype 'p event = Sampled u64 sample | Ticked u64 | Swapped u64 "'p compiled_ruleset"

fun engine_handle :: "('p, 'v) cel \<Rightarrow> 'p event \<Rightarrow> 'p engine \<Rightarrow> 'p engine \<times> eval_report" where
  "engine_handle cel (Sampled now smp) e = on_sample cel now smp e"
| "engine_handle cel (Ticked now) e = tick cel now e"
| "engine_handle cel (Swapped now new) e = (apply_ruleset now new e, report_default)"

fun event_ok :: "('p, 'v) cel \<Rightarrow> catalog \<Rightarrow> 'p event \<Rightarrow> bool" where
  "event_ok cel c (Swapped now new) \<longleftrightarrow> rules_wf cel c new"
| "event_ok cel c _ \<longleftrightarrow> True"

interpretation eng: handler_system "engine_handle cel" "engine_wf cel c" "event_ok cel c" for cel c
proof
  fix s ev
  assume "engine_wf cel c s" "event_ok cel c ev"
  then show "engine_wf cel c (fst (engine_handle cel ev s))"
    by (cases ev) (simp_all add: on_sample_wf tick_wf apply_ruleset_wf)
qed

section \<open>One rule\<close>

definition project :: "string \<Rightarrow> eval_report \<Rightarrow> eval_report" where
  "project i rep =
     \<lparr>records = filter (\<lambda>l. lr_rule_id l = i) (records rep),
      eval_errors = filter (\<lambda>x. fst x = i) (eval_errors rep),
      stale_skips = filter (\<lambda>x. x = i) (stale_skips rep)\<rparr>"

definition only_of :: "string \<Rightarrow> eval_report \<Rightarrow> bool" where
  "only_of i rep \<longleftrightarrow>
     (\<forall>l\<in>set (records rep). lr_rule_id l = i) \<and> (\<forall>x\<in>set (eval_errors rep). fst x = i)
     \<and> (\<forall>x\<in>set (stale_skips rep). x = i)"

lemma project_default [simp]: "project i report_default = report_default"
  by (simp add: project_def report_default_def)

lemma project_add: "project i (report_add a b) = report_add (project i a) (project i b)"
  by (simp add: project_def report_add_def)

lemma project_same: "only_of i rep \<Longrightarrow> project i rep = rep"
  by (cases rep) (simp add: project_def only_of_def filter_id_conv)

lemma project_other: "only_of j rep \<Longrightarrow> i \<noteq> j \<Longrightarrow> project i rep = report_default"
  by (cases rep) (auto simp: project_def only_of_def report_default_def filter_empty_conv)

lemma only_of_default [simp]: "only_of i report_default"
  by (simp add: only_of_def)

lemma only_of_log_if: "lr_rule_id l = i \<Longrightarrow> only_of i (snd (log_if vd v l st))"
  by (simp add: log_if_def only_of_def split: result.splits bool.splits)

lemma only_of_steps:
  "only_of (cr_id r) (snd (on_change_step cel e smp r st))"
  "only_of (cr_id r) (snd (periodic_step cel e now r st))"
   by (simp_all add: on_change_step_def periodic_step_def only_of_log_if Let_def
      split: behaviour.splits option.splits) (simp add: only_of_def)

lemma only_of_keyed_out:
  "(\<And>r s. only_of (cr_id r) (snd (step r s))) \<Longrightarrow> only_of (cr_id r) (keyed_out cr_id step m r)"
  by (simp add: keyed_out_def split: option.splits)

lemma project_concat:
  assumes "\<And>r s. only_of (cr_id r) (snd (step r s))" and "distinct (map cr_id rs)"
  shows "project (cr_id r) (report_concat (map (keyed_out cr_id step m) rs)) =
    (if cr_id r \<in> cr_id ` set rs
     then keyed_out cr_id step m (the (find (\<lambda>a. cr_id a = cr_id r) rs)) else report_default)"
  using assms(2)
proof (induction rs)
  case Nil
  then show ?case by simp
next
  case (Cons a rs)
  note only = only_of_keyed_out [OF assms(1), where m = m]
  show ?case
  proof (cases "cr_id a = cr_id r")
    case True
    with Cons show ?thesis using project_same [OF only, of a]
      by (simp add: project_add)
  next
    case False
    with Cons show ?thesis using project_other [OF only, of "cr_id r" a]
      by (auto simp: project_add)
  qed
qed

lemma find_id: "distinct (map cr_id rs) \<Longrightarrow> r \<in> set rs \<Longrightarrow> find (\<lambda>a. cr_id a = cr_id r) rs = Some r"
  by (induction rs) (auto simp: rev_image_eqI)

lemma project_member:
  assumes "\<And>r s. only_of (cr_id r) (snd (step r s))" and "distinct (map cr_id rs)" and "r \<in> set rs"
  shows "project (cr_id r) (report_concat (map (keyed_out cr_id step m) rs)) = keyed_out cr_id step m r"
  using assms(3) by (simp add: project_concat [OF assms(1,2)] find_id [OF assms(2,3)])

lemma project_nonmember:
  assumes "\<And>r s. only_of (cr_id r) (snd (step r s))" and "distinct (map cr_id rs)"
    and "cr_id r \<notin> cr_id ` set rs"
  shows "project (cr_id r) (report_concat (map (keyed_out cr_id step m) rs)) = report_default"
  using assms(3) by (simp add: project_concat [OF assms(1,2)])

lemma project_on_change:
  assumes "distinct (map cr_id rs)" and "r \<in> set rs"
  shows "project (cr_id r) (report_concat (map (keyed_out cr_id (on_change_step cel e smp) m) rs)) =
    keyed_out cr_id (on_change_step cel e smp) m r"
  using only_of_steps(1) assms by (rule project_member)

lemma project_periodic:
  assumes "distinct (map cr_id rs)" and "r \<in> set rs"
  shows "project (cr_id r) (report_concat (map (keyed_out cr_id (periodic_step cel e now) m) rs)) =
    keyed_out cr_id (periodic_step cel e now) m r"
  using only_of_steps(2) assms by (rule project_member)

lemma project_silent:
  assumes "distinct (map cr_id rs)" and "cr_id r \<notin> cr_id ` set rs"
  shows "project (cr_id r) (report_concat (map (keyed_out cr_id (on_change_step cel e smp) m) rs)) =
    report_default"
  using only_of_steps(1) assms by (rule project_nonmember)

text \<open>
  The machine of one rule: its state and the latest values, in the frame of an engine that supplies
  the identity of the vehicle and the rule set.
\<close>

definition with_latest :: "'p engine \<Rightarrow> (string, latest) hmap \<Rightarrow> 'p engine" where
  "with_latest e m = e\<lparr>eng_latest := m\<rparr>"

fun rule_handle ::
  "('p, 'v) cel \<Rightarrow> 'p engine \<Rightarrow> 'p compiled_rule \<Rightarrow> 'p event
    \<Rightarrow> (string, latest) hmap \<times> rule_state \<Rightarrow> ((string, latest) hmap \<times> rule_state) \<times> eval_report" where
  "rule_handle cel e r (Sampled now smp) (m, st) =
     (let e' = observe now smp (with_latest e m);
          (st', rep) = (if listens (smp_name smp) r then on_change_step cel e' smp r st
                        else (st, report_default))
      in ((eng_latest e', st'), rep))"
| "rule_handle cel e r (Ticked now) (m, st) =
     (let (st', rep) = periodic_step cel (with_latest e m) now r st in ((m, st'), rep))"
| "rule_handle cel e r (Swapped now new) (m, st) = ((m, st), report_default)"

fun is_swap :: "'p event \<Rightarrow> bool" where
  "is_swap (Swapped _ _) = True"
| "is_swap _ = False"

text \<open>An engine in the same frame, where rule \<open>r\<close> has state \<open>st\<close> and \<open>m\<close> holds the latest values.\<close>

definition tracks ::
  "'p engine \<Rightarrow> 'p compiled_rule \<Rightarrow> 'p engine \<Rightarrow> (string, latest) hmap \<times> rule_state \<Rightarrow> bool" where
  "tracks e r e' ms \<longleftrightarrow>
     eng_vin e' = eng_vin e \<and> eng_model e' = eng_model e \<and> eng_rules e' = eng_rules e
     \<and> r \<in> set (crs_rules (eng_rules e))
     \<and> eng_latest e' = fst ms \<and> hm_get (eng_state e') (cr_id r) = Some (snd ms)"

lemma step_frame:
  assumes "eng_vin e' = eng_vin e" "eng_model e' = eng_model e" "eng_rules e' = eng_rules e"
    "eng_latest e' = eng_latest e"
  shows "on_change_step cel e' smp r st = on_change_step cel e smp r st"
    and "periodic_step cel e' now r st = periodic_step cel e now r st"
proof -
  have frame: "log_record_of e' = log_record_of e"
    using assms by (simp add: log_record_of_def fun_eq_iff)
  show "on_change_step cel e' smp r st = on_change_step cel e smp r st"
    and "periodic_step cel e' now r st = periodic_step cel e now r st"
    unfolding on_change_step_def periodic_step_def assms(4) frame by (rule refl)+
qed

lemma tracks_sample:
  assumes wf: "engine_wf cel c e'" and tr: "tracks e r e' (m, st)"
  shows "tracks e r (fst (on_sample cel now smp e')) (fst (rule_handle cel e r (Sampled now smp) (m, st)))
    \<and> snd (rule_handle cel e r (Sampled now smp) (m, st)) = project (cr_id r) (snd (on_sample cel now smp e'))"
proof -
  let ?f = "observe now smp (with_latest e m)"
  from tr have mem: "r \<in> set (crs_rules (eng_rules e'))" and st: "hm_get (eng_state e') (cr_id r) = Some st"
    by (simp_all add: tracks_def)
  have step: "on_change_step cel (observe now smp e') smp r st = on_change_step cel ?f smp r st"
    using tr by (intro step_frame) (simp_all add: tracks_def with_latest_def observe_def)
  have lat: "eng_latest (observe now smp e') = eng_latest ?f"
    using tr by (simp add: tracks_def with_latest_def observe_def)
  have dist: "distinct (map cr_id (listeners e' (smp_name smp)))"
    by (rule distinct_listeners [OF wf])
  have out: "keyed_out cr_id (on_change_step cel (observe now smp e') smp) (eng_state e') r
      = snd (on_change_step cel ?f smp r st)"
    using st by (simp add: keyed_out_def step)
  show ?thesis
  proof (cases "listens (smp_name smp) r")
    case True
    then have "r \<in> set (listeners e' (smp_name smp))" using mem by (simp add: listeners_def)
    note project_on_change [OF dist this, where cel = cel]
    with tr on_sample_state [OF wf mem st, of now smp] True out show ?thesis
      by (simp add: tracks_def on_sample_fst [OF wf] on_sample_report [OF wf] lat step split_beta Let_def)
  next
    case False
    then have "cr_id r \<notin> cr_id ` set (listeners e' (smp_name smp))"
      using mem engine_wfD(1) [OF wf] by (auto simp: listeners_def distinct_map inj_on_def)
    note project_silent [OF dist this, where cel = cel]
    with tr on_sample_state [OF wf mem st, of now smp] False show ?thesis
      by (simp add: tracks_def on_sample_fst [OF wf] on_sample_report [OF wf] lat split_beta Let_def)
  qed
qed

lemma tracks_tick:
  assumes wf: "engine_wf cel c e'" and tr: "tracks e r e' (m, st)"
  shows "tracks e r (fst (tick cel now e')) (fst (rule_handle cel e r (Ticked now) (m, st)))
    \<and> snd (rule_handle cel e r (Ticked now) (m, st)) = project (cr_id r) (snd (tick cel now e'))"
proof -
  from tr have mem: "r \<in> set (crs_rules (eng_rules e'))" and st: "hm_get (eng_state e') (cr_id r) = Some st"
    by (simp_all add: tracks_def)
  have step: "periodic_step cel e' now r st = periodic_step cel (with_latest e m) now r st"
    using tr by (intro step_frame) (simp_all add: tracks_def with_latest_def)
  have "keyed_out cr_id (periodic_step cel e' now) (eng_state e') r
      = snd (periodic_step cel (with_latest e m) now r st)"
    using st by (simp add: keyed_out_def step)
  with project_periodic [OF engine_wfD(1) [OF wf] mem, where cel = cel] show ?thesis
    using tr tick_state [OF wf mem st, of now]
    by (simp add: tracks_def tick_report [OF wf] step split_beta)
qed

interpretation rule_sim: simulation "engine_handle cel" "engine_wf cel c" "\<lambda>ev. \<not> is_swap ev"
  "rule_handle cel e r" "tracks e r" "project (cr_id r)" for cel c e r
proof (unfold_locales, goal_cases)
  case (1 s ev)
  then show ?case
    by (cases ev) (simp_all add: on_sample_wf tick_wf)
next
  case (2 s ev a)
  obtain m st where a: "a = (m, st)" by (cases a)
  show ?case
    using 2(2) tracks_sample [OF 2(1) 2(3) [unfolded a]] tracks_tick [OF 2(1) 2(3) [unfolded a]]
    by (cases ev) (simp_all add: a)
qed

end
