(* ===== verification/Float64_Ops.thy ===== *)
theory Float64_Ops
  imports Float64
begin

text \<open>
  The further operations of \<open>f64\<close> that the simulator uses: \<open>min\<close>, \<open>max\<close>, \<open>clamp\<close>, the remainder and
  the non-strict comparison. The remainder of two numbers is exact. \<open>min\<close> and \<open>max\<close> return the other
  argument when one is NaN; which of two equal arguments they return is unspecified for zeros of
  different sign, and nothing below depends on it.
\<close>

definition f64_is_nan :: "f64 \<Rightarrow> bool" where
  "f64_is_nan x \<longleftrightarrow> view64 x = FNan"

definition f64_le :: "f64 \<Rightarrow> f64 \<Rightarrow> bool" where
  "f64_le a b \<longleftrightarrow> f64_lt a b \<or> f64_eq a b"

definition f64_min :: "f64 \<Rightarrow> f64 \<Rightarrow> f64" where
  "f64_min a b = (if f64_is_nan a then b else if f64_is_nan b then a else if f64_lt b a then b else a)"

definition f64_max :: "f64 \<Rightarrow> f64 \<Rightarrow> f64" where
  "f64_max a b = (if f64_is_nan a then b else if f64_is_nan b then a else if f64_lt a b then b else a)"

definition f64_clamp :: "f64 \<Rightarrow> f64 \<Rightarrow> f64 \<Rightarrow> f64" where
  "f64_clamp x lo hi = (if f64_lt x lo then lo else if f64_lt hi x then hi else x)"

text \<open>\<open>a % b\<close>: the sign of \<open>a\<close>, and exact.\<close>

definition f64_rem :: "f64 \<Rightarrow> f64 \<Rightarrow> f64" where
  "f64_rem a b =
     (case (view64 a, view64 b) of
        (FNum s m e, FNum u k g) \<Rightarrow>
          if k = 0 then f64_nan
          else (let h = min e g
                in mk64 s (round_mag binary64 ((m * 2 ^ nat (e - h)) mod (k * 2 ^ nat (g - h))) 1 h))
      | (FNum _ _ _, FInf _) \<Rightarrow> a
      | _ \<Rightarrow> f64_nan)"

end
