(* ===== verification/Float_Format.thy ===== *)
theory Float_Format
  imports Float64_Ops
begin

text \<open>
  Rounding in any binary format: a magnitude that does not overflow is rounded to a number of the format
  that is off by at most half a unit in the last place. \<open>Float64_Real\<close> instantiates this for \<open>f64\<close>,
  \<open>Float32_Error\<close> for \<open>f32\<close>.
\<close>

section \<open>Rounding\<close>

text \<open>Nearest integer.\<close>

lemma rne_error:
  assumes "0 < d"
  shows "\<bar>of_int (rne n d) - of_int n / of_int d\<bar> \<le> (1 / 2 :: real)"
proof -
  define q r where "q = n div d" and "r = n mod d"
  have n: "n = q * d + r" and r: "0 \<le> r" "r < d" using assms by (simp_all add: q_def r_def)
  have real: "of_int n / of_int d = of_int q + of_int r / (of_int d :: real)"
    using assms by (simp add: n field_simps)
  have "rne n d = (if 2 * r < d then q else if d < 2 * r then q + 1 else if even q then q else q + 1)"
    by (simp add: rne_def Let_def q_def r_def)
  moreover have "2 * r \<le> d \<Longrightarrow> of_int r / of_int d \<le> (1 / 2 :: real)"
    using assms by (simp add: field_simps)
  moreover have "d \<le> 2 * r \<Longrightarrow> (1 / 2 :: real) \<le> of_int r / of_int d"
    using assms by (simp add: field_simps)
  moreover have "0 \<le> of_int r / (of_int d :: real)" "of_int r / (of_int d :: real) < 1"
    using r assms by (simp_all add: field_simps)
  ultimately show ?thesis unfolding real by (auto split: if_splits)
qed

lemma rne_exact: "0 < d \<Longrightarrow> rne (x * d) d = x"
  by (simp add: rne_def Let_def)

lemma rne_between:
  assumes "0 < d" and "of_int a \<le> of_int n / (of_int d :: real)" and "of_int n / (of_int d :: real) \<le> of_int b"
  shows "a \<le> rne n d" and "rne n d \<le> b"
proof -
  have "(of_int a :: real) - 1 / 2 \<le> of_int (rne n d)" "of_int (rne n d) \<le> (of_int b :: real) + 1 / 2"
    using rne_error [OF assms(1), of n] assms(2,3) unfolding abs_le_iff by linarith+
  then show "a \<le> rne n d" "rne n d \<le> b" by linarith+
qed

text \<open>Leading bits.\<close>

lemma ilog2_bounds: "1 \<le> n \<Longrightarrow> 2 ^ ilog2 n \<le> n \<and> n < 2 ^ Suc (ilog2 n)"
proof (induction n rule: ilog2.induct)
  case (1 n)
  show ?case
  proof (cases "n < 2")
    case True
    with 1 show ?thesis by (simp add: ilog2.simps [of n])
  next
    case False
    then have "1 \<le> n div 2" by simp
    with 1(1) [OF False] have "2 ^ ilog2 (n div 2) \<le> n div 2" "n div 2 < 2 ^ Suc (ilog2 (n div 2))" by simp_all
    moreover have "ilog2 n = Suc (ilog2 (n div 2))" using False by (subst ilog2.simps) simp
    ultimately show ?thesis using False by simp linarith
  qed
qed

lemma ilog2_real:
  assumes "0 < n"
  shows "(2 :: real) ^ ilog2 n \<le> of_int n" and "of_int n < (2 :: real) * 2 ^ ilog2 n"
proof -
  have "2 ^ ilog2 n \<le> n" "n < 2 * 2 ^ ilog2 n" using ilog2_bounds [of n] assms by simp_all
  then have "of_int (2 ^ ilog2 n) \<le> (of_int n :: real)" "(of_int n :: real) < of_int (2 * 2 ^ ilog2 n)"
    by (simp_all only: of_int_le_iff of_int_less_iff)
  then show "(2 :: real) ^ ilog2 n \<le> of_int n" and "of_int n < (2 :: real) * 2 ^ ilog2 n" by simp_all
qed

lemma ratio_log2_bounds:
  assumes "0 < n" and "0 < d"
  shows "2 powi ratio_log2 n d \<le> of_int n / (of_int d :: real)"
    and "of_int n / (of_int d :: real) < 2 powi (ratio_log2 n d + 1)"
proof -
  let ?L = "ilog2 n" and ?M = "ilog2 d"
  define k where "k = int ?L - int ?M"
  have L: "(2 :: real) ^ ?L \<le> of_int n" "of_int n < (2 :: real) * 2 ^ ?L"
    and M: "(2 :: real) ^ ?M \<le> of_int d" "of_int d < (2 :: real) * 2 ^ ?M"
    using ilog2_real assms by simp_all
  have pk: "(2 :: real) powi k = 2 ^ ?L / 2 ^ ?M"
    by (simp add: k_def power_int_diff)
  have d: "0 < (of_int d :: real)" using assms(2) by simp
  have up: "of_int n / (of_int d :: real) < 2 * 2 powi k"
  proof -
    have "of_int n * 2 ^ ?M < (2 * 2 ^ ?L) * (of_int d :: real)"
      using L(2) M(1) d assms(1) by (intro mult_less_le_imp_less) simp_all
    then show ?thesis unfolding pk using d by (simp add: field_simps)
  qed
  have low: "2 powi k / 2 < of_int n / (of_int d :: real)"
  proof -
    have "2 ^ ?L * of_int d < of_int n * (2 * 2 ^ ?M :: real)"
      using L(1) M(2) d by (intro mult_le_less_imp_less) simp_all
    then show ?thesis unfolding pk using d by (simp add: field_simps)
  qed
  have test: "(if 0 \<le> k then d * 2 ^ nat k \<le> n else d \<le> n * 2 ^ nat (- k))
      \<longleftrightarrow> 2 powi k \<le> of_int n / (of_int d :: real)"
  proof (cases "0 \<le> k")
    case True
    have "d * 2 ^ nat k \<le> n \<longleftrightarrow> of_int d * 2 ^ nat k \<le> (of_int n :: real)"
      unfolding of_int_le_iff [where 'a = real, symmetric] by simp
    with True d show ?thesis by (simp add: power_int_def field_simps)
  next
    case False
    have "d \<le> n * 2 ^ nat (- k) \<longleftrightarrow> of_int d \<le> of_int n * (2 :: real) ^ nat (- k)"
      unfolding of_int_le_iff [where 'a = real, symmetric] by simp
    with False d show ?thesis by (simp add: power_int_def field_simps)
  qed
  have ratio: "ratio_log2 n d = (if 2 powi k \<le> of_int n / (of_int d :: real) then k else k - 1)"
    unfolding ratio_log2_def Let_def k_def [symmetric] test by (rule refl)
  have half: "(2 :: real) powi (k - 1) = 2 powi k / 2" and twice: "(2 :: real) powi (k + 1) = 2 * 2 powi k"
    by (simp_all add: power_int_diff power_int_add)
  show "2 powi ratio_log2 n d \<le> of_int n / (of_int d :: real)"
  proof (cases "2 powi k \<le> of_int n / (of_int d :: real)")
    case True
    then have "ratio_log2 n d = k" unfolding ratio by simp
    with True show ?thesis by simp
  next
    case False
    then have "ratio_log2 n d = k - 1" unfolding ratio by simp
    then show ?thesis using less_imp_le [OF low] by (simp only: half)
  qed
  show "of_int n / (of_int d :: real) < 2 powi (ratio_log2 n d + 1)"
  proof (cases "2 powi k \<le> of_int n / (of_int d :: real)")
    case True
    then have "ratio_log2 n d = k" unfolding ratio by simp
    then show ?thesis using up by (simp only: twice)
  next
    case False
    then have "ratio_log2 n d = k - 1" unfolding ratio by simp
    with False show ?thesis by simp
  qed
qed

lemma pow_nat: "0 \<le> k \<Longrightarrow> (2 :: real) ^ nat k = 2 powi k"
  by (simp add: power_int_def)

lemma pow_shift: "(2 :: real) ^ k * 2 powi u = 2 powi (u + int k)"
  by (simp add: power_int_add)

lemma pow_half: "(2 :: real) powi u / 2 = 2 powi (u - 1)"
  by (simp add: power_int_diff)

section \<open>The significand at a given exponent\<close>

definition sig_at :: "int \<Rightarrow> int \<Rightarrow> int \<Rightarrow> int \<Rightarrow> int" where
  "sig_at u n d e =
     (let k = e - u
      in if 0 \<le> k then rne (n * 2 ^ nat k) d else rne n (d * 2 ^ nat (- k)))"

lemma sig_at_ratio:
  assumes "0 < d"
  obtains n' d' where "0 < d'" and "sig_at u n d e = rne n' d'"
    and "of_int n' / of_int d' = (of_int n / of_int d * 2 powi e / 2 powi u :: real)"
proof (cases "0 \<le> e - u")
  case True
  have "(2 :: real) ^ nat (e - u) = 2 powi e / 2 powi u"
    unfolding pow_nat [OF True] by (simp add: power_int_diff)
  then show ?thesis
    using that [of d "n * 2 ^ nat (e - u)"] True assms by (simp add: sig_at_def)
next
  case False
  have "(2 :: real) ^ nat (- (e - u)) = 2 powi u / 2 powi e"
    using pow_nat [of "- (e - u)"] False by (simp add: power_int_diff)
  then show ?thesis
    using that [of "d * 2 ^ nat (- (e - u))" n] False assms by (simp add: sig_at_def)
qed

lemma sig_at_error:
  assumes "0 < d"
  shows "\<bar>of_int (sig_at u n d e) - of_int n / of_int d * 2 powi e / 2 powi u\<bar> \<le> (1 / 2 :: real)"
proof -
  obtain n' d' where d': "0 < d'" and sig: "sig_at u n d e = rne n' d'"
    and x: "of_int n' / of_int d' = (of_int n / of_int d * 2 powi e / 2 powi u :: real)"
    using sig_at_ratio [OF assms] .
  show ?thesis unfolding sig x [symmetric] by (rule rne_error [OF d'])
qed

section \<open>The exponent of the last place\<close>

definition ulp_at :: "float_format \<Rightarrow> int \<Rightarrow> int \<Rightarrow> int \<Rightarrow> int" where
  "ulp_at f n d e = max (ratio_log2 n d + e - int (frac_bits f)) (emin f)"

lemma round_mag_at:
  "0 < n \<Longrightarrow> round_mag f n d e =
    min ((ulp_at f n d e - emin f) * 2 ^ frac_bits f + sig_at (ulp_at f n d e) n d e) (inf_bits f)"
  by (simp add: round_mag_def ulp_at_def sig_at_def Let_def)

lemma sig_at_range:
  fixes f n d e
  defines "u \<equiv> ulp_at f n d e"
  assumes "0 < n" and "0 < d"
  shows "0 \<le> sig_at u n d e" and "sig_at u n d e \<le> 2 ^ Suc (frac_bits f)"
    and "emin f < u \<Longrightarrow> 2 ^ frac_bits f \<le> sig_at u n d e"
proof -
  let ?t = "frac_bits f" and ?x = "of_int n / of_int d * 2 powi e / 2 powi u :: real"
  obtain n' d' where d': "0 < d'" and sig: "sig_at u n d e = rne n' d'" and x: "of_int n' / of_int d' = ?x"
    using sig_at_ratio [OF assms(3)] .
  have nd: "0 < (of_int n / of_int d :: real)" using assms by simp
  note log = ratio_log2_bounds [OF assms(2,3)]
  have P: "0 < (2 :: real) powi u" by simp
  have "of_int n / of_int d * 2 powi e < (2 :: real) powi (ratio_log2 n d + 1) * 2 powi e"
    by (rule mult_strict_right_mono [OF log(2)]) simp
  also have "\<dots> \<le> 2 powi (u + int (Suc ?t))"
    unfolding power_int_add [symmetric, OF disjI1 [OF zero_neq_numeral [symmetric]]]
    by (rule power_int_increasing) (simp_all add: u_def ulp_at_def)
  also have "\<dots> = 2 ^ Suc ?t * 2 powi u" by (rule pow_shift [symmetric])
  finally have up: "?x < 2 ^ Suc ?t" by (simp only: pos_divide_less_eq [OF P])
  have low: "2 ^ ?t \<le> ?x" if "emin f < u"
  proof -
    have "u + int ?t = ratio_log2 n d + e" using that by (simp add: u_def ulp_at_def)
    then have "2 ^ ?t * 2 powi u = (2 :: real) powi (ratio_log2 n d + e)"
      by (simp only: pow_shift)
    also have "\<dots> = 2 powi ratio_log2 n d * 2 powi e" by (simp add: power_int_add)
    also have "\<dots> \<le> of_int n / of_int d * 2 powi e" by (rule mult_right_mono [OF log(1)]) simp
    finally show ?thesis by (simp only: pos_le_divide_eq [OF P])
  qed
  have "0 \<le> ?x" using assms P by (intro divide_nonneg_pos mult_nonneg_nonneg) simp_all
  then show "0 \<le> sig_at u n d e"
    unfolding sig using d' up x by (intro rne_between(1) [of d' 0 n' "2 ^ Suc ?t"]) simp_all
  show "sig_at u n d e \<le> 2 ^ Suc ?t"
    unfolding sig using d' up x \<open>0 \<le> ?x\<close> by (intro rne_between(2) [of d' 0 n' "2 ^ Suc ?t"]) simp_all
  show "2 ^ ?t \<le> sig_at u n d e" if "emin f < u"
    unfolding sig using d' up x low [OF that] by (intro rne_between(1) [of d' "2 ^ ?t" n' "2 ^ Suc ?t"]) simp_all
qed

section \<open>Bit patterns\<close>

definition mag_view_at :: "float_format \<Rightarrow> bool \<Rightarrow> int \<Rightarrow> fview" where
  "mag_view_at f s b =
     (let t = frac_bits f
      in if b = inf_bits f then FInf s
         else if b < 2 ^ t then FNum s b (emin f)
         else FNum s (2 ^ t + b mod 2 ^ t) (emin f + (b div 2 ^ t - 1)))"

lemma pack_range:
  assumes "0 \<le> b" and "b \<le> inf_bits f"
  shows "0 \<le> pack f s b" and "pack f s b < 2 ^ Suc (frac_bits f + exp_bits f)"
proof -
  have "b < 2 ^ exp_bits f * 2 ^ frac_bits f"
    using assms(2) by (simp add: inf_bits_def left_diff_distrib)
      (metis add_less_cancel_left diff_add_cancel diff_less_eq less_add_same_cancel1 order_le_less_trans zero_less_numeral zero_less_power)
  then have "b < 2 ^ (frac_bits f + exp_bits f)" by (simp add: power_add mult.commute)
  then show "0 \<le> pack f s b" and "pack f s b < 2 ^ Suc (frac_bits f + exp_bits f)"
    using assms(1) by (simp_all add: pack_def)
qed

lemma unpack_pack:
  assumes "0 \<le> b" and "b \<le> inf_bits f" and "0 < exp_bits f"
  shows "unpack f (pack f s b) = mag_view_at f s b"
proof -
  let ?t = "frac_bits f" and ?w = "exp_bits f"
  define p :: int where "p = b + (if s then 2 ^ ?w else 0) * 2 ^ ?t"
  have p: "pack f s b = p" by (simp add: p_def pack_def power_add ac_simps)
  define E F where "E = b div 2 ^ ?t" and "F = b mod 2 ^ ?t"
  have b: "b = E * 2 ^ ?t + F" "0 \<le> F" "F < 2 ^ ?t"
    unfolding E_def F_def by (rule div_mult_mod_eq [symmetric]) simp_all
  have E0: "0 \<le> E" using assms(1) by (simp add: E_def pos_imp_zdiv_nonneg_iff)
  have "E \<le> inf_bits f div 2 ^ ?t" unfolding E_def using assms(2) by (rule zdiv_mono1) simp
  then have E1: "E < 2 ^ ?w" by (simp add: inf_bits_def)
  have div: "p div 2 ^ ?t = E + (if s then 2 ^ ?w else 0)"
    unfolding p_def E_def by (subst div_mult_self1) simp_all
  have "p div 2 ^ (?t + ?w) = (p div 2 ^ ?t) div 2 ^ ?w"
    unfolding power_add using zdiv_zmult2_eq [of "2 ^ ?w" p "2 ^ ?t"] by simp
  then have sgn: "odd (p div 2 ^ (?t + ?w)) = s"
    unfolding div using E0 E1 by (cases s) simp_all
  have ex: "(p div 2 ^ ?t) mod 2 ^ ?w = E"
    unfolding div using E0 E1 by (cases s) simp_all
  have fr: "p mod 2 ^ ?t = F"
    unfolding p_def F_def by (rule mod_mult_self1)
  have unp: "unpack f p = (if E = 2 ^ ?w - 1 then (if F = 0 then FInf s else FNan)
      else if E = 0 then FNum s F (emin f) else FNum s (2 ^ ?t + F) (emin f + (E - 1)))"
    unfolding unpack_def Let_def sgn ex fr by (rule refl)
  have top: "E = 2 ^ ?w - 1 \<longleftrightarrow> b = inf_bits f" "E = 2 ^ ?w - 1 \<Longrightarrow> F = 0"
  proof -
    show F0: "F = 0" if "E = 2 ^ ?w - 1"
      using assms(2) b unfolding inf_bits_def that by simp
    show "E = 2 ^ ?w - 1 \<longleftrightarrow> b = inf_bits f"
    proof
      assume E: "E = 2 ^ ?w - 1"
      have "b = E * 2 ^ ?t" using b(1) F0 [OF E] by (simp only: add_0_right)
      then show "b = inf_bits f" unfolding inf_bits_def E .
    next
      assume "b = inf_bits f"
      then show "E = 2 ^ ?w - 1" by (simp add: E_def inf_bits_def)
    qed
  qed
  have small: "E = 0 \<longleftrightarrow> b < 2 ^ ?t"
    using assms(1) by (auto simp: E_def div_eq_0_iff zdiv_eq_0_iff)
  have mag: "mag_view_at f s b = (if b = inf_bits f then FInf s else if b < 2 ^ ?t then FNum s b (emin f)
      else FNum s (2 ^ ?t + F) (emin f + (E - 1)))"
    unfolding mag_view_at_def E_def F_def Let_def by (rule refl)
  have "E = 0 \<Longrightarrow> F = b" using b(1) by simp
  with top small show ?thesis unfolding p unp mag by auto
qed

section \<open>Rounded magnitudes\<close>

definition fits_at :: "float_format \<Rightarrow> int \<Rightarrow> int \<Rightarrow> int \<Rightarrow> bool" where
  "fits_at f n d e \<longleftrightarrow> (ulp_at f n d e - emin f) * 2 ^ frac_bits f + sig_at (ulp_at f n d e) n d e < inf_bits f"

lemma round_mag_range_at:
  assumes "0 \<le> n" and "0 < d"
  shows "0 \<le> round_mag f n d e" and "round_mag f n d e \<le> inf_bits f"
proof -
  have inf: "0 \<le> inf_bits f" by (simp add: inf_bits_def)
  have "0 \<le> round_mag f n d e \<and> round_mag f n d e \<le> inf_bits f"
  proof (cases "n = 0")
    case True
    with inf show ?thesis by (simp add: round_mag_def)
  next
    case False
    then have n: "0 < n" using assms by simp
    have "0 \<le> ulp_at f n d e - emin f" by (simp add: ulp_at_def)
    with inf sig_at_range(1) [OF n assms(2), of f e] show ?thesis
      unfolding round_mag_at [OF n] by (intro conjI min.boundedI min.cobounded2) simp_all
  qed
  then show "0 \<le> round_mag f n d e" and "round_mag f n d e \<le> inf_bits f" by blast+
qed

text \<open>
  A magnitude that fits is rounded to a number, of the value of the significand at its exponent.
\<close>

lemma round_view_at:
  assumes n: "0 < n" and d: "0 < d" and fits: "fits_at f n d e" and w: "0 < exp_bits f"
  shows "\<exists>m q. unpack f (pack f s (round_mag f n d e)) = FNum s m q
    \<and> of_int m * 2 powi q = (of_int (sig_at (ulp_at f n d e) n d e) * 2 powi ulp_at f n d e :: real)"
proof -
  let ?t = "frac_bits f" and ?u = "ulp_at f n d e" and ?g = "sig_at (ulp_at f n d e) n d e"
  define k where "k = ?u - emin f"
  have k: "0 \<le> k" "?u = emin f + k" by (simp_all add: k_def ulp_at_def)
  have b: "round_mag f n d e = k * 2 ^ ?t + ?g"
    using fits by (simp add: round_mag_at [OF n] fits_at_def k_def)
  have top: "k * 2 ^ ?t + ?g \<noteq> inf_bits f" using fits by (simp add: fits_at_def k_def)
  note g = sig_at_range [OF n d, of f e]
  have view: "unpack f (pack f s (round_mag f n d e)) = mag_view_at f s (k * 2 ^ ?t + ?g)"
    unfolding b [symmetric] by (rule unpack_pack [OF round_mag_range_at [OF less_imp_le [OF n] d] w])
  show ?thesis
  proof (cases "?g < 2 ^ ?t")
    case True
    then have "\<not> emin f < ?u" using g(3) by linarith
    then have "k = 0" using k by simp
    then have "mag_view_at f s (k * 2 ^ ?t + ?g) = FNum s ?g ?u"
      using True top k by (simp add: mag_view_at_def)
    then show ?thesis unfolding view by simp
  next
    case False
    define j where "j = ?g div 2 ^ ?t"
    define F where "F = ?g mod 2 ^ ?t"
    have F: "?g = j * 2 ^ ?t + F" "0 \<le> F" "F < 2 ^ ?t"
      unfolding j_def F_def by (rule div_mult_mod_eq [symmetric]) simp_all
    have "1 * 2 ^ ?t \<le> ?g" "?g \<le> 2 * 2 ^ ?t" using False g(2) by simp_all
    then have j: "1 \<le> j" "j \<le> 2"
      unfolding j_def using zdiv_mono1 [of "1 * 2 ^ ?t" ?g "2 ^ ?t"] zdiv_mono1 [of ?g "2 * 2 ^ ?t" "2 ^ ?t"] by simp_all
    have sum: "k * 2 ^ ?t + ?g = F + (k + j) * 2 ^ ?t" using F(1) by (simp add: distrib_right)
    have "(F + (k + j) * 2 ^ ?t) mod 2 ^ ?t = F" "(F + (k + j) * 2 ^ ?t) div 2 ^ ?t = k + j"
      using F by simp_all
    moreover have "1 * 2 ^ ?t \<le> (k + j) * (2 ^ ?t :: int)" using k j by (intro mult_right_mono) simp_all
    then have "\<not> F + (k + j) * 2 ^ ?t < 2 ^ ?t" using F(2) by linarith
    ultimately have v: "mag_view_at f s (k * 2 ^ ?t + ?g) = FNum s (2 ^ ?t + F) (emin f + (k + j - 1))"
      using top unfolding sum mag_view_at_def Let_def by simp
    consider "j = 1" | "j = 2" using j by linarith
    then have "of_int (2 ^ ?t + F) * 2 powi (emin f + (k + j - 1)) = (of_int ?g * 2 powi ?u :: real)"
    proof cases
      case 1
      then show ?thesis using F k by simp
    next
      case 2
      then have "F = 0" using F g(2) by simp
      with 2 show ?thesis using F k pow_shift [of 1 ?u] by (simp add: ac_simps)
    qed
    then show ?thesis unfolding view v by blast
  qed
qed

text \<open>Half a unit in the last place, relative to the number.\<close>

lemma half_ulp_at:
  assumes "0 < n" and "0 < d"
  shows "2 powi ulp_at f n d e / 2
    \<le> of_int n / of_int d * 2 powi e * 2 powi (- int (frac_bits f) - 1) + (2 powi (emin f - 1) :: real)"
proof (cases "emin f \<le> ratio_log2 n d + e - int (frac_bits f)")
  case True
  then have u: "ulp_at f n d e = ratio_log2 n d + e - int (frac_bits f)" by (simp add: ulp_at_def)
  have "2 powi ratio_log2 n d * 2 powi e \<le> of_int n / of_int d * (2 powi e :: real)"
    by (intro mult_right_mono ratio_log2_bounds(1) assms) simp
  moreover have "(2 :: real) powi ulp_at f n d e / 2 = 2 powi ratio_log2 n d * 2 powi e * 2 powi (- int (frac_bits f) - 1)"
    unfolding u pow_half power_int_add [symmetric, OF disjI1 [OF zero_neq_numeral [symmetric]]]
    by (rule arg_cong [where f = "(powi) 2"]) simp
  ultimately have "2 powi ulp_at f n d e / 2 \<le> of_int n / of_int d * 2 powi e * (2 powi (- int (frac_bits f) - 1) :: real)"
    by (simp only: mult_right_mono zero_le_power_int zero_le_numeral)
  then show ?thesis by (simp add: add_increasing2)
next
  case False
  then have "ulp_at f n d e = emin f" by (simp add: ulp_at_def)
  moreover note pow_half [of "emin f"]
  moreover have "0 \<le> of_int n / of_int d * 2 powi e * (2 powi (- int (frac_bits f) - 1) :: real)" using assms by simp
  ultimately show ?thesis by simp
qed

lemma scale_error: "\<bar>g - x / u\<bar> \<le> 1 / 2 \<Longrightarrow> 0 < u \<Longrightarrow> \<bar>g * u - x\<bar> \<le> u / (2 :: real)"
proof -
  assume e: "\<bar>g - x / u\<bar> \<le> 1 / 2" and u: "0 < u"
  have "g * u - x = (g - x / u) * u" using u by (simp add: left_diff_distrib)
  then have "\<bar>g * u - x\<bar> = \<bar>g - x / u\<bar> * u" using u by (simp add: abs_mult)
  also have "\<dots> \<le> 1 / 2 * u" using e u by (intro mult_right_mono) simp_all
  finally show ?thesis by simp
qed

lemma rounded_error_at:
  assumes "0 < n" and "0 < d"
  shows "\<bar>of_int (sig_at (ulp_at f n d e) n d e) * 2 powi ulp_at f n d e - of_int n / of_int d * 2 powi e\<bar>
    \<le> of_int n / of_int d * 2 powi e * 2 powi (- int (frac_bits f) - 1) + (2 powi (emin f - 1) :: real)"
  using scale_error [OF sig_at_error [OF assms(2), of "ulp_at f n d e" n e]] half_ulp_at [OF assms, of f e]
  by (intro order_trans [OF _ half_ulp_at [OF assms]]) simp

end
