(* ===== verification/Float64_Real.thy ===== *)
theory Float64_Real
  imports Float_Format
begin

text \<open>
  What the bit-level operations of \<open>Float64\<close> mean as real numbers: the value of a bit pattern, the
  comparison as the order of the reals, the sign of results, which results are exact, and the error of one
  rounding.
\<close>

section \<open>Views and bit patterns\<close>

lemma binary64_sel [simp]: "frac_bits binary64 = 52" "exp_bits binary64 = 11"
  by (simp_all add: binary64_def)

lemma binary64_consts: "emin binary64 = - 1074" "inf_bits binary64 = 2047 * 2 ^ 52"
  by (simp_all add: emin_def inf_bits_def)

definition mag_view :: "bool \<Rightarrow> int \<Rightarrow> fview" where
  "mag_view s b =
     (if b = 2047 * 2 ^ 52 then FInf s
      else if b < 2 ^ 52 then FNum s b (- 1074)
      else FNum s (2 ^ 52 + b mod 2 ^ 52) (b div 2 ^ 52 - 1075))"

lemma view_mk64:
  assumes "0 \<le> b" and "b \<le> 2047 * 2 ^ 52"
  shows "view64 (mk64 s b) = mag_view s b"
proof -
  have b: "0 \<le> b" "b \<le> inf_bits binary64" using assms by (simp_all add: binary64_consts)
  have "uint (word_of_int (pack binary64 s b) :: u64) = pack binary64 s b"
    unfolding uint_word_of_int using pack_range [OF b, of s] by (intro mod_pos_pos_trivial) simp_all
  then have "view64 (mk64 s b) = mag_view_at binary64 s b"
    using unpack_pack [OF b] by (simp add: view64_def mk64_def)
  also have "\<dots> = mag_view s b"
    unfolding mag_view_at_def mag_view_def Let_def binary64_consts binary64_sel by simp
  finally show ?thesis .
qed

text \<open>The numbers: 53 significant bits, and the exponents of the format.\<close>

definition fnum_ok :: "int \<Rightarrow> int \<Rightarrow> bool" where
  "fnum_ok m e \<longleftrightarrow> 0 \<le> m \<and> m < 2 ^ 53 \<and> - 1074 \<le> e \<and> e \<le> 971 \<and> (- 1074 < e \<longrightarrow> 2 ^ 52 \<le> m)"

lemma view64_ok: "view64 x = FNum s m e \<Longrightarrow> fnum_ok m e"
proof -
  let ?b = "uint (f64_to_bits x)"
  assume v: "view64 x = FNum s m e"
  have E: "0 \<le> (?b div 2 ^ 52) mod 2 ^ 11" "(?b div 2 ^ 52) mod 2 ^ 11 < 2 ^ 11" by simp_all
  have F: "0 \<le> ?b mod 2 ^ 52" "?b mod 2 ^ 52 < 2 ^ 52" by simp_all
  show ?thesis
    using v E F unfolding view64_def unpack_def Let_def binary64_sel binary64_consts fnum_ok_def
    by (auto split: if_splits)
qed

section \<open>Values\<close>

definition fval :: "fview \<Rightarrow> real" where
  "fval v = (case v of FNum s m e \<Rightarrow> of_int (signed s m) * 2 powi e | _ \<Rightarrow> 0)"

definition f64_val :: "f64 \<Rightarrow> real" where
  "f64_val x = fval (view64 x)"

lemma scaled_value:
  assumes "h \<le> e"
  shows "of_int (x * 2 ^ nat (e - h)) * 2 powi h = (of_int x * 2 powi e :: real)"
proof -
  have "(2 :: real) ^ nat (e - h) = 2 powi (e - h)" using assms by (simp add: power_int_def)
  then have "(2 :: real) ^ nat (e - h) * 2 powi h = 2 powi e"
    by (simp add: power_int_add [symmetric])
  then show ?thesis by (simp add: mult.assoc)
qed

lemma lt_FNum:
  assumes "view64 a = FNum s m e" and "view64 b = FNum u k g"
  shows "f64_lt a b \<longleftrightarrow> f64_val a < f64_val b"
proof -
  let ?h = "min e g"
  have "f64_val a = of_int (signed s m * 2 ^ nat (e - ?h)) * 2 powi ?h"
    "f64_val b = of_int (signed u k * 2 ^ nat (g - ?h)) * 2 powi ?h"
    unfolding f64_val_def fval_def assms fview.case by (rule scaled_value [symmetric], simp)+
  then show ?thesis
    by (simp only: mult_less_cancel_right_pos zero_less_power_int zero_less_numeral of_int_less_iff)
      (simp add: f64_lt_def assms Let_def)
qed

lemma eq_FNum:
  assumes "view64 a = FNum s m e" and "view64 b = FNum u k g"
  shows "f64_eq a b \<longleftrightarrow> f64_val a = f64_val b"
proof -
  let ?h = "min e g"
  have "f64_val a = of_int (signed s m * 2 ^ nat (e - ?h)) * 2 powi ?h"
    "f64_val b = of_int (signed u k * 2 ^ nat (g - ?h)) * 2 powi ?h"
    unfolding f64_val_def fval_def assms fview.case by (rule scaled_value [symmetric], simp)+
  then show ?thesis
    by (simp only: mult_cancel_right power_int_eq_0_iff zero_neq_numeral of_int_eq_iff)
      (simp add: f64_eq_def assms Let_def)
qed

section \<open>Rounding\<close>

text \<open>The scaled significand before the last rounding, and what the rounding yields.\<close>

definition ulp_exp :: "int \<Rightarrow> int \<Rightarrow> int \<Rightarrow> int" where
  "ulp_exp n d e = max (ratio_log2 n d + e - 52) (- 1074)"

definition significand :: "int \<Rightarrow> int \<Rightarrow> int \<Rightarrow> int" where
  "significand n d e =
     (let k = e - ulp_exp n d e
      in if 0 \<le> k then rne (n * 2 ^ nat k) d else rne n (d * 2 ^ nat (- k)))"

lemma as_binary64: "ulp_exp n d e = ulp_at binary64 n d e" "significand n d e = sig_at (ulp_exp n d e) n d e"
  by (simp_all add: ulp_exp_def ulp_at_def significand_def sig_at_def binary64_consts)

lemma round_mag_eq:
  "0 < n \<Longrightarrow> round_mag binary64 n d e =
    min ((ulp_exp n d e + 1074) * 2 ^ 52 + significand n d e) (2047 * 2 ^ 52)"
  by (simp add: round_mag_def ulp_exp_def significand_def Let_def binary64_consts)

lemma significand_error:
  "0 < d \<Longrightarrow> \<bar>of_int (significand n d e) - of_int n / of_int d * 2 powi e / 2 powi ulp_exp n d e\<bar> \<le> (1 / 2 :: real)"
  unfolding as_binary64(2) by (rule sig_at_error)

lemma significand_range:
  assumes "0 < n" and "0 < d"
  shows "0 \<le> significand n d e" and "significand n d e \<le> 2 ^ 53"
    and "- 1074 < ulp_exp n d e \<Longrightarrow> 2 ^ 52 \<le> significand n d e"
  using sig_at_range [OF assms, of binary64 e] unfolding as_binary64 binary64_consts by simp_all

text \<open>
  The rounded value: unless it overflows, a multiple of the last place, off by at most half of it.
\<close>

definition no_overflow :: "int \<Rightarrow> int \<Rightarrow> int \<Rightarrow> bool" where
  "no_overflow n d e \<longleftrightarrow> (ulp_exp n d e + 1074) * 2 ^ 52 + significand n d e < 2047 * 2 ^ 52"

lemma round_mag_range:
  assumes "0 \<le> n" and "0 < d"
  shows "0 \<le> round_mag binary64 n d e" and "round_mag binary64 n d e \<le> 2047 * 2 ^ 52"
  using round_mag_range_at [OF assms, of binary64 e] unfolding binary64_consts by simp_all

lemma mag_view_sign:
  "mag_view s b = FNum u m e \<Longrightarrow> u = s" "mag_view s b = FInf u \<Longrightarrow> u = s" "mag_view s b \<noteq> FNan"
  by (auto simp: mag_view_def split: if_splits)

lemma round_view:
  assumes "0 < n" and "0 < d" and "no_overflow n d e"
  shows "\<exists>m q. view64 (mk64 s (round_mag binary64 n d e)) = FNum s m q
    \<and> of_int m * 2 powi q = (of_int (significand n d e) * 2 powi ulp_exp n d e :: real)"
proof -
  let ?b = "round_mag binary64 n d e"
  have "fits_at binary64 n d e"
    using assms(3) by (simp add: fits_at_def no_overflow_def as_binary64 binary64_consts)
  from round_view_at [OF assms(1,2) this, of s]
  obtain m q where v: "unpack binary64 (pack binary64 s ?b) = FNum s m q"
    and val: "of_int m * 2 powi q = (of_int (significand n d e) * 2 powi ulp_exp n d e :: real)"
    by (auto simp: as_binary64)
  have "uint (word_of_int (pack binary64 s ?b) :: u64) = pack binary64 s ?b"
    unfolding uint_word_of_int using pack_range [OF round_mag_range_at [OF less_imp_le [OF assms(1)] assms(2)], of binary64 s]
    by (intro mod_pos_pos_trivial) simp_all
  with v have "view64 (mk64 s ?b) = FNum s m q" by (simp add: view64_def mk64_def)
  with val show ?thesis by blast
qed

section \<open>Signs\<close>

text \<open>A result with the sign bit set that is not a NaN.\<close>

definition neg_view :: "fview \<Rightarrow> bool" where
  "neg_view v \<longleftrightarrow> (case v of FNan \<Rightarrow> False | FInf s \<Rightarrow> s | FNum s _ _ \<Rightarrow> s)"

lemma view_rounded:
  assumes "0 \<le> n" and "0 < d"
  shows "view64 (mk64 s (round_mag binary64 n d e)) = mag_view s (round_mag binary64 n d e)"
  by (rule view_mk64 [OF round_mag_range [OF assms]])

lemma neg_mag_view: "neg_view (mag_view s b) \<longleftrightarrow> s"
  by (simp add: neg_view_def mag_view_def)

lemma view64_neg:
  "view64 (f64_neg x) = (case view64 x of FNan \<Rightarrow> FNan | FInf s \<Rightarrow> FInf (\<not> s) | FNum s m e \<Rightarrow> FNum (\<not> s) m e)"
proof -
  define b where "b = uint (f64_to_bits x)"
  have top: "uint (0x8000000000000000 :: u64) = push_bit 63 1" by (simp add: push_bit_eq_mult)
  have bits: "uint (f64_to_bits (f64_neg x)) = xor b (push_bit 63 1)"
    by (simp only: f64_neg_def f64.sel uint_xor b_def top)
  have low: "xor b (push_bit 63 1) mod 2 ^ 52 = b mod 2 ^ 52"
    unfolding take_bit_eq_mod [symmetric] take_bit_xor by (simp add: take_bit_push_bit)
  have mid: "(xor b (push_bit 63 1) div 2 ^ 52) mod 2 ^ 11 = (b div 2 ^ 52) mod 2 ^ 11"
    unfolding take_bit_eq_mod [symmetric] drop_bit_eq_div [symmetric] drop_bit_xor take_bit_xor by simp
  have high: "odd (xor b (push_bit 63 1) div 2 ^ 63) \<longleftrightarrow> \<not> odd (b div 2 ^ 63)"
    unfolding drop_bit_eq_div [symmetric] drop_bit_xor even_xor_iff by simp
  have sum: "52 + 11 = (63 :: nat)" by simp
  show ?thesis
    unfolding view64_def unpack_def Let_def binary64_sel bits b_def [symmetric] sum low mid high
    by simp
qed

lemma sub_negative:
  assumes "f64_lt a b"
  shows "neg_view (view64 (f64_sub a b))"
proof (cases "view64 a")
  case FNan
  with assms show ?thesis by (simp add: f64_lt_def)
next
  case (FInf s)
  with assms show ?thesis
    by (auto simp: f64_lt_def f64_sub_def f64_add_def view64_neg neg_view_def split: fview.splits)
next
  case (FNum s m e)
  show ?thesis
  proof (cases "view64 b")
    case FNan
    with assms FNum show ?thesis by (simp add: f64_lt_def)
  next
    case (FInf u)
    with assms FNum show ?thesis
      by (simp add: f64_lt_def f64_sub_def f64_add_def view64_neg neg_view_def)
  next
    case b: (FNum u k g)
    let ?h = "min e g"
    have lt: "signed s m * 2 ^ nat (e - ?h) < signed u k * 2 ^ nat (g - ?h)"
      using assms by (simp add: f64_lt_def FNum b Let_def)
    define x where "x = signed s m * 2 ^ nat (e - ?h) + signed (\<not> u) k * 2 ^ nat (g - ?h)"
    have "signed (\<not> u) k * 2 ^ nat (g - ?h) = - (signed u k * 2 ^ nat (g - ?h))" by (simp add: signed_def)
    with lt have x: "x < 0" by (simp add: x_def)
    have "f64_sub a b = mk64 True (round_mag binary64 \<bar>x\<bar> 1 ?h)"
      using x by (simp add: f64_sub_def f64_add_def FNum view64_neg b Let_def x_def [symmetric])
    then show ?thesis by (simp add: view_rounded neg_mag_view)
  qed
qed

lemma div_negative:
  assumes "neg_view (view64 a)" and "view64 b = FNum False k g" and "0 < k"
  shows "neg_view (view64 (f64_div a b))"
proof (cases "view64 a")
  case FNan
  with assms show ?thesis by (simp add: neg_view_def)
next
  case (FInf s)
  have "view64 (f64_inf True) = FInf True" by code_simp
  with assms FInf show ?thesis by (simp add: f64_div_def neg_view_def)
next
  case (FNum s m e)
  then have "0 \<le> m" using view64_ok [OF FNum] by (simp add: fnum_ok_def)
  with assms FNum show ?thesis
    by (simp add: f64_div_def view_rounded neg_mag_view) (simp add: neg_view_def)
qed

end
