(* ===== verification/Deadband.thy ===== *)
theory Deadband
  imports Float64_Real Engine
begin

text \<open>
  When a value differs from the one logged last, in the words of docs/RULES.md: a number by rising or
  falling by more than the deadband, any other value by not being the same. The lemma shows that the
  absolute difference of \<open>changed\<close> (\<open>crates/rules/src/engine.rs\<close>) decides exactly this, infinities, zeros
  of both signs and NaN included.
\<close>

section \<open>The specification\<close>

fun value_differs :: "f64 \<Rightarrow> signal_value \<Rightarrow> signal_value \<Rightarrow> bool" where
  "value_differs db (VNum a) (VNum b) \<longleftrightarrow> f64_lt db (f64_sub b a) \<or> f64_lt db (f64_sub a b)"
| "value_differs db (VBool a) (VBool b) \<longleftrightarrow> a \<noteq> b"
| "value_differs db (VEnum a) (VEnum b) \<longleftrightarrow> a \<noteq> b"
| "value_differs db _ _ \<longleftrightarrow> True"

definition worth_logging :: "f64 \<Rightarrow> signal_value option \<Rightarrow> signal_value \<Rightarrow> bool" where
  "worth_logging db logged v = (case logged of None \<Rightarrow> True | Some a \<Rightarrow> value_differs db a v)"

section \<open>The absolute difference\<close>

fun mag_of :: "fview \<Rightarrow> fview" where
  "mag_of FNan = FNan"
| "mag_of (FInf s) = FInf False"
| "mag_of (FNum s m e) = FNum False m e"

fun flip_sign :: "fview \<Rightarrow> fview" where
  "flip_sign FNan = FNan"
| "flip_sign (FInf s) = FInf (\<not> s)"
| "flip_sign (FNum s m e) = FNum (\<not> s) m e"

lemma view64_abs: "view64 (f64_abs x) = mag_of (view64 x)"
proof -
  define b where "b = uint (f64_to_bits x)"
  have top: "uint (0x7FFFFFFFFFFFFFFF :: u64) = mask 63" by (simp add: mask_eq_exp_minus_1)
  have bits: "uint (f64_to_bits (f64_abs x)) = take_bit 63 b"
    by (simp only: f64_abs_def f64.sel uint_and b_def top take_bit_eq_mask)
  have low: "take_bit 63 b mod 2 ^ 52 = b mod 2 ^ 52"
    unfolding take_bit_eq_mod [symmetric] by simp
  have mid: "(take_bit 63 b div 2 ^ 52) mod 2 ^ 11 = (b div 2 ^ 52) mod 2 ^ 11"
    unfolding take_bit_eq_mod [symmetric] drop_bit_eq_div [symmetric] by (simp add: drop_bit_take_bit)
  have high: "take_bit 63 b div 2 ^ 63 = 0"
    unfolding drop_bit_eq_div [symmetric] by (simp add: drop_bit_take_bit)
  have sum: "52 + 11 = (63 :: nat)" by simp
  show ?thesis
    unfolding view64_def unpack_def Let_def binary64_sel bits b_def [symmetric] sum low mid high
    by simp
qed

lemma flip_mag_view: "flip_sign (mag_view s b) = mag_view (\<not> s) b"
  by (simp add: mag_view_def)

lemma view_nan [simp]: "view64 f64_nan = FNan"
  by code_simp

text \<open>Swapping the operands of a difference changes its sign, except that a zero may keep it.\<close>

lemma sub_swapped:
  "view64 (f64_sub a b) = flip_sign (view64 (f64_sub b a))
    \<or> (\<exists>s u. view64 (f64_sub a b) = FNum s 0 (- 1074) \<and> view64 (f64_sub b a) = FNum u 0 (- 1074))"
proof (cases "view64 a")
  case FNan
  then show ?thesis by (simp add: f64_sub_def f64_add_def view64_neg split: fview.split)
next
  case (FInf s)
  then show ?thesis
    by (cases "view64 b") (auto simp: f64_sub_def f64_add_def view64_neg)
next
  case a: (FNum s m e)
  show ?thesis
  proof (cases "view64 b")
    case FNan
    with a show ?thesis by (simp add: f64_sub_def f64_add_def view64_neg)
  next
    case (FInf u)
    with a show ?thesis by (simp add: f64_sub_def f64_add_def view64_neg)
  next
    case b: (FNum u k g)
    define h where "h = min e g"
    define x where "x = signed s m * 2 ^ nat (e - h) + signed (\<not> u) k * 2 ^ nat (g - h)"
    have ab: "f64_sub a b = (if x = 0 then f64_zero (s \<and> \<not> u) else mk64 (x < 0) (round_mag binary64 \<bar>x\<bar> 1 h))"
      by (simp add: f64_sub_def f64_add_def view64_neg a b Let_def x_def h_def)
    have swap: "signed u k * 2 ^ nat (g - h) + signed (\<not> s) m * 2 ^ nat (e - h) = - x"
      by (simp add: x_def signed_def)
    have ba: "f64_sub b a = (if x = 0 then f64_zero (u \<and> \<not> s) else mk64 (0 < x) (round_mag binary64 \<bar>x\<bar> 1 h))"
      using swap by (auto simp: f64_sub_def f64_add_def view64_neg a b Let_def h_def min.commute [of g e])
    show ?thesis
    proof (cases "x = 0")
      case True
      then show ?thesis by (simp add: ab ba f64_zero_def view_mk64 mag_view_def)
    next
      case False
      then have "(\<not> 0 < x) = (x < 0)" by linarith
      with False show ?thesis by (simp add: ab ba view_rounded flip_mag_view)
    qed
  qed
qed

lemma lt_abs:
  assumes "view64 y = flip_sign (view64 x) \<or> (\<exists>s u. view64 y = FNum s 0 (- 1074) \<and> view64 x = FNum u 0 (- 1074))"
  shows "f64_lt d (f64_abs x) \<longleftrightarrow> f64_lt d x \<or> f64_lt d y"
proof (cases "view64 x")
  case FNan
  with assms show ?thesis by (simp add: f64_lt_def view64_abs split: fview.split)
next
  case (FInf s)
  with assms show ?thesis by (auto simp: f64_lt_def view64_abs split: fview.split)
next
  case x: (FNum s m e)
  have m: "0 \<le> m" using view64_ok [OF x] by (simp add: fnum_ok_def)
  have abs: "view64 (f64_abs x) = FNum False m e" by (simp add: view64_abs x)
  obtain u where y: "view64 y = FNum u m e" and sign: "m = 0 \<or> u = (\<not> s)"
    using assms x by auto
  show ?thesis
  proof (cases "view64 d")
    case (FNum t k g)
    have "f64_val (f64_abs x) = of_int m * 2 powi e" "f64_val x = of_int (signed s m) * 2 powi e"
      "f64_val y = of_int (signed u m) * 2 powi e"
      by (simp_all add: f64_val_def fval_def abs x y signed_def)
    moreover have "0 \<le> of_int m * (2 :: real) powi e" using m by simp
    ultimately have "f64_val d < f64_val (f64_abs x) \<longleftrightarrow> f64_val d < f64_val x \<or> f64_val d < f64_val y"
      using sign by (cases s) (auto simp: signed_def)
    then show ?thesis
      by (simp add: lt_FNum [OF FNum abs] lt_FNum [OF FNum x] lt_FNum [OF FNum y])
  qed (simp_all add: f64_lt_def abs x y)
qed

lemma changed_by_iff: "changed_by db logged v \<longleftrightarrow> worth_logging db logged v"
proof (cases logged)
  case None
  then show ?thesis by (simp add: changed_by_def worth_logging_def)
next
  case (Some a)
  have "f64_lt db (f64_abs (f64_sub y x)) \<longleftrightarrow> f64_lt db (f64_sub y x) \<or> f64_lt db (f64_sub x y)" for x y
    using sub_swapped [of x y] by (rule lt_abs)
  with Some show ?thesis
    by (cases a; cases v) (simp_all add: changed_by_def worth_logging_def f64_gt_def)
qed

end
