(* ===== verification/Engine_Rates.thy ===== *)
theory Engine_Rates
  imports Engine_Traces Deadband
begin

text \<open>
  What a rule logs over a run: the deadband filter of \<open>on_change\<close> rules, the cadence of periodic
  rules, and the deadline the daemon sleeps until.
\<close>

section \<open>The deadband filter\<close>

fun deadband_filter ::
  "f64 \<Rightarrow> signal_value option \<Rightarrow> (u64 \<times> signal_value) list \<Rightarrow> (u64 \<times> signal_value) list" where
  "deadband_filter db logged [] = []"
| "deadband_filter db logged (x # xs) =
     (if worth_logging db logged (snd x) then x # deadband_filter db (Some (snd x)) xs
      else deadband_filter db logged xs)"

fun samples_for :: "string \<Rightarrow> 'p event list \<Rightarrow> (u64 \<times> signal_value) list" where
  "samples_for name [] = []"
| "samples_for name (Sampled now smp # evs) =
     (if smp_name smp = name then [(smp_timestamp_us smp, smp_value smp)] else []) @ samples_for name evs"
| "samples_for name (_ # evs) = samples_for name evs"

definition logged_points :: "eval_report list \<Rightarrow> (u64 \<times> signal_value) list" where
  "logged_points outs = map (\<lambda>l. (lr_ts_us l, lr_value l)) (concat (map records outs))"

lemma logged_points_Cons:
  "logged_points (out # outs) = map (\<lambda>l. (lr_ts_us l, lr_value l)) (records out) @ logged_points outs"
  by (simp add: logged_points_def)

lemma on_change_rule_run:
  assumes "cr_behaviour r = OnChange db" and "cr_condition r = None"
  shows "list_all (\<lambda>ev. \<not> is_swap ev) evs \<Longrightarrow>
    logged_points (snd (run (rule_handle cel e r) evs (m, st))) =
      deadband_filter db (last_logged st) (samples_for (rule_signal (cr_def r)) evs)"
proof (induction evs arbitrary: m st)
  case Nil
  then show ?case by (simp add: logged_points_def)
next
  case (Cons ev evs)
  show ?case
  proof (cases ev)
    case (Sampled now smp)
    have "listens (smp_name smp) r \<longleftrightarrow> smp_name smp = rule_signal (cr_def r)"
      using assms(1) by (auto simp: listens_def is_periodic_def)
    with Cons Sampled assms show ?thesis
      by (simp add: Let_def split_beta on_change_step_def changed_by_iff condition_verdict_def log_if_def
          logged_points_Cons log_record_of_def)
  next
    case (Ticked now)
    with Cons assms show ?thesis
      by (simp add: split_beta periodic_step_def logged_points_Cons)
  next
    case (Swapped now new)
    with Cons show ?thesis by simp
  qed
qed

text \<open>Each logged value differs from the one before it, and every value left out does not.\<close>

lemma deadband_filter_successive:
  "successively (\<lambda>x y. worth_logging db (Some (snd x)) (snd y)) (deadband_filter db logged xs)"
proof (induction xs arbitrary: logged)
  case Nil
  then show ?case by simp
next
  case (Cons x xs)
  have "ys \<noteq> [] \<Longrightarrow> ys = deadband_filter db lg xs \<Longrightarrow> worth_logging db lg (snd (hd ys))" for ys lg
    by (induction xs arbitrary: lg) (auto split: if_splits)
  with Cons show ?case by (auto simp: successively_Cons)
qed

section \<open>Cadence of periodic rules\<close>

lemma unat_next_slot:
  assumes "due \<le> now" and "unat now + unat interval < 2 ^ 64"
  shows "unat (next_slot now due interval) =
    (if unat now < unat due + unat interval then unat due + unat interval else unat now + unat interval)"
  using assms by (auto simp: next_slot_def Let_def unat_saturating_add_u64 word_less_nat_alt word_le_nat_alt)

lemma next_slot_later:
  assumes "due \<le> now" and "unat now + unat interval < 2 ^ 64"
  shows "unat due + unat interval \<le> unat (next_slot now due interval)"
    and "0 < interval \<Longrightarrow> now < next_slot now due interval"
  using assms by (auto simp: unat_next_slot word_less_nat_alt word_le_nat_alt)

fun ticked_by :: "nat \<Rightarrow> 'p event \<Rightarrow> bool" where
  "ticked_by t (Ticked now) \<longleftrightarrow> unat now \<le> t"
| "ticked_by t (Sampled _ _) \<longleftrightarrow> True"
| "ticked_by t (Swapped _ _) \<longleftrightarrow> False"

lemma log_if_records: "length (records (snd (log_if vd v l st))) \<le> 1"
  by (simp add: log_if_def split: result.splits bool.splits)

lemma periodic_step_silent: "\<not> is_due now st \<Longrightarrow> periodic_step cel e now r st = (st, report_default)"
  by (simp add: periodic_step_def split: behaviour.splits)

lemma periodic_step_records: "length (records (snd (periodic_step cel e now r st))) \<le> 1"
  by (simp add: periodic_step_def Let_def log_if_records [simplified] split: behaviour.splits option.splits)

definition log_count :: "eval_report list \<Rightarrow> nat" where
  "log_count outs = length (concat (map records outs))"

lemma log_count_Cons [simp]: "log_count (out # outs) = length (records out) + log_count outs"
  by (simp add: log_count_def)

lemma log_count_Nil [simp]: "log_count [] = 0"
  by (simp add: log_count_def)

lemma periodic_rule_run:
  assumes "cr_behaviour r = Periodic interval age" and "t + unat interval < 2 ^ 64"
  shows "list_all (ticked_by t) evs \<Longrightarrow> next_due_ms st = Some due \<Longrightarrow>
    n = log_count (snd (run (rule_handle cel e r) evs (m, st))) \<Longrightarrow> 0 < n \<Longrightarrow>
    unat due + n * unat interval \<le> t + unat interval"
proof (induction evs arbitrary: m st due n)
  case Nil
  then show ?case by simp
next
  case (Cons ev evs)
  show ?case
  proof (cases ev)
    case (Sampled now smp)
    have "on_change_step cel f smp r st = (st, report_default)" for f
      using assms(1) by (simp add: on_change_step_def)
    then have "rule_handle cel e r (Sampled now smp) (m, st) =
        ((eng_latest (observe now smp (with_latest e m)), st), report_default)"
      by (simp add: Let_def)
    with Cons Sampled show ?thesis by (simp del: rule_handle.simps)
  next
    case (Ticked now)
    let ?st' = "fst (periodic_step cel (with_latest e m) now r st)"
    let ?n' = "log_count (snd (run (rule_handle cel e r) evs (m, ?st')))"
    have n: "n = length (records (snd (periodic_step cel (with_latest e m) now r st))) + ?n'"
      using Cons.prems(3) Ticked by (simp add: split_beta)
    have rest: "list_all (ticked_by t) evs" and now: "unat now \<le> t"
      using Cons.prems(1) Ticked by simp_all
    show ?thesis
    proof (cases "due \<le> now")
      case False
      then have "periodic_step cel (with_latest e m) now r st = (st, report_default)"
        using Cons.prems(2) by (intro periodic_step_silent) (simp add: is_due_def)
      with Cons.IH [OF rest Cons.prems(2)] n Cons.prems(4) show ?thesis by simp
    next
      case True
      let ?due' = "next_slot now due interval"
      have due': "next_due_ms ?st' = Some ?due'"
        using Cons.prems(2) True assms(1) by (simp add: periodic_step_due)
      have later: "unat due + unat interval \<le> unat ?due'"
        using True now assms(2) by (intro next_slot_later) simp_all
      have "n \<le> Suc ?n'"
        using n periodic_step_records [of cel "with_latest e m" now r st] by simp
      then have n_le: "n * unat interval \<le> ?n' * unat interval + unat interval"
        using mult_le_mono1 [of n "Suc ?n'" "unat interval"] by simp
      show ?thesis
      proof (cases "?n' = 0")
        case True
        then have "n * unat interval \<le> unat interval" using n_le by (simp only: mult_0 add_0)
        with \<open>due \<le> now\<close> now show ?thesis
          unfolding word_le_nat_alt by linarith
      next
        case False
        then have "unat ?due' + ?n' * unat interval \<le> t + unat interval"
          by (intro Cons.IH [OF rest due' refl]) simp
        with n_le later show ?thesis by linarith
      qed
    qed
  next
    case (Swapped now new)
    with Cons.prems(1) show ?thesis by simp
  qed
qed

section \<open>The deadline\<close>

lemma fold_min_eq: "fold min ds d = Min (set (d # ds))"
  by (simp only: Min.set_eq_fold)

lemma next_deadline_iff:
  assumes "hm_wf (eng_state e)"
  shows "next_deadline_ms e = None \<longleftrightarrow> (\<forall>k st. hm_get (eng_state e) k = Some st \<longrightarrow> next_due_ms st = None)"
    and "next_deadline_ms e = Some d \<longleftrightarrow>
      (\<exists>k st. hm_get (eng_state e) k = Some st \<and> next_due_ms st = Some d)
      \<and> (\<forall>k st d'. hm_get (eng_state e) k = Some st \<longrightarrow> next_due_ms st = Some d' \<longrightarrow> d \<le> d')"
proof -
  let ?ds = "List.map_filter next_due_ms (hm_values (eng_state e))"
  have mem: "x \<in> set ?ds \<longleftrightarrow> (\<exists>k st. hm_get (eng_state e) k = Some st \<and> next_due_ms st = Some x)" for x
    unfolding set_map_filter_iff Bex_def hm_values_iff [OF assms] by blast
  show "next_deadline_ms e = None \<longleftrightarrow> (\<forall>k st. hm_get (eng_state e) k = Some st \<longrightarrow> next_due_ms st = None)"
    using mem by (cases ?ds) (auto simp: next_deadline_ms_def, (metis option.exhaust)+)
  have "next_deadline_ms e = Some d \<longleftrightarrow> d \<in> set ?ds \<and> (\<forall>x\<in>set ?ds. d \<le> x)"
  proof (cases ?ds)
    case Nil
    then show ?thesis by (simp add: next_deadline_ms_def)
  next
    case (Cons x xs)
    have "next_deadline_ms e = Some d \<longleftrightarrow> Min (set (x # xs)) = d"
      by (simp only: next_deadline_ms_def Cons list.case fold_min_eq option.inject)
    also have "\<dots> \<longleftrightarrow> d \<in> set (x # xs) \<and> (\<forall>y\<in>set (x # xs). d \<le> y)"
      by (rule Min_eq_iff) simp_all
    finally show ?thesis by (simp only: Cons)
  qed
  with mem show "next_deadline_ms e = Some d \<longleftrightarrow>
      (\<exists>k st. hm_get (eng_state e) k = Some st \<and> next_due_ms st = Some d)
      \<and> (\<forall>k st d'. hm_get (eng_state e) k = Some st \<longrightarrow> next_due_ms st = Some d' \<longrightarrow> d \<le> d')"
    by (simp, blast)
qed

lemma tick_nothing_due:
  assumes "\<And>k st. hm_get (eng_state e) k = Some st \<Longrightarrow> \<not> is_due now st"
  shows "tick cel now e = (e, report_default)"
proof -
  have "tick_rules cel e now (crs_rules (eng_rules e)) (eng_state e) report_default = (eng_state e, report_default)"
    using assms by (intro per.loop_id) (auto simp: periodic_step_silent)
  then show ?thesis by (simp add: tick_eq)
qed

lemma tick_early:
  assumes "engine_wf cel c e" and "\<And>d. next_deadline_ms e = Some d \<Longrightarrow> now < d"
  shows "tick cel now e = (e, report_default)"
proof (rule tick_nothing_due)
  fix k st
  assume st: "hm_get (eng_state e) k = Some st"
  have wf: "hm_wf (eng_state e)" using engine_wfD(4) [OF assms(1)] by (simp add: state_wf_def)
  show "\<not> is_due now st"
  proof (cases "next_deadline_ms e")
    case None
    with st next_deadline_iff(1) [OF wf] show ?thesis by (auto simp: is_due_def)
  next
    case (Some d)
    with st next_deadline_iff(2) [OF wf, of d] assms(2) [OF Some] show ?thesis
      by (auto simp: is_due_def not_le split: option.splits dest: less_le_trans)
  qed
qed

text \<open>After a tick nothing is due any more, so the daemon sleeps.\<close>

lemma tick_clears:
  assumes wf: "engine_wf cel c e"
    and nosat: "\<And>r interval age. r \<in> set (crs_rules (eng_rules e)) \<Longrightarrow>
      cr_behaviour r = Periodic interval age \<Longrightarrow> unat now + unat interval < 2 ^ 64"
    and get: "hm_get (eng_state (fst (tick cel now e))) k = Some st'"
  shows "\<not> is_due now st'"
proof -
  have "state_wf (eng_rules e) (eng_state (fst (tick cel now e)))"
    using engine_wfD(4) [OF tick_wf [OF wf]] by simp
  with get have "k \<in> cr_id ` set (crs_rules (eng_rules e))"
    by (auto simp: state_wf_def) (metis option.distinct(1))
  then obtain r where r: "r \<in> set (crs_rules (eng_rules e))" and k: "k = cr_id r" by blast
  from engine_wfD(3) [OF wf r] obtain st where st: "hm_get (eng_state e) (cr_id r) = Some st" by blast
  have st': "st' = fst (periodic_step cel e now r st)"
    using get tick_state [OF wf r st] k by simp
  show ?thesis
  proof (cases "cr_behaviour r")
    case (OnChange db)
    then have "next_due_ms st = None"
      using engine_wfD(4) [OF wf] r st by (auto simp: state_wf_def is_periodic_def)
    with OnChange st' show ?thesis by (simp add: is_due_def periodic_step_due)
  next
    case (Periodic interval age)
    have "0 < interval"
      using engine_wfD(2) [OF wf r] Periodic by (auto simp: rule_wf_def min_interval_ms_def word_less_nat_alt word_le_nat_alt)
    with next_slot_later(2) [OF _ nosat [OF r Periodic]] Periodic st' show ?thesis
      by (auto simp: is_due_def periodic_step_due not_le split: option.splits)
  qed
qed

end
