(* ===== verification/Examples.thy ===== *)
theory Examples
  imports Wire_Packet Wire_Values Engine_Rates
begin

text \<open>
  The inputs the witnesses are evaluated on: the R1S catalog of \<open>catalogs/r1s.json\<close>, a small packet, a
  rule set in the manner of \<open>rulesets/default.json\<close>, and one concrete CEL implementation, for the
  expressions that are a single signal name.
\<close>

section \<open>The R1S catalog\<close>

definition r1s_spec :: catalog_spec where
  "r1s_spec =
     \<lparr>cs_model = ''R1S'', cs_version = 3,
      cs_signals =
        [\<lparr>sd_id = 257, sd_name = ''vehicle_speed'', sd_ty = TU16, sd_endian = Some Big,
           sd_scale = f64_lit 1 100, sd_offset = f64_lit 0 1, sd_unit = Some ''km/h'', sd_enum_map = None\<rparr>,
         \<lparr>sd_id = 258, sd_name = ''battery_soc'', sd_ty = TU8, sd_endian = Some Little,
           sd_scale = f64_lit 1 2, sd_offset = f64_lit 0 1, sd_unit = Some ''%'', sd_enum_map = None\<rparr>,
         \<lparr>sd_id = 259, sd_name = ''motor_temp'', sd_ty = TI16, sd_endian = Some Little,
           sd_scale = f64_lit 1 10, sd_offset = f64_lit (- 40) 1, sd_unit = Some ''C'', sd_enum_map = None\<rparr>,
         \<lparr>sd_id = 300, sd_name = ''gear'', sd_ty = TU8, sd_endian = Some Little,
           sd_scale = default_scale, sd_offset = f64_lit 0 1, sd_unit = None,
           sd_enum_map = Some [(''0'', ''P''), (''1'', ''R''), (''2'', ''N''), (''3'', ''D'')]\<rparr>,
         \<lparr>sd_id = 301, sd_name = ''door_open'', sd_ty = TBool, sd_endian = None,
           sd_scale = default_scale, sd_offset = f64_lit 0 1, sd_unit = None, sd_enum_map = None\<rparr>]\<rparr>"

definition r1s :: catalog where
  "r1s = get_ok (catalog_new r1s_spec)"

lemma r1s_valid: "valid_spec r1s_spec"
  by code_simp

lemma r1s_new: "catalog_new r1s_spec = Ok r1s"
proof -
  obtain c where "catalog_new r1s_spec = Ok c"
    using r1s_valid by (simp add: catalog_new_Ok_iff)
  then show ?thesis by (simp add: r1s_def)
qed

lemma r1s_wf: "catalog_wf r1s"
  using r1s_new by (rule catalog_wf_new)

definition r1s_signal :: "nat \<Rightarrow> signal" where
  "r1s_signal i = cat_signals r1s ! i"

abbreviation "sig_soc \<equiv> r1s_signal 1"
abbreviation "sig_gear \<equiv> r1s_signal 3"
abbreviation "sig_door \<equiv> r1s_signal 4"

section \<open>A packet\<close>

text \<open>The gear is D, the door is open, and a frame of an unknown signal.\<close>

definition demo_frames :: "raw_frame list" where
  "demo_frames =
     [\<lparr>rf_signal_id = 300, rf_timestamp_us = 1000, rf_payload = [3]\<rparr>,
      \<lparr>rf_signal_id = 301, rf_timestamp_us = 1001, rf_payload = [1]\<rparr>,
      \<lparr>rf_signal_id = 999, rf_timestamp_us = 1002, rf_payload = [7, 7]\<rparr>]"

definition demo_bytes :: "u8 list" where
  "demo_bytes = header_bytes 3 @ frames_bytes demo_frames"

lemma demo_encoded: "encode_packet demo_frames = Ok demo_bytes"
  by (simp add: encode_packet_Ok_iff demo_bytes_def demo_frames_def packet_size_def frame_fits_def
      MAX_FRAMES_def MAX_DATAGRAM_LEN_def PACKET_HEADER_LEN_def FRAME_HEADER_LEN_def)

section \<open>Rules\<close>

definition ident_cel :: "(cel_expr, unit) cel" where
  "ident_cel =
     \<lparr>cel_compile = (\<lambda>src. if is_valid_signal_name src then Ok (EIdent src) else Err ''unexpected token''),
      cel_expression = (\<lambda>p. p),
      cel_execute = (\<lambda>p ctx. case p of
          EIdent name \<Rightarrow> ok_or (''undeclared reference to '' @ name) (ctx name)
        | _ \<Rightarrow> Err ''unsupported''),
      cel_debug = (\<lambda>v. ''value'')\<rparr>"

definition demo_ruleset :: ruleset where
  "demo_ruleset =
     \<lparr>ruleset_version = 12, rs_model = ''R1S'',
      rs_rules =
        [\<lparr>rule_ident = ''soc_change'', rule_signal = ''battery_soc'', rule_mode = ModeOnChange,
           interval_ms = None, max_age_ms = None, deadband = Some (f64_lit 1 1), rule_condition = None\<rparr>,
         \<lparr>rule_ident = ''speed_1hz'', rule_signal = ''vehicle_speed'', rule_mode = ModePeriodic,
           interval_ms = Some 1000, max_age_ms = None, deadband = None, rule_condition = None\<rparr>,
         \<lparr>rule_ident = ''gear_open'', rule_signal = ''gear'', rule_mode = ModeOnChange,
           interval_ms = None, max_age_ms = None, deadband = None, rule_condition = Some ''door_open''\<rparr>]\<rparr>"

definition soc_rule :: "cel_expr compiled_rule" where
  "soc_rule = \<lparr>cr_def = rs_rules demo_ruleset ! 0, cr_condition = None, cr_unit = Some ''%'',
     cr_behaviour = OnChange (f64_lit 1 1)\<rparr>"

definition speed_rule :: "cel_expr compiled_rule" where
  "speed_rule = \<lparr>cr_def = rs_rules demo_ruleset ! 1, cr_condition = None, cr_unit = Some ''km/h'',
     cr_behaviour = Periodic 1000 3000\<rparr>"

definition gear_rule :: "cel_expr compiled_rule" where
  "gear_rule = \<lparr>cr_def = rs_rules demo_ruleset ! 2,
     cr_condition = Some \<lparr>cond_program = EIdent ''door_open'', cond_signals = [''door_open'']\<rparr>,
     cr_unit = None, cr_behaviour = OnChange (f64_lit 0 1)\<rparr>"

definition demo_rules :: "cel_expr compiled_ruleset" where
  "demo_rules = \<lparr>crs_version = 12, crs_model = ''R1S'', crs_rules = [soc_rule, speed_rule, gear_rule]\<rparr>"

lemmas demo_rule_defs = soc_rule_def speed_rule_def gear_rule_def demo_ruleset_def

lemma r1s_names:
  "by_name r1s ''vehicle_speed'' = Some (r1s_signal 0)" "by_name r1s ''battery_soc'' = Some (r1s_signal 1)"
  "by_name r1s ''gear'' = Some (r1s_signal 3)" "by_name r1s ''door_open'' = Some (r1s_signal 4)"
  by code_simp+

lemma r1s_units:
  "sig_unit (r1s_signal 0) = Some ''km/h''" "sig_unit (r1s_signal 1) = Some ''%''" "sig_unit (r1s_signal 3) = None"
  "sig_kind (r1s_signal 1) = KNum"
  by code_simp+

lemma demo_literals:
  "is_finite (f64_lit 0 1)" "is_finite (f64_lit 1 1)" "\<not> f64_lt (f64_lit 0 1) (f64_lit 0 1)"
  "\<not> f64_lt (f64_lit 1 1) (f64_lit 0 1)"
  by code_simp+

lemma demo_ids:
  "is_valid_rule_id ''soc_change''" "is_valid_rule_id ''speed_1hz''" "is_valid_rule_id ''gear_open''"
  "chars_count ''door_open'' \<le> max_condition_chars" "\<not> trim_is_empty ''door_open''"
  "is_valid_signal_name ''door_open''"
  by code_simp+

lemma demo_rules_wf: "rules_wf ident_cel r1s demo_rules"
proof -
  have "rule_wf ident_cel r1s soc_rule"
    by (simp add: rule_wf_def cr_id_def demo_rule_defs demo_ids r1s_names r1s_units [unfolded One_nat_def]
        demo_literals deadband_of_def)
  moreover have "rule_wf ident_cel r1s speed_rule"
    by (simp add: rule_wf_def cr_id_def demo_rule_defs demo_ids r1s_names r1s_units demo_literals
        min_interval_ms_def max_age_of_def saturating_mul_u64_def)
  moreover have "rule_wf ident_cel r1s gear_rule"
    by (simp add: rule_wf_def cr_id_def demo_rule_defs demo_ids r1s_names r1s_units demo_literals deadband_of_def
        ident_cel_def condition_wf_def max_condition_depth_def)
  ultimately show ?thesis
    by (simp add: rules_wf_def demo_rules_def max_rules_def cr_id_def demo_rule_defs)
qed

lemma demo_compiled: "compile_ruleset ident_cel Joined demo_ruleset r1s ''R1S'' (Some 3) = Ok demo_rules"
  using demo_rules_wf
  by (simp add: ruleset_Ok_iff header_errors_empty_iff) (simp add: demo_rules_def demo_rule_defs)

section \<open>An engine\<close>

definition demo_engine :: "cel_expr engine" where
  "demo_engine = apply_ruleset 0 demo_rules (engine_new ''DEV0000001'' ''R1S'')"

lemma demo_engine_wf: "engine_wf ident_cel r1s demo_engine"
  unfolding demo_engine_def by (intro apply_ruleset_wf engine_wf_new demo_rules_wf)

lemma demo_engine_rules [simp]:
  "eng_rules demo_engine = demo_rules" "soc_rule \<in> set (crs_rules demo_rules)"
  "speed_rule \<in> set (crs_rules demo_rules)" "gear_rule \<in> set (crs_rules demo_rules)"
  by (simp_all add: demo_engine_def demo_rules_def)

lemma demo_engine_state:
  "r \<in> set (crs_rules demo_rules) \<Longrightarrow> hm_get (eng_state demo_engine) (cr_id r) = Some (fresh_state 0 r)"
  using apply_ruleset_state [OF engine_wf_new demo_rules_wf, of r 0 "''DEV0000001''" "''R1S''"]
  by (simp add: demo_engine_def carried_state_def unchanged_rule_def engine_new_def empty_ruleset_def)

end
