(* ===== verification/Float64_Bounds.thy ===== *)
theory Float64_Bounds
  imports Float64_Real
begin

text \<open>
  Lower bounds on floats: rounding never halves a number of the normal range or more, so sums and
  conversions of large numbers are large. \<open>f64_above x r\<close> holds of the infinity too.
\<close>

definition f64_above :: "f64 \<Rightarrow> real \<Rightarrow> bool" where
  "f64_above x r \<longleftrightarrow> (case view64 x of FNan \<Rightarrow> False | FInf s \<Rightarrow> \<not> s | FNum s m e \<Rightarrow> r \<le> f64_val x)"

lemma f64_above_mono: "f64_above x r \<Longrightarrow> q \<le> r \<Longrightarrow> f64_above x q"
  by (auto simp: f64_above_def split: fview.splits)

lemma f64_above_le:
  assumes "f64_above x r" and "view64 d = FNum s m e" and "f64_val d \<le> r"
  shows "f64_le d x"
proof (cases "view64 x")
  case FNan
  with assms(1) show ?thesis by (simp add: f64_above_def)
next
  case (FInf s)
  with assms(1,2) show ?thesis by (simp add: f64_above_def f64_le_def f64_lt_def)
next
  case (FNum u k g)
  with assms(1) have "r \<le> f64_val x" by (simp add: f64_above_def)
  with assms(3) have "f64_val d < f64_val x \<or> f64_val d = f64_val x" by linarith
  then show ?thesis
    using lt_FNum [OF assms(2) FNum] eq_FNum [OF assms(2) FNum] by (simp add: f64_le_def)
qed

lemma mag_above_zero: "0 \<le> b \<Longrightarrow> view64 x = mag_view False b \<Longrightarrow> f64_above x 0"
  by (auto simp: f64_above_def mag_view_def f64_val_def fval_def signed_def split: fview.splits if_splits)

text \<open>A number of the normal range is rounded to at least a half and at most the double of it.\<close>

lemma half_bound: "a \<le> b \<Longrightarrow> x < 2 * a \<Longrightarrow> x / 2 \<le> (b :: real)"
  by linarith

lemma double_bound: "\<bar>g - y\<bar> \<le> 1 / 2 \<Longrightarrow> (1 :: real) \<le> g \<Longrightarrow> g \<le> 2 * y"
  by linarith

lemma scaled_bound: "g \<le> 2 * (x / u) \<Longrightarrow> 0 < u \<Longrightarrow> g * u \<le> 2 * (x :: real)"
  by (simp add: pos_le_divide_eq)

lemma rounded_bounds:
  assumes "0 < n" and "0 < d" and big: "2 powi (- 1000) \<le> of_int n / of_int d * (2 powi e :: real)"
    and fin: "no_overflow n d e"
  shows "\<exists>m q. view64 (mk64 s (round_mag binary64 n d e)) = FNum s m q
    \<and> of_int n / of_int d * 2 powi e / 2 \<le> of_int m * (2 powi q :: real)
    \<and> of_int m * 2 powi q \<le> 2 * (of_int n / of_int d * 2 powi e :: real)"
proof -
  let ?x = "of_int n / of_int d * 2 powi e :: real" and ?L = "ratio_log2 n d + e"
  have x: "?x < 2 powi (?L + 1)"
  proof -
    have "?x < 2 powi (ratio_log2 n d + 1) * 2 powi e"
      by (intro mult_strict_right_mono ratio_log2_bounds(2) assms) simp
    also have "\<dots> = 2 powi (?L + 1)" by (simp add: power_int_add)
    finally show ?thesis .
  qed
  with big have "(2 :: real) powi (- 1000) < 2 powi (?L + 1)" by linarith
  then have "- 1000 < ?L + 1"
    using power_int_increasing [of "?L + 1" "- 1000" "2 :: real"] by (intro not_le_imp_less) auto
  then have u: "ulp_exp n d e = ?L - 52" and "- 1074 < ulp_exp n d e"
    by (simp_all add: ulp_exp_def)
  then have "2 ^ 52 \<le> significand n d e"
    using significand_range(3) [OF assms(1,2)] by simp
  then have sig: "(2 ^ 52 :: real) \<le> of_int (significand n d e)"
    by (simp only: of_int_le_iff [symmetric, where 'a = real]) simp
  obtain m q where v: "view64 (mk64 s (round_mag binary64 n d e)) = FNum s m q"
    and val: "of_int m * 2 powi q = (of_int (significand n d e) * 2 powi ulp_exp n d e :: real)"
    using round_view [OF assms(1,2) fin] by blast
  have "(2 :: real) ^ 52 * 2 powi (?L - 52) = 2 powi ?L" by (simp add: power_int_diff)
  with sig have "2 powi ?L \<le> (of_int m * 2 powi q :: real)"
    unfolding val u by (metis mult_right_mono zero_le_power_int zero_le_numeral)
  moreover have "?x < 2 * 2 powi ?L" using x by (simp add: power_int_add)
  ultimately have low: "?x / 2 \<le> of_int m * 2 powi q" by (rule half_bound)
  have "of_int (significand n d e) \<le> 2 * (?x / 2 powi ulp_exp n d e)"
    by (rule double_bound [OF significand_error [OF assms(2)]]) (use sig in simp)
  then have "of_int (significand n d e) * 2 powi ulp_exp n d e \<le> 2 * ?x"
    by (rule scaled_bound) simp
  then have "of_int m * 2 powi q \<le> 2 * ?x" unfolding val .
  with v low show ?thesis by blast
qed

lemma rounded_above_half:
  assumes "0 < n" and "0 < d" and "2 powi (- 1000) \<le> of_int n / of_int d * (2 powi e :: real)"
  shows "f64_above (mk64 False (round_mag binary64 n d e)) (of_int n / of_int d * 2 powi e / 2)"
proof (cases "no_overflow n d e")
  case True
  with rounded_bounds [OF assms True, of False] show ?thesis
    by (auto simp: f64_above_def f64_val_def fval_def signed_def)
next
  case False
  then have "round_mag binary64 n d e = 2047 * 2 ^ 52"
    using assms(1) by (simp add: round_mag_eq no_overflow_def)
  moreover have "view64 (mk64 False (2047 * 2 ^ 52)) = FInf False"
    by (subst view_mk64) (simp_all add: mag_view_def)
  ultimately show ?thesis by (simp add: f64_above_def)
qed

lemma in_range_no_overflow:
  assumes "0 < n" and "0 < d" and "of_int n / of_int d * (2 powi e :: real) \<le> 2 powi 1000"
  shows "no_overflow n d e"
proof -
  have "2 powi (ratio_log2 n d + e) \<le> of_int n / of_int d * (2 powi e :: real)"
    using mult_right_mono [OF ratio_log2_bounds(1) [OF assms(1,2)], of "2 powi e"]
    by (simp add: power_int_add)
  with assms(3) have "(2 :: real) powi (ratio_log2 n d + e) \<le> 2 powi 1000" by linarith
  then have "ratio_log2 n d + e \<le> 1000"
    using power_int_strict_increasing [of 1000 "ratio_log2 n d + e" "2 :: real"]
    by (intro leI) auto
  then have "ulp_exp n d e + 1074 \<le> 2022" by (simp add: ulp_exp_def)
  then have "(ulp_exp n d e + 1074) * 2 ^ 52 \<le> 2022 * 2 ^ 52" by (intro mult_right_mono) simp_all
  with significand_range(2) [OF assms(1,2), of e] show ?thesis
    by (simp add: no_overflow_def)
qed

lemma tiny_power: "(2 :: real) powi (- 1000) \<le> 1"
  using power_int_increasing [of "- 1000" 0 "2 :: real"] by simp

lemma of_int_above_half:
  assumes "1 \<le> k"
  shows "f64_above (f64_of_int k) (of_int k / 2)"
proof -
  have "(2 :: real) powi (- 1000) \<le> 1" by (rule tiny_power)
  also have "\<dots> \<le> of_int k" using assms by simp
  finally have "f64_above (mk64 False (round_mag binary64 k 1 0)) (of_int k / 2)"
    using rounded_above_half [where n = k and d = 1 and e = 0] assms by simp
  then show ?thesis using assms by (simp add: f64_of_int_def)
qed

lemma of_int_above_zero: "0 \<le> k \<Longrightarrow> f64_above (f64_of_int k) 0"
  unfolding f64_of_int_def
  by (rule mag_above_zero [OF round_mag_range(1) [where n = "\<bar>k\<bar>" and d = 1 and e = 0]])
    (simp_all add: view_rounded)

lemma div_above_zero:
  assumes "f64_above a 0" and "view64 b = FNum False k g" and "0 < k"
  shows "f64_above (f64_div a b) 0"
proof (cases "view64 a")
  case FNan
  with assms(1) show ?thesis by (simp add: f64_above_def)
next
  case (FInf s)
  with assms have "f64_div a b = mk64 False (2047 * 2 ^ 52)"
    by (simp add: f64_above_def f64_div_def f64_inf_def binary64_consts)
  then show ?thesis by (simp add: f64_above_def view_mk64 mag_view_def)
next
  case (FNum s m e)
  have m: "0 \<le> m" using view64_ok [OF FNum] by (simp add: fnum_ok_def)
  have div: "f64_div a b = mk64 s (round_mag binary64 m k (e - g))"
    using assms(2,3) by (simp add: f64_div_def FNum)
  have "\<not> (2 :: real) powi e \<le> 0" by (simp add: not_le)
  then have "s \<longrightarrow> m = 0"
    using assms(1) m FNum by (auto simp: f64_above_def f64_val_def fval_def signed_def zero_le_mult_iff)
  then consider "s" "m = 0" | "\<not> s" by blast
  then show ?thesis
  proof cases
    case 1
    then have "view64 (f64_div a b) = FNum True 0 (- 1074)"
      using div by (simp add: round_mag_def view_mk64 mag_view_def)
    then show ?thesis by (simp add: f64_above_def f64_val_def fval_def signed_def)
  next
    case 2
    then show ?thesis
      using div by (intro mag_above_zero [OF round_mag_range(1) [OF m assms(3)]])
        (simp add: view_rounded [OF m assms(3)])
  qed
qed

lemma add_above_half:
  assumes "f64_above a r" and "f64_above b 0" and "1 \<le> r"
  shows "f64_above (f64_add a b) (r / 2)"
proof (cases "view64 a")
  case FNan
  with assms(1) show ?thesis by (simp add: f64_above_def)
next
  case (FInf s)
  with assms(1,2) show ?thesis
    by (cases "view64 b") (auto simp: f64_above_def f64_add_def)
next
  case a: (FNum s m e)
  show ?thesis
  proof (cases "view64 b")
    case FNan
    with assms(2) show ?thesis by (simp add: f64_above_def)
  next
    case (FInf u)
    with a assms(2) show ?thesis by (simp add: f64_above_def f64_add_def)
  next
    case b: (FNum u k g)
    define h where "h = min e g"
    define x where "x = signed s m * 2 ^ nat (e - h) + signed u k * 2 ^ nat (g - h)"
    have "of_int x * 2 powi h = f64_val a + f64_val b"
      unfolding x_def of_int_add distrib_right f64_val_def fval_def a b fview.case
      by (intro arg_cong2 [where f = "(+)"] scaled_value) (simp_all add: h_def)
    moreover have "r \<le> f64_val a" "0 \<le> f64_val b"
      using assms(1,2) a b by (simp_all add: f64_above_def)
    ultimately have sum: "r \<le> of_int x * 2 powi h" by linarith
    with assms(3) have "0 < of_int x * (2 :: real) powi h" by linarith
    then have x: "0 < x" by (metis of_int_0_less_iff zero_less_mult_pos2 zero_less_numeral zero_less_power_int)
    note tiny_power
    with sum assms(3) x have "f64_above (mk64 False (round_mag binary64 x 1 h)) (of_int x * 2 powi h / 2)"
      using rounded_above_half [where n = x and d = 1 and e = h] by simp
    moreover have "f64_add a b = mk64 False (round_mag binary64 x 1 h)"
      using x by (simp add: f64_add_def a b Let_def h_def [symmetric] x_def [symmetric])
    ultimately show ?thesis using sum f64_above_mono by fastforce
  qed
qed

text \<open>A small positive integer is converted to at most its double.\<close>

lemma of_int_bounds:
  assumes "1 \<le> k" and "k \<le> 2 ^ 64"
  shows "\<exists>m q. view64 (f64_of_int k) = FNum False m q
    \<and> of_int k / 2 \<le> of_int m * (2 powi q :: real) \<and> of_int m * 2 powi q \<le> 2 * (of_int k :: real)"
proof -
  have "(of_int k :: real) \<le> of_int (2 ^ 64)" using assms(2) by (simp only: of_int_le_iff)
  also have "\<dots> \<le> 2 powi 1000" using power_int_increasing [of 64 1000 "2 :: real"] by simp
  finally have "no_overflow k 1 0" using assms(1) by (intro in_range_no_overflow) simp_all
  moreover have "(2 :: real) powi (- 1000) \<le> of_int k" using tiny_power assms(1) by linarith
  ultimately show ?thesis
    using rounded_bounds [where n = k and d = 1 and e = 0 and s = False] assms(1) by (simp add: f64_of_int_def)
qed

end
