(* ===== verification/Float64_Error.thy ===== *)
theory Float64_Error
  imports Float64_Bounds
begin

text \<open>
  The error of each operation on floats against the reals: a finite result is the exact one up to a
  relative error of \<open>2^-53\<close> and, below the normal range, an absolute error of \<open>2^-1075\<close>. Results of
  moderate size are finite, and small integers are exact.
\<close>

section \<open>One rounding\<close>

definition unit_roundoff :: real where
  "unit_roundoff = 2 powi (- 53)"

definition underflow_error :: real where
  "underflow_error = 2 powi (- 1075)"

lemma roundoff_pos: "0 < unit_roundoff" "0 < underflow_error"
  by (simp_all add: unit_roundoff_def underflow_error_def)

lemma roundoff_small: "unit_roundoff = 1 / 2 ^ 53" "underflow_error \<le> unit_roundoff"
proof -
  show "unit_roundoff = 1 / 2 ^ 53"
    unfolding unit_roundoff_def by simp
  show "underflow_error \<le> unit_roundoff"
    unfolding unit_roundoff_def underflow_error_def by (rule power_int_increasing) auto
qed

definition close_to :: "real \<Rightarrow> real \<Rightarrow> bool" where
  "close_to y x \<longleftrightarrow> \<bar>y - x\<bar> \<le> \<bar>x\<bar> * unit_roundoff + underflow_error"

lemma close_refl [simp]: "close_to x x"
  using roundoff_pos by (simp add: close_to_def)

lemma close_neg: "close_to (- y) (- x) \<longleftrightarrow> close_to y x"
proof -
  have "\<bar>- y - - x\<bar> = \<bar>y - x\<bar>" by linarith
  then show ?thesis by (simp add: close_to_def)
qed

lemma overflow_view:
  assumes "0 < n" and "\<not> no_overflow n d e"
  shows "view64 (mk64 s (round_mag binary64 n d e)) = FInf s"
proof -
  have "round_mag binary64 n d e = 2047 * 2 ^ 52"
    using assms by (simp add: round_mag_eq no_overflow_def)
  then show ?thesis by (simp add: view_mk64 mag_view_def)
qed

text \<open>What a rounded magnitude is, when it is a number.\<close>

lemma rounded_close:
  assumes "0 \<le> n" and "0 < d" and "view64 (mk64 s (round_mag binary64 n d e)) = FNum t m q"
  shows "t = s" and "close_to (of_int m * 2 powi q) (of_int n / of_int d * 2 powi e)"
proof -
  show "t = s" using assms(3) view_rounded [OF assms(1,2), of s e] mag_view_sign(1) by metis
  show "close_to (of_int m * 2 powi q) (of_int n / of_int d * 2 powi e)"
  proof (cases "n = 0")
    case True
    with assms(3) show ?thesis by (auto simp: round_mag_def view_mk64 mag_view_def)
  next
    case False
    then have n: "0 < n" using assms(1) by simp
    have "no_overflow n d e" using overflow_view [OF n] assms(3) by force
    from round_view [OF n assms(2) this, of s] assms(3)
    have val: "of_int m * 2 powi q = (of_int (significand n d e) * 2 powi ulp_exp n d e :: real)" by auto
    show ?thesis
      using rounded_error_at [OF n assms(2), of binary64 e] n assms(2)
      by (simp add: close_to_def unit_roundoff_def underflow_error_def val as_binary64 binary64_consts)
  qed
qed

lemma rounded_value:
  assumes "0 \<le> n" and "0 < d" and "is_finite (mk64 s (round_mag binary64 n d e))"
  shows "close_to (f64_val (mk64 s (round_mag binary64 n d e))) ((if s then - 1 else 1) * (of_int n / of_int d * 2 powi e))"
proof -
  obtain t m q where v: "view64 (mk64 s (round_mag binary64 n d e)) = FNum t m q"
    using assms(3) by (auto simp: is_finite_def split: fview.splits)
  from rounded_close [OF assms(1,2) v] show ?thesis
    using close_neg by (auto simp: f64_val_def fval_def v signed_def)
qed

section \<open>The operations\<close>

lemma finite_view: "is_finite x \<Longrightarrow> (\<And>s m e. view64 x = FNum s m e \<Longrightarrow> 0 \<le> m \<Longrightarrow> P) \<Longrightarrow> P"
  using view64_ok by (fastforce simp: is_finite_def fnum_ok_def split: fview.splits)

lemma FNum_finite: "view64 x = FNum s m e \<Longrightarrow> is_finite x"
  by (simp add: is_finite_def)

lemma val_FNum: "view64 x = FNum s m e \<Longrightarrow> f64_val x = (if s then - 1 else 1) * (of_int m * 2 powi e)"
  by (simp add: f64_val_def fval_def signed_def)

lemma val_zero: "f64_val (f64_zero s) = 0" "is_finite (f64_zero s)"
  by (simp_all add: f64_zero_def f64_val_def fval_def is_finite_def view_mk64 mag_view_def signed_def)

lemma val_neg: "f64_val (f64_neg x) = - f64_val x" "is_finite (f64_neg x) = is_finite x"
  by (simp_all add: f64_val_def fval_def is_finite_def view64_neg signed_def split: fview.split)

lemma add_as_rounding:
  assumes "is_finite a" and "is_finite b"
  obtains x h z where "f64_val a + f64_val b = of_int x * 2 powi h"
    and "f64_add a b = (if x = 0 then f64_zero z else mk64 (x < 0) (round_mag binary64 \<bar>x\<bar> 1 h))"
proof -
  obtain s m e where a: "view64 a = FNum s m e" using finite_view [OF assms(1)] .
  obtain u k g where b: "view64 b = FNum u k g" using finite_view [OF assms(2)] .
  define h where "h = min e g"
  define x where "x = signed s m * 2 ^ nat (e - h) + signed u k * 2 ^ nat (g - h)"
  have "f64_val a + f64_val b = of_int x * 2 powi h"
    unfolding x_def of_int_add distrib_right f64_val_def fval_def a b fview.case
    by (intro arg_cong2 [where f = "(+)"] scaled_value [symmetric]) (simp_all add: h_def)
  moreover have "f64_add a b = (if x = 0 then f64_zero (s \<and> u) else mk64 (x < 0) (round_mag binary64 \<bar>x\<bar> 1 h))"
    by (simp add: f64_add_def a b Let_def h_def [symmetric] x_def [symmetric])
  ultimately show ?thesis by (rule that)
qed

lemma abs_signed_int: "(if x < 0 then - 1 else 1) * (of_int \<bar>x\<bar> / of_int 1 * r) = of_int x * (r :: real)"
  by simp

lemma add_close:
  assumes "is_finite a" and "is_finite b" and "is_finite (f64_add a b)"
  shows "close_to (f64_val (f64_add a b)) (f64_val a + f64_val b)"
proof -
  obtain x h z where sum: "f64_val a + f64_val b = of_int x * 2 powi h"
    and add: "f64_add a b = (if x = 0 then f64_zero z else mk64 (x < 0) (round_mag binary64 \<bar>x\<bar> 1 h))"
    using add_as_rounding [OF assms(1,2)] .
  show ?thesis
  proof (cases "x = 0")
    case True
    then show ?thesis by (simp add: add sum val_zero)
  next
    case False
    with assms(3) rounded_value [where n = "\<bar>x\<bar>" and d = 1 and e = h and s = "x < 0"] show ?thesis
      by (simp only: add sum if_False abs_signed_int)
  qed
qed

lemma finite_rounded:
  assumes "0 \<le> n" and "0 < d" and "of_int n / of_int d * (2 powi e :: real) \<le> 2 powi 1000"
  shows "is_finite (mk64 s (round_mag binary64 n d e))"
proof (cases "n = 0")
  case True
  then show ?thesis by (simp add: round_mag_def is_finite_def view_mk64 mag_view_def)
next
  case False
  with assms(1) have n: "0 < n" by simp
  from round_view [OF n assms(2) in_range_no_overflow [OF n assms(2,3)], of s] show ?thesis
    by (auto simp: is_finite_def)
qed

lemma finite_add:
  assumes "is_finite a" and "is_finite b" and "\<bar>f64_val a + f64_val b\<bar> \<le> 2 powi 1000"
  shows "is_finite (f64_add a b)"
proof -
  obtain x h z where sum: "f64_val a + f64_val b = of_int x * 2 powi h"
    and add: "f64_add a b = (if x = 0 then f64_zero z else mk64 (x < 0) (round_mag binary64 \<bar>x\<bar> 1 h))"
    using add_as_rounding [OF assms(1,2)] .
  have "of_int \<bar>x\<bar> / of_int 1 * (2 powi h :: real) \<le> 2 powi 1000"
    using assms(3) by (simp add: sum abs_mult)
  from finite_rounded [OF _ _ this, of "x < 0"] show ?thesis by (simp add: add val_zero)
qed

lemma add_finite_args: "is_finite (f64_add a b) \<Longrightarrow> is_finite b \<Longrightarrow> is_finite a"
proof (rule ccontr)
  have nan: "view64 f64_nan = FNan" by code_simp
  assume fin: "is_finite (f64_add a b)" "is_finite b" and "\<not> is_finite a"
  then have "f64_add a b = f64_nan \<or> f64_add a b = a"
    by (auto simp: f64_add_def is_finite_def split: fview.splits)
  with fin \<open>\<not> is_finite a\<close> nan show False by (auto simp: is_finite_def)
qed

lemma mul_as_rounding:
  assumes "is_finite a" and "is_finite b"
  obtains s n e where "f64_val a * f64_val b = (if s then - 1 else 1) * (of_int n / of_int 1 * 2 powi e)" and "0 \<le> n"
    and "f64_mul a b = mk64 s (round_mag binary64 n 1 e)"
proof -
  obtain s m e where a: "view64 a = FNum s m e" "0 \<le> m" using finite_view [OF assms(1)] .
  obtain u k g where b: "view64 b = FNum u k g" "0 \<le> k" using finite_view [OF assms(2)] .
  have "f64_val a * f64_val b = (if s \<noteq> u then - 1 else 1) * (of_int (m * k) / of_int 1 * 2 powi (e + g))"
    by (simp add: val_FNum [OF a(1)] val_FNum [OF b(1)] power_int_add)
  moreover have "f64_mul a b = mk64 (s \<noteq> u) (round_mag binary64 (m * k) 1 (e + g))"
    by (simp add: f64_mul_def a b)
  ultimately show ?thesis using a(2) b(2) by (intro that) simp_all
qed

lemma mul_close:
  assumes "is_finite a" and "is_finite b" and "is_finite (f64_mul a b)"
  shows "close_to (f64_val (f64_mul a b)) (f64_val a * f64_val b)"
proof -
  obtain s n e where v: "f64_val a * f64_val b = (if s then - 1 else 1) * (of_int n / of_int 1 * 2 powi e)" "0 \<le> n"
    and m: "f64_mul a b = mk64 s (round_mag binary64 n 1 e)"
    using mul_as_rounding [OF assms(1,2)] .
  from rounded_value [OF v(2) zero_less_one, of s e] assms(3) show ?thesis unfolding v(1) m by blast
qed

lemma finite_mul:
  assumes "is_finite a" and "is_finite b" and "\<bar>f64_val a * f64_val b\<bar> \<le> 2 powi 1000"
  shows "is_finite (f64_mul a b)"
proof -
  obtain s n e where v: "f64_val a * f64_val b = (if s then - 1 else 1) * (of_int n / of_int 1 * 2 powi e)" "0 \<le> n"
    and m: "f64_mul a b = mk64 s (round_mag binary64 n 1 e)"
    using mul_as_rounding [OF assms(1,2)] .
  have "of_int n / of_int 1 * (2 powi e :: real) \<le> 2 powi 1000"
    using assms(3) v by (simp add: abs_mult split: if_splits)
  then show ?thesis unfolding m by (intro finite_rounded v(2)) simp_all
qed

lemma div_close:
  assumes "is_finite a" and "is_finite b" and "f64_val b \<noteq> 0" and "is_finite (f64_div a b)"
  shows "close_to (f64_val (f64_div a b)) (f64_val a / f64_val b)"
proof -
  obtain s m e where a: "view64 a = FNum s m e" "0 \<le> m" using finite_view [OF assms(1)] .
  obtain u k g where b: "view64 b = FNum u k g" "0 \<le> k" using finite_view [OF assms(2)] .
  have k: "0 < k" using assms(3) b by (simp add: val_FNum [OF b(1)] split: if_splits)
  have d: "f64_div a b = mk64 (s \<noteq> u) (round_mag binary64 m k (e - g))"
    using k by (simp add: f64_div_def a b)
  have "f64_val a / f64_val b = (if s \<noteq> u then - 1 else 1) * (of_int m / of_int k * 2 powi (e - g))"
    by (simp add: val_FNum [OF a(1)] val_FNum [OF b(1)] power_int_diff)
  with rounded_value [OF a(2) k, of "s \<noteq> u" "e - g"] assms(4) show ?thesis by (simp only: d)
qed

lemma div_finite_args:
  assumes "is_finite (f64_div a b)" and "is_finite b"
  shows "is_finite a"
proof (rule ccontr)
  have nan: "view64 f64_nan = FNan" and inf: "view64 (f64_inf s) = FInf s" for s
    by (code_simp, simp add: f64_inf_def binary64_consts view_mk64 mag_view_def)
  assume "\<not> is_finite a"
  with assms(2) have "f64_div a b = f64_nan \<or> (\<exists>s. f64_div a b = f64_inf s)"
    by (auto simp: f64_div_def is_finite_def split: fview.splits)
  with assms(1) nan inf show False by (auto simp: is_finite_def)
qed

lemma of_int_close:
  assumes "\<bar>i\<bar> \<le> 2 ^ 64"
  shows "is_finite (f64_of_int i)" and "close_to (f64_val (f64_of_int i)) (of_int i)"
proof -
  have "(of_int \<bar>i\<bar> :: real) \<le> of_int (2 ^ 64)" using assms by (simp only: of_int_le_iff)
  also have "\<dots> \<le> 2 powi 1000" using power_int_increasing [of 64 1000 "2 :: real"] by simp
  finally have "of_int \<bar>i\<bar> / of_int 1 * (2 powi 0 :: real) \<le> 2 powi 1000" by simp
  then show fin: "is_finite (f64_of_int i)"
    unfolding f64_of_int_def by (intro finite_rounded) simp_all
  then show "close_to (f64_val (f64_of_int i)) (of_int i)"
    using rounded_value [where n = "\<bar>i\<bar>" and d = 1 and e = 0 and s = "i < 0"]
    by (simp add: f64_of_int_def split: if_splits)
qed

section \<open>Rounding to an integer\<close>

lemma exact_rounding:
  assumes "0 \<le> n" and "n < 2 ^ 53" and "- 1074 \<le> e" and "e \<le> 900"
  shows "\<exists>m q. view64 (mk64 s (round_mag binary64 n 1 e)) = FNum s m q \<and> of_int m * 2 powi q = (of_int n * 2 powi e :: real)"
proof (cases "n = 0")
  case True
  then show ?thesis by (simp add: round_mag_def view_mk64 mag_view_def)
next
  case False
  then have n: "0 < n" using assms(1) by simp
  have "2 ^ ilog2 n \<le> n" using ilog2_bounds [of n] n by simp
  then have "2 ^ ilog2 n < (2 :: int) ^ 53" using assms(2) by linarith
  then have "ilog2 n < 53" by (rule power_less_imp_less_exp [rotated]) simp
  moreover have "ilog2 1 = 0" by (simp add: ilog2.simps)
  ultimately have u: "ulp_exp n 1 e \<le> e" using assms(3) by (simp add: ulp_exp_def ratio_log2_def Let_def)
  then have "significand n 1 e = n * 2 ^ nat (e - ulp_exp n 1 e)"
    using rne_exact [of 1 "n * 2 ^ nat (e - ulp_exp n 1 e)"] by (simp add: significand_def Let_def)
  then have val: "of_int (significand n 1 e) * 2 powi ulp_exp n 1 e = (of_int n * 2 powi e :: real)"
    using scaled_value [OF u, of n] by simp
  have "of_int n / of_int 1 * (2 powi e :: real) \<le> 2 powi 1000"
  proof -
    have "(of_int n :: real) \<le> of_int (2 ^ 53)" using assms(2) by (simp only: of_int_le_iff)
    moreover have "(2 :: real) powi e \<le> 2 powi 900" using assms(4) by (intro power_int_increasing) simp_all
    ultimately have "of_int n * (2 powi e :: real) \<le> of_int (2 ^ 53) * 2 powi 900" using n by (intro mult_mono) simp_all
    also have "\<dots> \<le> 2 powi 1000" by simp
    finally show ?thesis by simp
  qed
  from round_view [OF n _ in_range_no_overflow [OF n _ this], of s] val show ?thesis by simp
qed

lemma to_i128_of_value:
  assumes "view64 a = FNum s m e" and "f64_val a = of_int i"
  shows "f64_to_i128 a = max i128_min (min i128_max i)"
proof -
  have m: "0 \<le> m" using view64_ok [OF assms(1)] by (simp add: fnum_ok_def)
  have "signed s (if 0 \<le> e then m * 2 ^ nat e else m div 2 ^ nat (- e)) = i"
  proof (cases "0 \<le> e")
    case True
    then have "of_int (signed s (m * 2 ^ nat e)) = f64_val a"
      by (simp add: val_FNum [OF assms(1)] signed_def power_int_def)
    then have "of_int (signed s (m * 2 ^ nat e)) = (of_int i :: real)" by (simp only: assms(2))
    with True show ?thesis by (simp only: of_int_eq_iff if_True)
  next
    case False
    then have "(2 :: real) ^ nat (- e) * 2 powi e = 1" by (simp add: power_int_def power_mult_distrib [symmetric])
    then have "of_int (signed s m) = (of_int i * 2 ^ nat (- e) :: real)"
      using assms by (simp add: f64_val_def fval_def) (metis (no_types) mult.assoc mult.commute mult.right_neutral)
    then have "of_int (signed s m) = (of_int (i * 2 ^ nat (- e)) :: real)" by simp
    then have "signed s m = i * 2 ^ nat (- e)" by (simp only: of_int_eq_iff)
    then have "m = (if s then - i else i) * 2 ^ nat (- e)" by (simp add: signed_def split: if_splits)
    with False show ?thesis by (simp add: signed_def)
  qed
  then show ?thesis by (simp add: f64_to_i128_def assms(1))
qed

lemma doubled_near: "2 * (d * n) \<le> 2 * m + d \<Longrightarrow> 2 * m + d < 2 * (d * n) + 2 * d \<Longrightarrow> 2 * \<bar>d * n - m\<bar> \<le> (d :: int)"
  by (cases "m \<le> d * n") simp_all

lemma div_bounds: "0 < k \<Longrightarrow> k * (x div k) \<le> x" "0 < k \<Longrightarrow> x < k * (x div k) + (k :: int)"
  using mult_div_mod_eq [of k x] pos_mod_bound [of k x] pos_mod_sign [of k x] by linarith+

lemma near_above: "2 * \<bar>d * n - m\<bar> \<le> d \<Longrightarrow> d * n \<le> m + (d :: int)"
  by (cases "m \<le> d * n") simp_all

text \<open>\<open>round\<close> and the cast: the nearest integer, unless the cast saturates.\<close>

lemma round_near:
  assumes "is_finite a"
  shows "\<exists>i. f64_to_i128 (f64_round a) = max i128_min (min i128_max i) \<and> \<bar>of_int i - f64_val a\<bar> \<le> 1 / 2"
proof -
  obtain s m e where a: "view64 a = FNum s m e" "0 \<le> m" using finite_view [OF assms] .
  show ?thesis
  proof (cases "0 \<le> e")
    case True
    then have "f64_round a = a" by (simp add: f64_round_def a)
    moreover have "f64_val a = of_int (signed s (m * 2 ^ nat e))"
      using True by (simp add: val_FNum [OF a(1)] signed_def power_int_def)
    ultimately show ?thesis using to_i128_of_value [OF a(1)] by (intro exI [of _ "signed s (m * 2 ^ nat e)"]) simp
  next
    case False
    define d :: int where "d = 2 ^ nat (- e)"
    define n where "n = (2 * m + d) div (2 * d)"
    have d: "2 \<le> d" using False power_increasing [of 1 "nat (- e)" "2 :: int"] by (simp add: d_def)
    have m53: "m < 2 ^ 53" using view64_ok [OF a(1)] by (simp add: fnum_ok_def)
    have n0: "0 \<le> n" using a(2) d by (simp add: n_def pos_imp_zdiv_nonneg_iff)
    have "2 * (d * n) \<le> 2 * m + d" "2 * m + d < 2 * (d * n) + 2 * d"
      using div_bounds [of "2 * d" "2 * m + d"] d by (simp_all add: n_def mult.assoc)
    then have near: "2 * \<bar>d * n - m\<bar> \<le> d" by (rule doubled_near)
    have "d * n < d * 2 ^ 53"
    proof -
      have "d * n \<le> m + d" using near by (rule near_above)
      also have "\<dots> < 2 ^ 53 + d" using m53 by simp
      also have "\<dots> \<le> d * 2 ^ 53" using mult_right_mono [of 2 d "2 ^ 53"] d by simp
      finally show ?thesis .
    qed
    then have n53: "n < 2 ^ 53" using d by simp
    obtain k q where v: "view64 (mk64 s (round_mag binary64 n 1 0)) = FNum s k q"
      and kq: "of_int k * 2 powi q = (of_int n :: real)"
      using exact_rounding [OF n0 n53, of 0 s] by auto
    have r: "f64_round a = mk64 s (round_mag binary64 n 1 0)"
      using False by (simp add: f64_round_def a n_def d_def)
    have "f64_val (f64_round a) = of_int (signed s n)"
      using kq by (simp add: r val_FNum [OF v] signed_def)
    then have cast: "f64_to_i128 (f64_round a) = max i128_min (min i128_max (signed s n))"
      using to_i128_of_value v r by metis
    have dm: "(of_int d :: real) * 2 powi e = 1"
      using False by (simp add: d_def power_int_def power_mult_distrib [symmetric])
    have "of_int (2 * \<bar>d * n - m\<bar>) \<le> (of_int d :: real)" using near by (simp only: of_int_le_iff)
    then have "2 * \<bar>of_int d * of_int n - of_int m\<bar> * 2 powi e \<le> of_int d * (2 powi e :: real)"
      by (intro mult_right_mono) simp_all
    then have "\<bar>(of_int d * of_int n - of_int m) * 2 powi e\<bar> \<le> (1 / 2 :: real)"
      by (simp add: dm abs_mult)
    moreover have "(of_int d * of_int n - of_int m) * 2 powi e = (of_int n - of_int m * 2 powi e :: real)"
      using dm by (simp add: left_diff_distrib)
    ultimately have "\<bar>of_int n - of_int m * 2 powi e\<bar> \<le> (1 / 2 :: real)" by simp
    then have "\<bar>of_int (signed s n) - f64_val a\<bar> \<le> 1 / 2"
      by (simp add: val_FNum [OF a(1)] signed_def abs_minus_commute)
    with cast show ?thesis by blast
  qed
qed

end
