(* ===== verification/Float32_Error.thy ===== *)
theory Float32_Error
  imports Float64_Error
begin

text \<open>
  The casts between \<open>f64\<close> and \<open>f32\<close>: widening is exact, and narrowing to a finite number is off by a
  relative error of \<open>2^-24\<close> and, below the normal range, an absolute error of \<open>2^-150\<close>.
\<close>

definition f32_val :: "f32 \<Rightarrow> real" where
  "f32_val x = fval (view32 x)"

lemma binary32_sel [simp]: "frac_bits binary32 = 23" "exp_bits binary32 = 8"
  by (simp_all add: binary32_def)

lemma binary32_consts: "emin binary32 = - 149" "inf_bits binary32 = 255 * 2 ^ 23"
  by (simp_all add: emin_def inf_bits_def)

lemma view32_mk32:
  assumes "0 \<le> b" and "b \<le> inf_bits binary32"
  shows "view32 (mk32 s b) = unpack binary32 (pack binary32 s b)"
proof -
  have "uint (word_of_int (pack binary32 s b) :: u32) = pack binary32 s b"
    unfolding uint_word_of_int using pack_range [OF assms, of s] by (intro mod_pos_pos_trivial) simp_all
  then show ?thesis by (simp add: view32_def mk32_def)
qed

lemma view32_range: "view32 x = FNum s m e \<Longrightarrow> 0 \<le> m \<and> m < 2 ^ 24 \<and> - 149 \<le> e \<and> e \<le> 104"
proof -
  let ?b = "uint (f32_to_bits x)"
  assume v: "view32 x = FNum s m e"
  have E: "0 \<le> (?b div 2 ^ 23) mod 2 ^ 8" "(?b div 2 ^ 23) mod 2 ^ 8 < 2 ^ 8" by simp_all
  have F: "0 \<le> ?b mod 2 ^ 23" "?b mod 2 ^ 23 < 2 ^ 23" by simp_all
  show ?thesis
    using v E F unfolding view32_def unpack_def Let_def binary32_sel binary32_consts
    by (auto split: if_splits)
qed

lemma widen_exact:
  assumes "is_finite32 x"
  shows "is_finite (f64_of_f32 x)" and "f64_val (f64_of_f32 x) = f32_val x"
proof -
  obtain s m e where v: "view32 x = FNum s m e"
    using assms by (auto simp: is_finite32_def split: fview.splits)
  from view32_range [OF v] have "0 \<le> m" "m < 2 ^ 53" "- 1074 \<le> e" "e \<le> 900" by simp_all
  from exact_rounding [OF this, of s]
  obtain k q where kq: "view64 (f64_of_f32 x) = FNum s k q" "of_int k * 2 powi q = (of_int m * 2 powi e :: real)"
    by (auto simp: f64_of_f32_def v)
  from FNum_finite [OF kq(1)] show "is_finite (f64_of_f32 x)" .
  from kq(2) show "f64_val (f64_of_f32 x) = f32_val x"
    by (simp add: val_FNum [OF kq(1)] f32_val_def fval_def v signed_def)
qed

lemma narrow_view:
  assumes "0 \<le> n" and "is_finite32 (mk32 s (round_mag binary32 n 1 e))"
  shows "\<exists>m q. view32 (mk32 s (round_mag binary32 n 1 e)) = FNum s m q
    \<and> \<bar>of_int m * 2 powi q - of_int n * 2 powi e\<bar> \<le> of_int n * 2 powi e * 2 powi (- 24) + (2 powi (- 150) :: real)"
proof -
  have view: "view32 (mk32 s (round_mag binary32 n 1 e)) = unpack binary32 (pack binary32 s (round_mag binary32 n 1 e))"
    by (intro view32_mk32 round_mag_range_at assms) simp_all
  show ?thesis
  proof (cases "n = 0")
    case True
    then have "view32 (mk32 s (round_mag binary32 n 1 e)) = FNum s 0 (- 149)"
      unfolding view by (subst unpack_pack) (simp_all add: round_mag_def mag_view_at_def binary32_consts)
    with True show ?thesis by simp
  next
    case False
    with assms(1) have n: "0 < n" by simp
    have "fits_at binary32 n 1 e"
    proof (rule ccontr)
      assume "\<not> fits_at binary32 n 1 e"
      then have "round_mag binary32 n 1 e = inf_bits binary32"
        by (simp add: round_mag_at [OF n] fits_at_def)
      then have "view32 (mk32 s (round_mag binary32 n 1 e)) = FInf s"
        unfolding view by (subst unpack_pack) (simp_all add: mag_view_at_def binary32_consts)
      with assms(2) show False by (simp add: is_finite32_def)
    qed
    from round_view_at [OF n _ this, of s] rounded_error_at [OF n, of 1 binary32 e] show ?thesis
      unfolding view binary32_consts binary32_sel by auto
  qed
qed

lemma narrow_close:
  assumes "is_finite x" and "is_finite32 (f32_of_f64 x)"
  shows "\<bar>f32_val (f32_of_f64 x) - f64_val x\<bar> \<le> \<bar>f64_val x\<bar> * 2 powi (- 24) + 2 powi (- 150)"
proof -
  obtain s n e where v: "view64 x = FNum s n e" "0 \<le> n" using finite_view [OF assms(1)] .
  have cast: "f32_of_f64 x = mk32 s (round_mag binary32 n 1 e)" by (simp add: f32_of_f64_def v)
  obtain m q where w: "view32 (f32_of_f64 x) = FNum s m q"
    and near: "\<bar>of_int m * 2 powi q - of_int n * 2 powi e\<bar> \<le> of_int n * 2 powi e * 2 powi (- 24) + (2 powi (- 150) :: real)"
    using narrow_view [OF v(2)] assms(2) unfolding cast by blast
  define a b where "a = of_int m * (2 powi q :: real)" and "b = of_int n * (2 powi e :: real)"
  have "0 \<le> b" using v(2) by (simp add: b_def)
  moreover have "f32_val (f32_of_f64 x) = (if s then - a else a)" "f64_val x = (if s then - b else b)"
    by (simp_all add: f32_val_def fval_def w val_FNum [OF v(1)] signed_def a_def b_def)
  moreover have "\<bar>a - b\<bar> = \<bar>- a - - b\<bar>" by linarith
  ultimately show ?thesis using near unfolding a_def [symmetric] b_def [symmetric] by (cases s) simp_all
qed

end
