(* ===== verification/Wire_Numeric.thy ===== *)
theory Wire_Numeric
  imports Wire_Values Float32_Error
begin

text \<open>
  Numeric signals on the wire: how far the value decoded from a payload is from the value that was
  encoded into it, in terms of the scale and offset of the signal.
\<close>

section \<open>Accumulated rounding\<close>

lemma near_trans: "\<bar>b - a\<bar> \<le> d \<Longrightarrow> \<bar>a - z\<bar> \<le> e \<Longrightarrow> \<bar>b - z\<bar> \<le> d + (e :: real)"
  using abs_triangle_ineq [of "b - a" "a - z"] by simp

lemma near_size: "\<bar>a - z\<bar> \<le> e \<Longrightarrow> \<bar>a\<bar> \<le> \<bar>z\<bar> + (e :: real)"
  using abs_triangle_ineq [of "a - z" z] by simp

lemma near_shift: "\<bar>b - z\<bar> \<le> e \<Longrightarrow> \<bar>(b + c) - (z + c)\<bar> \<le> (e :: real)"
  by simp

lemma close_step:
  assumes "close_to b a" and "\<bar>a\<bar> \<le> k * m + k * underflow_error"
  shows "\<bar>b - a\<bar> \<le> k * (m * unit_roundoff) + k * (underflow_error * unit_roundoff) + underflow_error"
proof -
  have "\<bar>a\<bar> * unit_roundoff \<le> (k * m + k * underflow_error) * unit_roundoff"
    using assms(2) by (rule mult_right_mono) (simp add: roundoff_pos less_imp_le)
  with assms(1) show ?thesis by (simp add: close_to_def distrib_right mult.assoc)
qed

lemma close_scaled:
  assumes "close_to b a" and "\<bar>a * c\<bar> \<le> k * m + k * underflow_error" and "\<bar>c\<bar> \<le> m"
  shows "\<bar>b * c - a * c\<bar> \<le> k * (m * unit_roundoff) + k * (underflow_error * unit_roundoff) + m * unit_roundoff"
proof -
  have "\<bar>b - a\<bar> \<le> \<bar>a\<bar> * unit_roundoff + unit_roundoff"
    using assms(1) roundoff_small(2) unfolding close_to_def by linarith
  then have "\<bar>b - a\<bar> * \<bar>c\<bar> \<le> (\<bar>a\<bar> * unit_roundoff + unit_roundoff) * \<bar>c\<bar>"
    by (rule mult_right_mono) simp
  then have "\<bar>b * c - a * c\<bar> \<le> \<bar>a * c\<bar> * unit_roundoff + \<bar>c\<bar> * unit_roundoff"
    unfolding left_diff_distrib [symmetric] abs_mult distrib_right by (simp only: ac_simps)
  also have "\<dots> \<le> (k * m + k * underflow_error) * unit_roundoff + m * unit_roundoff"
    using assms(2,3) roundoff_pos(1) by (intro add_mono mult_right_mono) simp_all
  finally show ?thesis by (simp add: distrib_right mult.assoc)
qed

text \<open>
  The five operations between the value encoded and the value decoded, on reals: subtract the offset,
  divide by the scale, (round to an integer \<open>r\<close>,) convert, multiply by the scale, add the offset.
\<close>

lemma chain_error:
  fixes x :: real
  assumes s1: "close_to s1 (x - off)" and s2: "close_to s2 (s1 / sc)" and sc: "sc \<noteq> 0"
    and r: "\<bar>r * sc - s2 * sc\<bar> \<le> h" and f: "close_to f r"
  defines "m \<equiv> \<bar>x\<bar> + \<bar>off\<bar> + \<bar>sc\<bar>"
  assumes h: "h \<le> m / 2 + underflow_error / 2"
  shows "\<bar>s2 * sc\<bar> \<le> 2 * m + 2 * underflow_error"
    and "\<bar>f * sc\<bar> \<le> 2 * m + 2 * underflow_error"
    and "close_to p (f * sc) \<Longrightarrow> \<bar>p + off\<bar> \<le> 3 * m + 3 * underflow_error"
    and "close_to p (f * sc) \<Longrightarrow> close_to y (p + off)
      \<Longrightarrow> \<bar>y - x\<bar> \<le> h + m / 2 ^ 49 + 8 * underflow_error"
proof -
  define n where "n = m * unit_roundoff"
  define t where "t = underflow_error"
  define g where "g = underflow_error * unit_roundoff"
  have m: "0 \<le> m" "\<bar>sc\<bar> \<le> m" "\<bar>x\<bar> + \<bar>off\<bar> + \<bar>sc\<bar> = m" by (simp_all add: m_def)
  have n16: "16 * n = m / 2 ^ 49" by (simp add: n_def roundoff_small(1))
  have n: "0 \<le> n" "16 * n \<le> m" using m(1) by (simp_all add: n_def roundoff_small(1))
  have t: "0 < t" by (simp add: t_def roundoff_pos)
  have g: "0 \<le> g" "16 * g \<le> t" using roundoff_pos(2) by (simp_all add: g_def t_def roundoff_small(1))
  note folds = n_def [symmetric] t_def [symmetric] g_def [folded t_def, symmetric]
  let ?z = "x - off"
  have z: "\<bar>?z\<bar> + \<bar>sc\<bar> \<le> m" using abs_triangle_ineq4 [of x off] by (simp add: m_def)
  have e1: "\<bar>s1 - ?z\<bar> \<le> n + g + t"
    using close_step [OF s1, where k = 1 and m = m] z t m(2) unfolding folds by simp
  have "\<bar>s1\<bar> \<le> 2 * m + 2 * t" using near_size [OF e1] z n g t m by linarith
  then have "\<bar>s2 * sc - s1\<bar> \<le> 3 * n + 2 * g"
    using close_scaled [OF s2, of sc 2 m] sc m(2) unfolding folds by simp
  from near_trans [OF this e1] have e2: "\<bar>s2 * sc - ?z\<bar> \<le> 4 * n + 3 * g + t" by simp
  show "\<bar>s2 * sc\<bar> \<le> 2 * m + 2 * underflow_error"
    unfolding folds using near_size [OF e2] z n g t m by linarith
  have hs: "0 \<le> h" using r by linarith
  note h = h [folded t_def]
  from near_trans [OF r e2] have e3: "\<bar>r * sc - ?z\<bar> \<le> h + (4 * n + 3 * g + t)" .
  have "\<bar>r * sc\<bar> \<le> 2 * m + 2 * t" using near_size [OF e3] z n g t m h hs by linarith
  then have "\<bar>f * sc - r * sc\<bar> \<le> 3 * n + 2 * g"
    using close_scaled [OF f, of sc 2 m] m(2) unfolding folds by simp
  from near_trans [OF this e3] have e4: "\<bar>f * sc - ?z\<bar> \<le> h + (7 * n + 5 * g + t)" by simp
  show fs: "\<bar>f * sc\<bar> \<le> 2 * m + 2 * underflow_error"
    unfolding folds using near_size [OF e4] z n g t m h hs by linarith
  assume p: "close_to p (f * sc)"
  from near_trans [OF close_step [OF p fs, unfolded folds] e4]
  have e5: "\<bar>p - ?z\<bar> \<le> h + (9 * n + 7 * g + 2 * t)" by simp
  from near_shift [OF this, of off] have e6: "\<bar>(p + off) - x\<bar> \<le> h + (9 * n + 7 * g + 2 * t)" by simp
  show ps: "\<bar>p + off\<bar> \<le> 3 * m + 3 * underflow_error"
    unfolding folds using near_size [OF e6] n g t m h hs by linarith
  assume y: "close_to y (p + off)"
  from near_trans [OF close_step [OF y ps, unfolded folds] e6]
  show "\<bar>y - x\<bar> \<le> h + m / 2 ^ 49 + 8 * underflow_error"
    unfolding folds n16 [symmetric] using n g t by linarith
qed

section \<open>Numeric signals\<close>

definition sig_scale_val :: "signal \<Rightarrow> real" where
  "sig_scale_val s = f64_val (sd_scale (sig_def s))"

definition sig_offset_val :: "signal \<Rightarrow> real" where
  "sig_offset_val s = f64_val (sd_offset (sig_def s))"

text \<open>The magnitudes that the conversions of a value \<open>x\<close> of a signal handle.\<close>

definition magnitude :: "signal \<Rightarrow> real \<Rightarrow> real" where
  "magnitude s x = \<bar>x\<bar> + \<bar>sig_offset_val s\<bar> + \<bar>sig_scale_val s\<bar>"

text \<open>
  Half a step of the scale for the integer types, the precision of \<open>f32\<close>, and the rounding of the five
  operations.
\<close>

definition numeric_error :: "signal \<Rightarrow> real \<Rightarrow> real" where
  "numeric_error s x =
     (case sig_ty s of TF64 \<Rightarrow> 0 | TF32 \<Rightarrow> magnitude s x / 2 ^ 22 + underflow_error / 2 | _ \<Rightarrow> \<bar>sig_scale_val s\<bar> / 2)
       + magnitude s x / 2 ^ 49 + 8 * underflow_error"

lemma scale_nonzero:
  assumes "signal_new d = Ok s"
  shows "is_finite (sd_scale (sig_def s))" and "is_finite (sd_offset (sig_def s))" and "sig_scale_val s \<noteq> 0"
proof -
  have vd: "valid_def d" and d: "sig_def s = d" using assms by (simp_all add: signal_new_Ok_iff)
  then show fin: "is_finite (sd_scale (sig_def s))" "is_finite (sd_offset (sig_def s))"
    by (simp_all add: valid_def_def)
  have zero: "view64 (f64_lit 0 1) = FNum False 0 (- 1074)" by code_simp
  obtain z m e where v: "view64 (sd_scale d) = FNum z m e" using finite_view [OF fin(1)] unfolding d .
  from vd have "\<not> f64_eq (sd_scale d) (f64_lit 0 1)" by (simp add: valid_def_def)
  then show "sig_scale_val s \<noteq> 0"
    unfolding eq_FNum [OF v zero] sig_scale_val_def d by (simp add: val_FNum [OF zero])
qed

lemma small_sizes:
  assumes "m \<le> 2 ^ 900"
  shows "2 * m + 2 * underflow_error \<le> 2 powi 1000" and "3 * m + 3 * underflow_error \<le> 2 powi 1000"
proof -
  have "underflow_error \<le> (1 :: real)" using roundoff_small by simp
  moreover have "(1 :: real) \<le> 2 ^ 900" by simp
  moreover have "6 * (2 :: real) ^ 900 \<le> 2 powi 1000" by simp
  ultimately show "2 * m + 2 * underflow_error \<le> 2 powi 1000" and "3 * m + 3 * underflow_error \<le> 2 powi 1000"
    using assms by linarith+
qed

text \<open>What the encoder computes before the raw value: a scaled value \<open>q\<close>.\<close>

lemma scaled_steps:
  assumes new: "signal_new d = Ok s"
    and q: "q = f64_div (f64_sub x (sd_offset (sig_def s))) (sd_scale (sig_def s))" "is_finite q"
  obtains v where "close_to v (f64_val x - sig_offset_val s)" and "close_to (f64_val q) (v / sig_scale_val s)"
proof -
  note fin = scale_nonzero [OF new]
  let ?d = "f64_sub x (sd_offset (sig_def s))"
  have d: "is_finite ?d" using q div_finite_args fin(1) by blast
  then have x: "is_finite x" unfolding f64_sub_def by (rule add_finite_args) (simp add: val_neg fin(2))
  have "close_to (f64_val ?d) (f64_val x - sig_offset_val s)"
    using add_close [OF x, of "f64_neg (sd_offset (sig_def s))"] d fin(2)
    by (simp add: f64_sub_def val_neg sig_offset_val_def)
  moreover have "close_to (f64_val q) (f64_val ?d / sig_scale_val s)"
    using div_close [OF d fin(1)] fin(3) q by (simp add: sig_scale_val_def)
  ultimately show ?thesis by (rule that)
qed

lemma scaled_size:
  assumes new: "signal_new d = Ok s"
    and q: "q = f64_div (f64_sub x (sd_offset (sig_def s))) (sd_scale (sig_def s))" "is_finite q"
  shows "\<bar>f64_val q * sig_scale_val s\<bar> \<le> 2 * magnitude s (f64_val x) + 2 * underflow_error"
proof -
  obtain v where v: "close_to v (f64_val x - sig_offset_val s)" "close_to (f64_val q) (v / sig_scale_val s)"
    using scaled_steps [OF new q] .
  have "\<bar>f64_val q * sig_scale_val s - f64_val q * sig_scale_val s\<bar> \<le> 0" by simp
  from chain_error(1) [OF v scale_nonzero(3) [OF new] this close_refl] roundoff_pos(2)
  show ?thesis by (simp add: magnitude_def)
qed

text \<open>From a raw value \<open>r\<close> near it, itself near the float \<open>f\<close> the decoder starts from, to the decoded value.\<close>

lemma decoded_near:
  fixes s x f
  defines "phys \<equiv> f64_add (f64_mul f (sd_scale (sig_def s))) (sd_offset (sig_def s))"
  assumes new: "signal_new d = Ok s"
    and size: "magnitude s (f64_val x) \<le> 2 ^ 900"
    and q: "q = f64_div (f64_sub x (sd_offset (sig_def s))) (sd_scale (sig_def s))" "is_finite q"
    and r: "\<bar>r * sig_scale_val s - f64_val q * sig_scale_val s\<bar> \<le> h"
    and h: "h \<le> magnitude s (f64_val x) / 2 + underflow_error / 2"
    and f: "is_finite f" "close_to (f64_val f) r"
  shows "is_finite phys" and "\<bar>f64_val phys - f64_val x\<bar> \<le> h + magnitude s (f64_val x) / 2 ^ 49 + 8 * underflow_error"
proof -
  note fin = scale_nonzero [OF new] and folds = sig_scale_val_def [symmetric] sig_offset_val_def [symmetric]
  obtain v where v: "close_to v (f64_val x - sig_offset_val s)" "close_to (f64_val q) (v / sig_scale_val s)"
    using scaled_steps [OF new q] .
  note chain = chain_error [OF v fin(3) r f(2) h [unfolded magnitude_def], folded magnitude_def]
  let ?p = "f64_mul f (sd_scale (sig_def s))"
  have pfin: "is_finite ?p"
    using order_trans [OF chain(2) small_sizes(1) [OF size]]
    by (intro finite_mul f(1) fin(1)) (simp only: folds)
  have p: "close_to (f64_val ?p) (f64_val f * sig_scale_val s)"
    using mul_close [OF f(1) fin(1) pfin] by (simp only: folds)
  show yfin: "is_finite phys"
    unfolding phys_def using order_trans [OF chain(3) [OF p] small_sizes(2) [OF size]]
    by (intro finite_add pfin fin(2)) (simp only: folds)
  have "close_to (f64_val phys) (f64_val ?p + sig_offset_val s)"
    using add_close [OF pfin fin(2)] yfin by (simp add: phys_def sig_offset_val_def)
  then show "\<bar>f64_val phys - f64_val x\<bar> \<le> h + magnitude s (f64_val x) / 2 ^ 49 + 8 * underflow_error"
    by (rule chain(4) [OF p])
qed

text \<open>The raw integer of a scaled value in range is the nearest one.\<close>

lemma rounded_cast:
  assumes "is_finite q" and "f64_to_i128 (f64_round q) = i" and "\<bar>i\<bar> \<le> 2 ^ 64"
  shows "\<bar>of_int i - f64_val q\<bar> \<le> 1 / 2"
proof -
  obtain j where j: "i = max i128_min (min i128_max j)" "\<bar>of_int j - f64_val q\<bar> \<le> 1 / 2"
    using round_near [OF assms(1)] assms(2) by auto
  have "i128_min < i" "i < i128_max" using assms(3) by (simp_all add: i128_min_def i128_max_def)
  with j(1) have "i = j" by (simp add: max_def min_def split: if_splits)
  with j(2) show ?thesis by simp
qed

lemma write_raw_small: "write_raw ty en (RInt i) = Some p \<Longrightarrow> \<bar>i\<bar> \<le> 2 ^ 64"
  by (cases ty) (auto simp: unsigned_bytes_def signed_bytes_def split: if_splits)

lemma read_f64: "write_raw TF64 en (RFloat q) = Some p \<Longrightarrow> read_raw TF64 en p = Some (RFloat q)"
  by (auto simp: w64.dec_enc)

lemma decode_num_iff:
  assumes "sig_kind s = KNum" and "read_raw (sig_ty s) (sig_endian s) p = Some r"
  shows "decode_value s p =
    (let phys = f64_add (f64_mul (raw_to_f64 r) (sd_scale (sig_def s))) (sd_offset (sig_def s))
     in if is_finite phys then Ok (VNum phys) else Err InvalidValue)"
proof -
  have "length p = type_size (sig_ty s)" using assms(2) read_raw_None_iff [of "sig_ty s" "sig_endian s" p] by force
  then show ?thesis using assms by (simp add: decode_value_def Let_def split: raw.split)
qed

text \<open>The raw value of an \<open>f32\<close> signal.\<close>

lemma read_f32:
  assumes "write_raw TF32 en (RFloat q) = Some p"
  shows "read_raw TF32 en p = Some (RFloat (f64_of_f32 (f32_of_f64 q)))" and "is_finite32 (f32_of_f64 q)"
  using assms by (auto simp: Let_def w32.dec_enc split: if_splits)

lemma narrowed_near:
  assumes new: "signal_new d = Ok s" and num: "is_finite32 (f32_of_f64 q)"
    and q: "q = f64_div (f64_sub x (sd_offset (sig_def s))) (sd_scale (sig_def s))" "is_finite q"
  shows "\<bar>f32_val (f32_of_f64 q) * sig_scale_val s - f64_val q * sig_scale_val s\<bar>
    \<le> magnitude s (f64_val x) / 2 ^ 22 + underflow_error / 2"
proof -
  let ?c = "sig_scale_val s" and ?m = "magnitude s (f64_val x)"
  have tiny: "(2 :: real) powi (- 150) \<le> 1 / 2 ^ 23"
  proof -
    have "(2 :: real) powi (- 150) \<le> 2 powi (- 23)" by (rule power_int_increasing) auto
    then show ?thesis by simp
  qed
  have "\<bar>f32_val (f32_of_f64 q) * ?c - f64_val q * ?c\<bar> = \<bar>f32_val (f32_of_f64 q) - f64_val q\<bar> * \<bar>?c\<bar>"
    by (simp only: left_diff_distrib [symmetric] abs_mult)
  also have "\<dots> \<le> (\<bar>f64_val q\<bar> * 2 powi (- 24) + 2 powi (- 150)) * \<bar>?c\<bar>"
    by (rule mult_right_mono [OF narrow_close [OF q(2) num]]) simp
  also have "\<dots> = \<bar>f64_val q * ?c\<bar> * 2 powi (- 24) + 2 powi (- 150) * \<bar>?c\<bar>"
    unfolding distrib_right abs_mult by (simp only: ac_simps)
  also have "\<dots> \<le> (2 * ?m + 2 * underflow_error) * 2 powi (- 24) + 1 / 2 ^ 23 * ?m"
    using scaled_size [OF new q] tiny by (intro add_mono mult_mono) (simp_all add: magnitude_def)
  also have "\<dots> \<le> ?m / 2 ^ 22 + underflow_error / 2"
    using roundoff_pos(2) by (simp add: distrib_right add_divide_distrib)
  finally show ?thesis .
qed

lemma numeric_roundtrip:
  assumes new: "signal_new d = Ok s" and num: "sig_kind s = KNum"
    and enc: "encode_value s (VNum x) = Ok p" and size: "magnitude s (f64_val x) \<le> 2 ^ 900"
  shows "\<exists>y. decode_value s p = Ok (VNum y) \<and> \<bar>f64_val y - f64_val x\<bar> \<le> numeric_error s (f64_val x)"
proof -
  define q where "q = f64_div (f64_sub x (sd_offset (sig_def s))) (sd_scale (sig_def s))"
  let ?m = "magnitude s (f64_val x)"
  obtain r where raw: "encode_raw s (VNum x) = Ok r" and w: "write_raw (sig_ty s) (sig_endian s) r = Some p"
    using enc by (auto simp: encode_value_def and_then_Ok_iff)
  have fin: "is_finite q" and r: "r = (if is_float (sig_ty s) then RFloat q else RInt (f64_to_i128 (f64_round q)))"
    using raw num by (auto simp: encode_raw_def Let_def q_def [symmetric] split: if_splits)
  have m: "0 \<le> ?m" "\<bar>sig_scale_val s\<bar> \<le> ?m" and t: "0 < underflow_error"
    by (simp_all add: magnitude_def roundoff_pos)
  consider (double) "sig_ty s = TF64" | (single) "sig_ty s = TF32" | (int) "\<not> is_float (sig_ty s)"
    by (auto simp: is_float_def)
  then show ?thesis
  proof cases
    case double
    then have r: "r = RFloat q" by (simp add: r is_float_def)
    have rd: "read_raw (sig_ty s) (sig_endian s) p = Some (RFloat q)"
      using w unfolding r double by (rule read_f64)
    have "\<bar>f64_val q * sig_scale_val s - f64_val q * sig_scale_val s\<bar> \<le> 0" by simp
    note near = decoded_near [OF new size q_def fin this _ fin close_refl]
    show ?thesis
      using near m t by (simp add: decode_num_iff [OF num rd] raw_to_f64_def numeric_error_def double)
  next
    case single
    let ?v = "f32_of_f64 q"
    have r: "r = RFloat q" using single by (simp add: r is_float_def)
    note rd = read_f32 [OF w [unfolded r single], folded single]
    note wide = widen_exact [OF rd(2)]
    have "close_to (f64_val (f64_of_f32 ?v)) (f32_val ?v)" by (simp add: wide)
    note near = decoded_near [OF new size q_def fin narrowed_near [OF new rd(2) q_def fin] _ wide(1) this]
    show ?thesis
      using near m t by (simp add: decode_num_iff [OF num rd(1)] raw_to_f64_def numeric_error_def single)
  next
    case int
    define i where "i = f64_to_i128 (f64_round q)"
    from w have w: "write_raw (sig_ty s) (sig_endian s) (RInt i) = Some p" by (simp add: r int i_def)
    note rd = read_write_int [OF w] and i = write_raw_small [OF w]
    have "\<bar>of_int i - f64_val q\<bar> * \<bar>sig_scale_val s\<bar> \<le> 1 / 2 * \<bar>sig_scale_val s\<bar>"
      by (rule mult_right_mono [OF rounded_cast [OF fin i_def [symmetric] i]]) simp
    then have "\<bar>of_int i * sig_scale_val s - f64_val q * sig_scale_val s\<bar> \<le> \<bar>sig_scale_val s\<bar> / 2"
      by (simp add: left_diff_distrib [symmetric] abs_mult)
    note near = decoded_near [OF new size q_def fin this _ of_int_close [OF i]]
    have "numeric_error s (f64_val x) = \<bar>sig_scale_val s\<bar> / 2 + ?m / 2 ^ 49 + 8 * underflow_error"
      using int by (simp add: numeric_error_def is_float_def split: signal_type.split)
    with near m t show ?thesis by (simp add: decode_num_iff [OF num rd] raw_to_f64_def)
  qed
qed

section \<open>Values of every kind\<close>

text \<open>A value whose conversions stay far from overflow: anything but a huge number, scale or offset.\<close>

definition moderate :: "signal \<Rightarrow> signal_value \<Rightarrow> bool" where
  "moderate s v = (case v of VNum x \<Rightarrow> magnitude s (f64_val x) \<le> 2 ^ 900 | _ \<Rightarrow> True)"

text \<open>The value received for a value sent: the same, for a number up to the error of its signal.\<close>

definition value_near :: "signal \<Rightarrow> signal_value \<Rightarrow> signal_value \<Rightarrow> bool" where
  "value_near s v y =
     (case (v, y) of
        (VNum x, VNum z) \<Rightarrow> \<bar>f64_val z - f64_val x\<bar> \<le> numeric_error s (f64_val x)
      | _ \<Rightarrow> y = v)"

lemma encoded_kind: "encode_value s v = Ok p \<Longrightarrow>
    (sig_kind s = KBool \<longrightarrow> (\<exists>b. v = VBool b)) \<and> (sig_kind s = KEnum \<longrightarrow> (\<exists>l. v = VEnum l))
    \<and> (sig_kind s = KNum \<longrightarrow> (\<exists>x. v = VNum x))"
  by (auto simp: encode_value_def encode_raw_def and_then_Ok_iff split: signal_value.splits value_kind.splits)

lemma sent_value_near:
  assumes new: "signal_new (sig_def s) = Ok s" and enum: "sig_kind s = KEnum \<Longrightarrow> codes_distinct (sig_def s)"
    and enc: "encode_value s v = Ok p" and mod: "moderate s v"
  shows "\<exists>y. decode_value s p = Ok y \<and> value_near s v y"
proof (cases "sig_kind s = KNum")
  case True
  with encoded_kind [OF enc] obtain x where v: "v = VNum x" by blast
  with mod have "magnitude s (f64_val x) \<le> 2 ^ 900" by (simp add: moderate_def)
  from numeric_roundtrip [OF new True enc [unfolded v] this]
  show ?thesis by (auto simp: v value_near_def)
next
  case False
  then have "sig_kind s = KBool \<or> sig_kind s = KEnum \<and> codes_distinct (sig_def s)"
    using enum by (cases "sig_kind s") simp_all
  from sent_value_decodes [OF new this enc] have "decode_value s p = Ok v" .
  moreover have "value_near s v v"
    using encoded_kind [OF enc] False by (cases "sig_kind s") (auto simp: value_near_def)
  ultimately show ?thesis by blast
qed

end
