(* ===== verification/Protocol_Properties.thy ===== *)
theory Protocol_Properties
  imports Examples Wire_Numeric
begin

text \<open>
  The properties of the \<open>protocol\<close> crate: what the decoder returns on any buffer, the encoder and the
  decoder against each other, the values of bool and enum signals, and the catalog.
\<close>

section \<open>The decoder on arbitrary buffers\<close>

text \<open>
  The checks of \<open>docs/PROTOCOL.md\<close> on the bytes of the datagram, in the order of its table.
\<close>

definition magic_of :: "u8 \<Rightarrow> u8 \<Rightarrow> u16" where
  "magic_of a b = word_of_nat (256 * unat a + unat b)"

definition header_error :: "u8 list \<Rightarrow> packet_error option" where
  "header_error buf =
     (if length buf > 1500 then Some (Oversize (length buf))
      else if length buf < 4 then Some (HeaderTruncated (length buf))
      else if magic_of (buf ! 0) (buf ! 1) \<noteq> 0x5445 then Some (BadMagic (magic_of (buf ! 0) (buf ! 1)))
      else if buf ! 2 \<noteq> 1 then Some (BadVersion (buf ! 2))
      else if buf ! 3 = 0 then Some ZeroFrames
      else if 64 < unat (buf ! 3) then Some (TooManyFrames (buf ! 3))
      else None)"

lemma be_bytes_two:
  obtains a b where "to_be_bytes (m :: u16) = [a, b]" and "m = magic_of a b"
proof -
  obtain a b where ab: "to_be_bytes m = [a, b]"
    using be16.length_enc [of m] by (auto simp: length_Suc_conv numeral_2_eq_2)
  then have "from_be_bytes [a, b] = Some m" by (metis be16.dec_enc)
  then have "m = magic_of a b"
    by (simp add: from_be_bytes_def from_le_bytes_def magic_of_def ac_simps)
  with ab that show ?thesis by blast
qed

lemma decode_header_error:
  "header_error buf = (case decode_packet buf c of Err e \<Rightarrow> Some e | Ok _ \<Rightarrow> None)"
proof (cases "length buf \<le> MAX_DATAGRAM_LEN \<and> PACKET_HEADER_LEN \<le> length buf")
  case True
  from header_split obtain m v n ys where buf: "buf = to_be_bytes (m :: u16) @ [v, n] @ ys"
    using True by blast
  have "length ys + PACKET_HEADER_LEN \<le> MAX_DATAGRAM_LEN"
    using True by (simp add: buf be16.length_enc PACKET_HEADER_LEN_def)
  then obtain r where "decode_packet buf c =
      (if m \<noteq> MAGIC then Err (BadMagic m)
       else if v \<noteq> VERSION then Err (BadVersion v)
       else if n = 0 then Err ZeroFrames
       else if unat n > MAX_FRAMES then Err (TooManyFrames n)
       else Ok (after_header n c r))"
    unfolding buf by (rule decode_packet_header)
  moreover obtain a b where ab: "to_be_bytes m = [a, b]" "m = magic_of a b"
    by (rule be_bytes_two)
  have "header_error buf =
      (if m \<noteq> MAGIC then Some (BadMagic m)
       else if v \<noteq> VERSION then Some (BadVersion v)
       else if n = 0 then Some ZeroFrames
       else if unat n > MAX_FRAMES then Some (TooManyFrames n) else None)"
    using True unfolding header_error_def buf ab(1)
    by (simp add: ab(2) [symmetric] MAX_DATAGRAM_LEN_def PACKET_HEADER_LEN_def MAGIC_def VERSION_def
        MAX_FRAMES_def)
  ultimately show ?thesis by simp
next
  case False
  then show ?thesis
    using decode_packet_short [of buf c]
    by (auto simp: header_error_def decode_packet_def MAX_DATAGRAM_LEN_def PACKET_HEADER_LEN_def)
qed

text \<open>C2: A datagram is rejected as a whole exactly when the protocol document says so, with the
  first applicable error of its table: too long, shorter than the header, wrong magic, wrong
  version, no frames, more than 64 frames. Nothing else rejects a datagram.\<close>

theorem packet_rejections:
  "(case decode_packet buf c of Err e \<Rightarrow> Some e | Ok d \<Rightarrow> None) = header_error buf"
  by (simp only: decode_header_error [of buf c])

text \<open>C1: What the decoder makes of an accepted datagram. It is a header, some frames and a rest. When
  all announced frames are there, the result is the outcome of each frame on its own, and a
  non-empty rest is reported as trailing bytes; when a frame is cut short, the result is the outcome
  of the frames before it and one truncation error, and nothing after it is read.\<close>

theorem packet_contents:
  "decode_packet buf c = Ok d \<longleftrightarrow>
    length buf \<le> MAX_DATAGRAM_LEN
    \<and> (\<exists>n fs zs. buf = header_bytes n @ frames_bytes fs @ zs \<and> count_ok n \<and> list_all frame_fits fs
        \<and> (length fs = unat n \<and> d = with_trailing n zs (frames_outcome c fs)
           \<or> length fs < unat n \<and> (\<nexists>f us. frame_fits f \<and> zs = frame_bytes f @ us)
              \<and> d = with_truncated (length fs) zs (frames_outcome c fs)))"
proof
  assume ok: "decode_packet buf c = Ok d"
  then have "length buf \<le> MAX_DATAGRAM_LEN"
    by (auto simp: decode_packet_def split: if_splits)
  with ok show "length buf \<le> MAX_DATAGRAM_LEN
    \<and> (\<exists>n fs zs. buf = header_bytes n @ frames_bytes fs @ zs \<and> count_ok n \<and> list_all frame_fits fs
        \<and> (length fs = unat n \<and> d = with_trailing n zs (frames_outcome c fs)
           \<or> length fs < unat n \<and> (\<nexists>f us. frame_fits f \<and> zs = frame_bytes f @ us)
              \<and> d = with_truncated (length fs) zs (frames_outcome c fs)))"
    by (cases rule: decode_packet_Ok_cases [OF ok]) blast+
qed (auto simp: decode_packet_whole decode_packet_cut)

section \<open>The encoder and the decoder\<close>

text \<open>C4: Decoding what the encoder produced, followed by any extra bytes that still fit a datagram,
  gives back every frame: the result is the outcome of each encoded frame, and the extra bytes are
  reported as trailing.\<close>

theorem packet_roundtrip:
  assumes "encode_packet fs = Ok bytes" and "length (bytes @ zs) \<le> MAX_DATAGRAM_LEN"
  shows "decode_packet (bytes @ zs) c =
    Ok (with_trailing (word_of_nat (length fs)) zs (frames_outcome c fs))"
  using assms by (rule decode_encoded_whole)

theorem packet_roundtrip_witness:
  "decode_packet (demo_bytes @ [0, 0]) r1s =
    Ok (with_trailing (word_of_nat (length demo_frames)) [0, 0] (frames_outcome r1s demo_frames))"
  by (rule packet_roundtrip [OF demo_encoded])
    (simp add: demo_bytes_def length_header_bytes length_frames_bytes length_frame_bytes demo_frames_def MAX_DATAGRAM_LEN_def
      PACKET_HEADER_LEN_def FRAME_HEADER_LEN_def)

text \<open>The errors that concern the layout of a packet, not the value of a frame.\<close>

fun layout_error :: "frame_error_kind \<Rightarrow> bool" where
  "layout_error Truncated = True"
| "layout_error (TrailingBytes n) = True"
| "layout_error _ = False"

lemma frame_failure_layout: "frame_failure c e = Some x \<Longrightarrow> \<not> layout_error (fe_kind x)"
  by (auto simp: frame_failure_def dest!: decode_value_errors split: option.splits result.splits)

lemma frames_outcome_layout: "e \<in> set (dp_errors (frames_outcome c fs)) \<Longrightarrow> \<not> layout_error (fe_kind e)"
  by (auto simp: frames_outcome_def set_map_filter_iff dest: frame_failure_layout)

text \<open>C3: The datagrams that decode without a layout error are exactly the outputs of the encoder, and
  then the result is the outcome of the encoded frames. So the encoding of a list of frames is the
  only one: no other datagram decodes cleanly to it.\<close>

theorem clean_packets_are_encoded:
  "(decode_packet buf c = Ok d \<and> list_all (\<lambda>e. \<not> layout_error (fe_kind e)) (dp_errors d)) \<longleftrightarrow>
    (\<exists>fs. encode_packet fs = Ok buf \<and> d = frames_outcome c fs)"
proof
  assume "decode_packet buf c = Ok d \<and> list_all (\<lambda>e. \<not> layout_error (fe_kind e)) (dp_errors d)"
  then have ok: "decode_packet buf c = Ok d" and clean: "\<forall>e\<in>set (dp_errors d). \<not> layout_error (fe_kind e)"
    by (simp_all add: list_all_iff)
  have len: "length buf \<le> MAX_DATAGRAM_LEN"
    using ok by (auto simp: decode_packet_def split: if_splits)
  from ok show "\<exists>fs. encode_packet fs = Ok buf \<and> d = frames_outcome c fs"
  proof (cases rule: decode_packet_Ok_cases)
    case (whole n fs zs)
    then have "zs = []"
      using clean by (auto simp: with_trailing_def push_error_def split: if_splits)
    moreover have "n = word_of_nat (length fs)" using whole(3) by simp
    moreover have "packet_size fs \<le> MAX_DATAGRAM_LEN"
      using len whole(1) \<open>zs = []\<close> by (simp add: packet_size_def length_header_bytes length_frames_bytes)
    ultimately show ?thesis
      using whole by (intro exI [of _ fs]) (auto simp: encode_packet_Ok_iff with_trailing_def count_ok_def)
  next
    case (cut n fs zs)
    with clean show ?thesis by (simp add: with_truncated_def push_error_def)
  qed
next
  assume "\<exists>fs. encode_packet fs = Ok buf \<and> d = frames_outcome c fs"
  then obtain fs where fs: "encode_packet fs = Ok buf" "d = frames_outcome c fs" by blast
  then have "length buf \<le> MAX_DATAGRAM_LEN"
    using length_encoded [OF fs(1)] by (auto simp: encode_packet_Ok_iff)
  with decode_encoded_whole [OF fs(1), of "[]" c] fs(2)
  show "decode_packet buf c = Ok d \<and> list_all (\<lambda>e. \<not> layout_error (fe_kind e)) (dp_errors d)"
    using frames_outcome_layout [of _ c fs] by (auto simp: with_trailing_def list_all_iff)
qed

text \<open>C5: Losing the end of a datagram loses only the frames that end was part of. If a valid packet
  is cut inside a frame, the frames before it decode as they did, and the only other thing reported
  is one truncation at the index of the frame that was cut.\<close>

theorem truncation_keeps_earlier_frames:
  assumes "encode_packet (gs @ f # hs) = Ok bytes"
    and "PACKET_HEADER_LEN + length (frames_bytes gs) \<le> k"
    and "k < PACKET_HEADER_LEN + length (frames_bytes gs) + length (frame_bytes f)"
  shows "\<exists>sid. decode_packet (take k bytes) c =
    Ok (push_error \<lparr>fe_index = length gs, fe_signal_id = sid, fe_kind = Truncated\<rparr> (frames_outcome c gs))"
  using assms by (rule decode_inside_frame)

theorem truncation_keeps_earlier_frames_witness:
  "\<exists>sid. decode_packet (take 30 demo_bytes) r1s =
    Ok (push_error \<lparr>fe_index = length (take 2 demo_frames), fe_signal_id = sid, fe_kind = Truncated\<rparr>
          (frames_outcome r1s (take 2 demo_frames)))"
  by (rule truncation_keeps_earlier_frames [where f = "demo_frames ! 2" and hs = "[]"])
    (use demo_encoded in \<open>simp_all add: demo_frames_def length_frames_bytes length_frame_bytes
      PACKET_HEADER_LEN_def FRAME_HEADER_LEN_def numeral_2_eq_2\<close>)

section \<open>Samples\<close>

lemma outcome_samples [simp]:
  "dp_samples (with_trailing n zs d) = dp_samples d" "dp_samples (with_truncated i zs d) = dp_samples d"
  "dp_unknown (with_trailing n zs d) = dp_unknown d" "dp_unknown (with_truncated i zs d) = dp_unknown d"
  by (simp_all add: with_trailing_def with_truncated_def push_error_def)

lemma frame_sample_typed:
  assumes "catalog_wf c" and "frame_sample c f = Some smp"
  shows "\<exists>s\<in>set (cat_signals c). by_id c (smp_signal_id smp) = Some s \<and> by_name c (smp_name smp) = Some s
    \<and> kind_matches (sig_kind s) (smp_value smp)
    \<and> (\<forall>l. smp_value smp = VEnum l \<longrightarrow> l \<in> snd ` set (enum_entries (sig_def s)))"
proof -
  from assms(2) obtain s v where s: "by_id c (rf_signal_id f) = Some s"
    and v: "decode_value s (rf_payload f) = Ok v"
    and smp: "smp = \<lparr>smp_signal_id = rf_signal_id f, smp_name = sig_name s,
                smp_timestamp_us = rf_timestamp_us f, smp_value = v\<rparr>"
    by (auto simp: frame_sample_def split: option.splits result.splits)
  have mem: "s \<in> set (cat_signals c)"
    using s by (simp add: cat.find_id_iff [OF assms(1)])
  have "l \<in> snd ` set (enum_entries (sig_def s))" if "v = VEnum l" for l
  proof -
    have "sig_kind s = KEnum"
      using decode_value_kind [OF v] that by (auto simp: kind_matches_def split: value_kind.splits)
    with v that obtain r where "enum_label s r = Some l" by (auto simp: decode_enum_iff)
    from enum_label_Some [OF catalog_wf_signals(2) [OF assms(1) mem] this] show ?thesis by blast
  qed
  with s mem decode_value_kind [OF v] show ?thesis
    by (auto simp: smp intro: cat.same_signal [OF assms(1)])
qed

text \<open>C7: Every decoded sample fits the catalog: its id and its name denote one and the same signal of
  the catalog, its value has the kind of that signal, a number is finite, and an enum label is one
  the catalog declares for the signal.\<close>

theorem samples_fit_the_catalog:
  assumes "catalog_wf c" and "decode_packet buf c = Ok d" and "smp \<in> set (dp_samples d)"
  shows "\<exists>s\<in>set (cat_signals c). by_id c (smp_signal_id smp) = Some s \<and> by_name c (smp_name smp) = Some s
    \<and> kind_matches (sig_kind s) (smp_value smp)
    \<and> (\<forall>l. smp_value smp = VEnum l \<longrightarrow> l \<in> snd ` set (enum_entries (sig_def s)))"
proof -
  from assms(2) obtain fs where "dp_samples d = dp_samples (frames_outcome c fs)"
    by (cases rule: decode_packet_Ok_cases) simp_all
  with assms(3) obtain f where "frame_sample c f = Some smp"
    by (auto simp: frames_outcome_def set_map_filter_iff)
  with assms(1) show ?thesis by (rule frame_sample_typed)
qed

definition demo_sample :: sample where
  "demo_sample = \<lparr>smp_signal_id = 300, smp_name = ''gear'', smp_timestamp_us = 1000, smp_value = VEnum ''D''\<rparr>"

lemma demo_frame_sample: "frame_sample r1s (demo_frames ! 0) = Some demo_sample"
  by code_simp

lemma demo_decoded: "decode_packet demo_bytes r1s = Ok (frames_outcome r1s demo_frames)"
  using decode_encoded_whole [OF demo_encoded, of "[]" r1s] length_encoded [OF demo_encoded] demo_encoded
  by (simp add: encode_packet_Ok_iff with_trailing_def)

theorem samples_fit_the_catalog_witness:
  "\<exists>s\<in>set (cat_signals r1s). by_id r1s (smp_signal_id demo_sample) = Some s
    \<and> by_name r1s (smp_name demo_sample) = Some s \<and> kind_matches (sig_kind s) (smp_value demo_sample)
    \<and> (\<forall>l. smp_value demo_sample = VEnum l \<longrightarrow> l \<in> snd ` set (enum_entries (sig_def s)))"
proof (rule samples_fit_the_catalog [OF r1s_wf demo_decoded])
  have "demo_frames ! 0 \<in> set demo_frames" by (simp add: demo_frames_def)
  with demo_frame_sample show "demo_sample \<in> set (dp_samples (frames_outcome r1s demo_frames))"
    by (auto simp: frames_outcome_def set_map_filter_iff)
qed

text \<open>The frames of a packet that ended in a sample, an error of their own, or an unknown id.\<close>

definition frames_accounted :: "decoded_packet \<Rightarrow> nat" where
  "frames_accounted d =
     length (dp_samples d) + length (filter (\<lambda>e. \<not> layout_error (fe_kind e)) (dp_errors d)) + dp_unknown d"

lemma frames_accounted_outcome: "frames_accounted (frames_outcome c fs) = length fs"
proof -
  have "filter (\<lambda>e. \<not> layout_error (fe_kind e)) (dp_errors (frames_outcome c fs)) = dp_errors (frames_outcome c fs)"
    by (simp add: filter_id_conv frames_outcome_layout)
  then show ?thesis
    using frames_outcome_total [of c fs 0] by (simp add: frames_accounted_def frames_outcome_def)
qed

lemma header_count: "count_ok n \<Longrightarrow> (header_bytes n @ xs) ! 3 = n"
  using length_header_bytes [of n]
  by (simp add: header_bytes_def be16.length_enc nth_append)

text \<open>Every announced frame is accounted for exactly once. Between one and 64 frames are announced;
  each of them that was read ends in exactly one sample, one error of its own or one unknown id; all
  of them were read unless a truncation is reported; and at most one error concerns the layout.\<close>

theorem frames_are_accounted_for:
  assumes "decode_packet buf c = Ok d"
  shows "1 \<le> unat (buf ! 3) \<and> unat (buf ! 3) \<le> 64
    \<and> frames_accounted d \<le> unat (buf ! 3)
    \<and> (frames_accounted d = unat (buf ! 3) \<longleftrightarrow> Truncated \<notin> fe_kind ` set (dp_errors d))
    \<and> length (filter (\<lambda>e. layout_error (fe_kind e)) (dp_errors d)) \<le> 1"
  using assms
proof (cases rule: decode_packet_Ok_cases)
  case (whole n fs zs)
  have quiet: "filter (\<lambda>e. layout_error (fe_kind e)) (dp_errors (frames_outcome c fs)) = []"
    "Truncated \<notin> fe_kind ` set (dp_errors (frames_outcome c fs))"
    using frames_outcome_layout [of _ c fs] by (auto simp: filter_empty_conv, metis layout_error.simps(1))
  have "frames_accounted d = length fs"
    using whole(5) frames_accounted_outcome [of c fs]
    by (simp add: frames_accounted_def with_trailing_def push_error_def)
  then show ?thesis
    using whole quiet header_count [of n]
    by (auto simp: count_ok_def MAX_FRAMES_def with_trailing_def push_error_def)
next
  case (cut n fs zs)
  have quiet: "filter (\<lambda>e. layout_error (fe_kind e)) (dp_errors (frames_outcome c fs)) = []"
    using frames_outcome_layout [of _ c fs] by (auto simp: filter_empty_conv)
  have "frames_accounted d = length fs"
    using cut(6) frames_accounted_outcome [of c fs]
    by (simp add: frames_accounted_def with_truncated_def push_error_def)
  then show ?thesis
    using cut quiet header_count [of n]
    by (auto simp: count_ok_def MAX_FRAMES_def with_truncated_def push_error_def)
qed

theorem frames_are_accounted_for_witness:
  "1 \<le> unat (demo_bytes ! 3) \<and> unat (demo_bytes ! 3) \<le> 64
    \<and> frames_accounted (frames_outcome r1s demo_frames) \<le> unat (demo_bytes ! 3)
    \<and> (frames_accounted (frames_outcome r1s demo_frames) = unat (demo_bytes ! 3) \<longleftrightarrow>
         Truncated \<notin> fe_kind ` set (dp_errors (frames_outcome r1s demo_frames)))
    \<and> length (filter (\<lambda>e. layout_error (fe_kind e)) (dp_errors (frames_outcome r1s demo_frames))) \<le> 1"
  by (rule frames_are_accounted_for [OF demo_decoded])

section \<open>Values\<close>

text \<open>At every integer type and byte order, reading and writing are inverse: a payload reads as an
  integer exactly when that integer writes as the payload. So every payload of the right length has
  one reading, every integer in range has one payload, and nothing out of range is written.\<close>

theorem integers_read_back:
  "read_raw ty en p = Some (RInt i) \<longleftrightarrow> write_raw ty en (RInt i) = Some p"
  by (blast intro: read_write_int write_read_int)

text \<open>C8: A bool or enum value that is sent is the value that is received. Encoding a value of such a
  signal of a validated catalog and decoding the frame against the same catalog gives a sample with
  the signal's id and name, the given time and the given value; for an enum this needs codes that
  differ as numbers.\<close>

theorem sent_values_are_received:
  assumes "catalog_wf c" and "s \<in> set (cat_signals c)"
    and "sig_kind s = KBool \<or> sig_kind s = KEnum \<and> codes_distinct (sig_def s)"
    and "encode_frame s ts v = Ok f"
  shows "frame_sample c f = Some \<lparr>smp_signal_id = sig_id s, smp_name = sig_name s,
    smp_timestamp_us = ts, smp_value = v\<rparr>"
proof -
  from assms(4) obtain p where p: "encode_value s v = Ok p"
    and f: "f = \<lparr>rf_signal_id = sig_id s, rf_timestamp_us = ts, rf_payload = p\<rparr>"
    by (auto simp: encode_frame_def and_then_Ok_iff)
  have "decode_value s p = Ok v"
    by (rule sent_value_decodes [OF catalog_wf_signals(2) [OF assms(1,2)] assms(3) p])
  with assms(1,2) show ?thesis
    by (simp add: f frame_sample_def cat.find_id_total)
qed

lemma sig_gear_mem: "sig_gear \<in> set (cat_signals r1s)"
proof -
  have "3 < length (cat_signals r1s)" by code_simp
  then show ?thesis by (simp add: r1s_signal_def)
qed

theorem sent_values_are_received_witness:
  "frame_sample r1s (get_ok (encode_frame sig_gear 5 (VEnum ''D''))) =
    Some \<lparr>smp_signal_id = sig_id sig_gear, smp_name = sig_name sig_gear,
      smp_timestamp_us = 5, smp_value = VEnum ''D''\<rparr>"
proof (rule sent_values_are_received [OF r1s_wf sig_gear_mem])
  show "sig_kind sig_gear = KBool \<or> sig_kind sig_gear = KEnum \<and> codes_distinct (sig_def sig_gear)"
    by code_simp
  have "is_ok (encode_frame sig_gear 5 (VEnum ''D''))" by code_simp
  then show "encode_frame sig_gear 5 (VEnum ''D'') = Ok (get_ok (encode_frame sig_gear 5 (VEnum ''D'')))"
    by (auto simp: is_ok_iff)
qed

text \<open>C9: A number that is sent arrives up to half a step of its signal's scale, for the integer types,
  or up to the precision of \<open>f32\<close> or \<open>f64\<close>, plus the rounding of the conversions, which is at most the
  magnitudes of value, scale and offset times \<open>2^-49\<close>. Every value that the encoder accepts is accepted
  by the decoder, unless value, scale or offset come near the limits of \<open>f64\<close>.\<close>

theorem numbers_are_received_nearly:
  assumes "catalog_wf c" and "s \<in> set (cat_signals c)" and "sig_kind s = KNum"
    and "magnitude s (f64_val x) \<le> 2 ^ 900" and "encode_frame s ts (VNum x) = Ok f"
  shows "\<exists>y. frame_sample c f = Some \<lparr>smp_signal_id = sig_id s, smp_name = sig_name s,
      smp_timestamp_us = ts, smp_value = VNum y\<rparr>
    \<and> \<bar>f64_val y - f64_val x\<bar> \<le> numeric_error s (f64_val x)"
proof -
  from assms(5) obtain p where p: "encode_value s (VNum x) = Ok p"
    and f: "f = \<lparr>rf_signal_id = sig_id s, rf_timestamp_us = ts, rf_payload = p\<rparr>"
    by (auto simp: encode_frame_def and_then_Ok_iff)
  from numeric_roundtrip [OF catalog_wf_signals(2) [OF assms(1,2)] assms(3) p assms(4)] assms(1,2)
  show ?thesis by (auto simp: f frame_sample_def cat.find_id_total)
qed

lemma sig_soc_mem: "sig_soc \<in> set (cat_signals r1s)"
proof -
  have "1 < length (cat_signals r1s)" by code_simp
  then show ?thesis by (simp add: r1s_signal_def)
qed

lemma soc_views:
  "view64 (f64_lit 573 10) = FNum False 8064258082760294 (- 47)"
  "view64 (sd_scale (sig_def sig_soc)) = FNum False (2 ^ 52) (- 53)"
  "view64 (sd_offset (sig_def sig_soc)) = FNum False 0 (- 1074)"
  by code_simp+

theorem numbers_are_received_nearly_witness:
  "\<exists>y. frame_sample r1s (get_ok (encode_frame sig_soc 5 (VNum (f64_lit 573 10)))) =
      Some \<lparr>smp_signal_id = sig_id sig_soc, smp_name = sig_name sig_soc, smp_timestamp_us = 5, smp_value = VNum y\<rparr>
    \<and> \<bar>f64_val y - f64_val (f64_lit 573 10)\<bar> \<le> numeric_error sig_soc (f64_val (f64_lit 573 10))"
proof (rule numbers_are_received_nearly [OF r1s_wf sig_soc_mem])
  show "sig_kind sig_soc = KNum" by code_simp
  show "magnitude sig_soc (f64_val (f64_lit 573 10)) \<le> 2 ^ 900"
    unfolding magnitude_def sig_offset_val_def sig_scale_val_def val_FNum [OF soc_views(1)]
      val_FNum [OF soc_views(2)] val_FNum [OF soc_views(3)] by (simp add: power_int_minus)
  have "is_ok (encode_frame sig_soc 5 (VNum (f64_lit 573 10)))" by code_simp
  then show "encode_frame sig_soc 5 (VNum (f64_lit 573 10)) = Ok (get_ok (encode_frame sig_soc 5 (VNum (f64_lit 573 10))))"
    by (auto simp: is_ok_iff)
qed

text \<open>A payload of a bool or enum signal that decodes is the encoding of the value it decodes to, so
  such a signal has one payload per value it can take.\<close>

theorem received_values_encode_back:
  assumes "catalog_wf c" and "s \<in> set (cat_signals c)" and "sig_kind s \<noteq> KNum"
    and "decode_value s p = Ok v"
  shows "encode_value s v = Ok p"
proof (cases "sig_kind s")
  case KBool
  from bool_roundtrip(2) [OF this assms(4)] show ?thesis .
next
  case KNum
  with assms(3) show ?thesis by simp
next
  case KEnum
  from decode_encode_enum [OF catalog_wf_signals(2) [OF assms(1,2)] this assms(4)] show ?thesis .
qed

theorem received_values_encode_back_witness: "encode_value sig_gear (VEnum ''R'') = Ok [1]"
  by (rule received_values_encode_back [OF r1s_wf sig_gear_mem]; code_simp)






section \<open>The catalog\<close>

text \<open>C38: A catalog document is accepted exactly when it satisfies the validation rules of the protocol
  document: a model that is not blank, distinct ids and names, and for every signal a well-formed
  name, a byte order for multi-byte types, a finite non-zero scale and a finite offset, and an enum
  map, if any, on an integer type, non-empty, with integer keys in the range of the type and
  distinct non-empty labels. The document can be read back from the validated catalog.\<close>

theorem catalog_validation:
  "(case catalog_new spec of Ok c \<Rightarrow> valid_spec spec \<and> to_spec c = spec | Err e \<Rightarrow> \<not> valid_spec spec)"
proof (cases "catalog_new spec")
  case (Err e)
  have "valid_spec spec \<Longrightarrow> \<exists>c. catalog_new spec = Ok c" by (simp add: catalog_new_Ok_iff)
  with Err show ?thesis by auto
next
  case (Ok c)
  then have "valid_spec spec" by (simp only: catalog_new_Ok_iff)
  with Ok to_spec_new [OF Ok] show ?thesis by simp
qed

text \<open>The lookup tables of a validated catalog are exact: a lookup by id or by name finds a signal
  if and only if the catalog lists it with that id or name, so ids and names denote at most one
  signal each.\<close>

theorem catalog_lookups:
  assumes "catalog_new spec = Ok c"
  shows "(by_id c i = Some s \<longleftrightarrow> s \<in> set (cat_signals c) \<and> sig_id s = i)
    \<and> (by_name c n = Some s \<longleftrightarrow> s \<in> set (cat_signals c) \<and> sig_name s = n)
    \<and> map sig_def (cat_signals c) = cs_signals spec"
  using cat.find_id_iff cat.find_name_iff catalog_wf_new [OF assms] to_spec_new [OF assms]
  by (auto simp: to_spec_def)

theorem catalog_lookups_witness:
  "(by_id r1s 300 = Some sig_gear \<longleftrightarrow> sig_gear \<in> set (cat_signals r1s) \<and> sig_id sig_gear = 300)
    \<and> (by_name r1s ''gear'' = Some sig_gear \<longleftrightarrow>
         sig_gear \<in> set (cat_signals r1s) \<and> sig_name sig_gear = ''gear'')
    \<and> map sig_def (cat_signals r1s) = cs_signals r1s_spec"
  by (rule catalog_lookups [OF r1s_new])

end
