(* ===== verification/Rules_Properties.thy ===== *)
theory Rules_Properties
  imports Examples
begin

text \<open>
  The properties of the \<open>rules\<close> crate: conditions, the compilation of rule sets, and the engine over
  single events and over runs.
\<close>

section \<open>Conditions\<close>

text \<open>C33: The loop over an explicit stack checks an expression like a walk of its tree. It visits the
  nodes depth first, the last argument of a call first; the first node that is too deep or of a kind
  that is not allowed gives the error; if there is none, the result is the ascending list of the
  identifiers of the expression without repetition.\<close>

theorem check_ast_is_a_walk:
  "check_ast e c =
    verdict (List.map_filter (node_error c) (preorder 1 e)) (sorted_list_of_set (set (idents e)))"
  unfolding check_ast_def using check_stack_eq [of c "[]" "[(e, 1)]"]
  by (simp add: fold_btset_insert set_preorder_idents)

text \<open>Exactly which condition texts compile: at most 512 characters, not blank, accepted by the CEL
  parser, and parsed to an expression that is nested at most 24 deep and uses only catalog signals,
  bool, number and string literals, and the sixteen operators. The recorded signals are the
  identifiers of the expression, in ascending order and without repetition.\<close>

theorem conditions_that_compile:
  "condition_compile cel source c = Ok cond \<longleftrightarrow>
    chars_count source \<le> 512 \<and> \<not> trim_is_empty source
    \<and> cel_compile cel source = Ok (cond_program cond)
    \<and> expr_allowed c (cel_expression cel (cond_program cond))
    \<and> nesting (cel_expression cel (cond_program cond)) \<le> 24
    \<and> cond_signals cond = sorted_list_of_set (set (idents (cel_expression cel (cond_program cond))))"
  by (simp add: condition_compile_Ok_iff condition_wf_def max_condition_chars_def max_condition_depth_def)

text \<open>A condition over a signal without a value is false, not an error; otherwise the interpreter
  runs on exactly the latest values of the condition's signals, a boolean result is the answer, and
  any other result or an error of the interpreter is reported as an error.\<close>

theorem condition_evaluation:
  "evaluate cel cond look =
    (if \<exists>n\<in>set (cond_signals cond). look n = None then Ok False
     else case cel_execute cel (cond_program cond)
         (\<lambda>n. if n \<in> set (cond_signals cond) then map_option to_cel (look n) else None) of
       Ok (CelBool b) \<Rightarrow> Ok b
     | Ok other \<Rightarrow> Err (NotBool (cel_debug cel other))
     | Err e \<Rightarrow> Err (Execution e))"
proof (cases "\<exists>n\<in>set (cond_signals cond). look n = None")
  case True
  then show ?thesis by (auto simp: evaluate_missing)
next
  case False
  then have "\<forall>n\<in>set (cond_signals cond). look n \<noteq> None" by simp
  note evaluate_present [OF this, of cel]
  with False show ?thesis by (simp only: if_False)
qed

section \<open>Compiling rule sets\<close>

text \<open>Exactly which rules compile, and to what. The id matches \<open>[a-z0-9_]{1,64}\<close> and the signal is
  in the catalog; an \<open>on_change\<close> rule has no interval and no age limit, and a deadband, 0 by default,
  that is finite, not negative and given only for a numeric signal; a periodic rule has no deadband,
  an interval of at least 100 ms, and a non-zero age limit, three intervals by default; and the
  condition, if any, compiles. The compiled rule keeps the definition and the unit of its signal.\<close>

theorem rules_that_compile:
  "compile_rule cel r c = Ok cr \<longleftrightarrow> cr_def cr = r \<and> rule_wf cel c cr"
  by (rule compile_rule_Ok_iff)

text \<open>C23: Exactly which rule sets are accepted, and to what they compile: the compiler thread finished,
  the version is newer than the active one, the model is that of the vehicle or \<open>*\<close>, there are at
  most 256 rules with distinct ids, and every one of them compiles. The compiled set has the version
  and the model of the document and one compiled rule per rule, in the same order.\<close>

theorem rulesets_that_compile:
  "compile_ruleset cel thread rs c vehicle active = Ok crs \<longleftrightarrow>
    thread = Joined
    \<and> (case active of None \<Rightarrow> True | Some a \<Rightarrow> a < ruleset_version rs)
    \<and> (rs_model rs = any_model \<or> rs_model rs = vehicle)
    \<and> crs_version crs = ruleset_version rs \<and> crs_model crs = rs_model rs
    \<and> map cr_def (crs_rules crs) = rs_rules rs
    \<and> length (crs_rules crs) \<le> 256 \<and> distinct (map cr_id (crs_rules crs))
    \<and> list_all (rule_wf cel c) (crs_rules crs)"
  by (auto simp: ruleset_Ok_iff header_errors_empty_iff rules_wf_def max_rules_def split: option.splits)

text \<open>C24: Every failure is reported, in order: first those of the document (version, model), then one
  per rejected rule in the order of the rules, where a rule whose id was used before is rejected as
  a duplicate and any other is compiled on its own. Only an oversized set is rejected without
  looking at its rules. The set is accepted when the list is empty.\<close>

theorem ruleset_errors_are_complete:
  "compile_ruleset cel Joined rs c vehicle active =
    (let errors = header_errors rs vehicle active
          @ (if length (rs_rules rs) > 256 then [TooManyRules (length (rs_rules rs))]
             else errs (map (\<lambda>i. rule_outcome cel c (take i (rs_rules rs)) (rs_rules rs ! i))
                          [0..<length (rs_rules rs)]))
     in if errors = []
        then Ok \<lparr>crs_version = ruleset_version rs, crs_model = rs_model rs,
               crs_rules = oks (map (\<lambda>i. rule_outcome cel c (take i (rs_rules rs)) (rs_rules rs ! i))
                                 [0..<length (rs_rules rs)])\<rparr>
        else Err errors)"
proof -
  have "map (\<lambda>i. rule_outcome cel c (take i (rs_rules rs)) (rs_rules rs ! i)) [0..<length (rs_rules rs)] =
      outcomes_from cel c [] (rs_rules rs)"
    by (rule nth_equalityI) (simp_all add: nth_outcomes)
  then show ?thesis
    by (simp add: compile_ruleset_def with_big_stack_def compile_rules_outcomes max_rules_def Let_def)
qed

lemma errs_kinds:
  "x \<in> set (errs (outcomes_from cel c before rs)) \<Longrightarrow> validation_reason x \<noteq> ''internal''"
proof (induction rs arbitrary: before)
  case Nil
  then show ?case by simp
next
  case (Cons r rs)
  have "rule_outcome cel c before r = Err e \<Longrightarrow> validation_reason e \<noteq> ''internal''" for e
    by (auto simp: rule_outcome_def compile_rule_def compile_behaviour_def compile_condition_def
        invalid_def and_then_def Let_def split: if_splits option.splits result.splits mode.splits)
  with Cons show ?case by (cases "rule_outcome cel c before r") auto
qed

text \<open>A rejection always has errors, and its metric label is \<open>internal\<close> exactly when the compiler
  thread could not start or panicked and nothing is wrong with the version and the model.\<close>

theorem rejections_have_a_reason:
  assumes "compile_ruleset cel thread rs c vehicle active = Err es"
  shows "es \<noteq> [] \<and> (errors_reason es = ''internal'' \<longleftrightarrow>
    thread \<noteq> Joined \<and> header_errors rs vehicle active = [] \<and> length (rs_rules rs) \<le> 256)"
proof -
  have header: "x \<in> set (header_errors rs vehicle active) \<Longrightarrow> validation_reason x \<noteq> ''internal''" for x
    by (auto simp: header_errors_def split: option.splits if_splits)
  have rest: "x \<in> set (errs (outcomes_from cel c [] (rs_rules rs))) \<Longrightarrow> validation_reason x \<noteq> ''internal''" for x
    by (rule errs_kinds)
  have reason: "errors_reason es = (case es of [] \<Rightarrow> ''internal'' | e # _ \<Rightarrow> validation_reason e)" for es
    by (cases es) simp_all
  show ?thesis
    using assms header rest
    by (cases "header_errors rs vehicle active")
      (auto simp: compile_ruleset_def with_big_stack_def compile_rules_outcomes reason max_rules_def Let_def
        split: if_splits thread_outcome.splits list.splits)
qed

theorem rejections_have_a_reason_witness:
  "[Internal ''rule compiler panicked''] \<noteq> [] \<and>
    (errors_reason [Internal ''rule compiler panicked''] = ''internal'' \<longleftrightarrow>
      Panicked \<noteq> Joined \<and> header_errors demo_ruleset ''R1S'' None = [] \<and> length (rs_rules demo_ruleset) \<le> 256)"
  by (rule rejections_have_a_reason [where cel = ident_cel and c = r1s])
    (simp add: compile_ruleset_def with_big_stack_def header_errors_def demo_ruleset_def max_rules_def)

section \<open>Single events of the engine\<close>

text \<open>C37: The index of \<open>on_change\<close> rules by signal changes nothing but the work done: handling a sample
  records it as the latest value of its signal and then evaluates, in the order of the rule set,
  exactly the \<open>on_change\<close> rules of that signal, as a scan of all rules would.\<close>

theorem sample_evaluates_its_rules:
  assumes "engine_wf cel c e"
  shows "on_sample cel now smp e =
    (let e1 = e\<lparr>eng_latest := hm_insert (smp_name smp)
            \<lparr>lat_value = smp_value smp, lat_timestamp_us = smp_timestamp_us smp, lat_received_ms = now\<rparr>
            (eng_latest e)\<rparr>;
         rs = filter (\<lambda>r. \<not> is_periodic r \<and> rule_signal (cr_def r) = smp_name smp) (crs_rules (eng_rules e));
         (state, report) = on_change_rules cel e1 smp rs (eng_state e) report_default
     in (e1\<lparr>eng_state := state\<rparr>, report))"
  using on_sample_eq [OF assms]
  by (simp add: observe_def listeners_def listens_def [abs_def] Let_def)

definition door_sample :: sample where
  "door_sample = \<lparr>smp_signal_id = 301, smp_name = ''door_open'', smp_timestamp_us = 7, smp_value = VBool True\<rparr>"

theorem sample_evaluates_its_rules_witness:
  "on_sample ident_cel 5 door_sample demo_engine =
    (let e1 = demo_engine\<lparr>eng_latest := hm_insert (smp_name door_sample)
            \<lparr>lat_value = smp_value door_sample, lat_timestamp_us = smp_timestamp_us door_sample, lat_received_ms = 5\<rparr>
            (eng_latest demo_engine)\<rparr>;
         rs = filter (\<lambda>r. \<not> is_periodic r \<and> rule_signal (cr_def r) = smp_name door_sample)
                (crs_rules (eng_rules demo_engine));
         (state, report) = on_change_rules ident_cel e1 door_sample rs (eng_state demo_engine) report_default
     in (e1\<lparr>eng_state := state\<rparr>, report))"
  by (rule sample_evaluates_its_rules [OF demo_engine_wf])

text \<open>A tick before the deadline does nothing: it leaves the engine as it is and reports nothing, so
  the daemon may sleep until \<open>next_deadline_ms\<close> without missing anything.\<close>

theorem tick_before_the_deadline:
  assumes "engine_wf cel c e" and "case next_deadline_ms e of None \<Rightarrow> True | Some d \<Rightarrow> now < d"
  shows "tick cel now e = (e, report_default)"
  by (rule tick_early [OF assms(1)]) (use assms(2) in simp)

lemma demo_due: "hm_get (eng_state demo_engine) ''speed_1hz'' = Some \<lparr>last_logged = None, next_due_ms = Some 1000\<rparr>"
proof -
  have "cr_id speed_rule = ''speed_1hz''" "fresh_state 0 speed_rule = \<lparr>last_logged = None, next_due_ms = Some 1000\<rparr>"
    by (simp_all add: fresh_state_def demo_rule_defs cr_id_def saturating_add_u64_def)
  with demo_engine_state [of speed_rule] show ?thesis by simp
qed

lemma demo_deadline: "next_deadline_ms demo_engine = Some 1000"
proof -
  have wf: "hm_wf (eng_state demo_engine)"
    using engine_wfD(4) [OF demo_engine_wf] by (simp add: state_wf_def)
  have behaviour: "cr_behaviour r = Periodic 1000 3000 \<or> (\<exists>db. cr_behaviour r = OnChange db)"
    if "r \<in> set (crs_rules demo_rules)" for r
    using that by (auto simp: demo_rules_def soc_rule_def speed_rule_def gear_rule_def)
  have due: "d = 1000"
    if st: "hm_get (eng_state demo_engine) k = Some st" and d: "next_due_ms st = Some d" for k st d
  proof -
    from st have "k \<in> cr_id ` set (crs_rules demo_rules)"
      using engine_wfD(4) [OF demo_engine_wf] by (auto simp: state_wf_def) (metis option.distinct(1))
    then obtain r where r: "r \<in> set (crs_rules demo_rules)" "k = cr_id r" by blast
    with st d have "next_due_ms (fresh_state 0 r) = Some d" by (simp add: demo_engine_state)
    with behaviour [OF r(1)] show "d = 1000"
      by (auto simp: fresh_state_def saturating_add_u64_def)
  qed
  have "(\<exists>k st. hm_get (eng_state demo_engine) k = Some st \<and> next_due_ms st = Some 1000)"
    using demo_due by fastforce
  then show ?thesis
    unfolding next_deadline_iff(2) [OF wf] using due by blast
qed

theorem tick_before_the_deadline_witness: "tick ident_cel 999 demo_engine = (demo_engine, report_default)"
  by (rule tick_before_the_deadline [OF demo_engine_wf]) (simp add: demo_deadline)

end
