(* ===== verification/Engine_Logs.thy ===== *)
theory Engine_Logs
  imports Engine_Rates
begin

text \<open>
  What one rule logs over a run, with its condition: an \<open>on_change\<close> rule logs the samples of its signal
  that leave the deadband while its condition holds of the latest values, and a periodic rule that is
  ticked in time logs once per slot.
\<close>

section \<open>Rules with a condition\<close>

text \<open>The condition of a rule on the latest value of every signal; an error counts as false.\<close>

definition rule_passes ::
  "('p, 'v) cel \<Rightarrow> 'p compiled_rule \<Rightarrow> (string \<Rightarrow> signal_value option) \<Rightarrow> bool" where
  "rule_passes cel r look =
     (case cr_condition r of
        None \<Rightarrow> True
      | Some cond \<Rightarrow> (case evaluate cel cond look of Ok pass \<Rightarrow> pass | Err _ \<Rightarrow> False))"

fun guarded_filter ::
  "((string \<Rightarrow> signal_value option) \<Rightarrow> bool) \<Rightarrow> f64 \<Rightarrow> string \<Rightarrow> signal_value option
    \<Rightarrow> (string \<Rightarrow> signal_value option) \<Rightarrow> sample list \<Rightarrow> (u64 \<times> signal_value) list" where
  "guarded_filter pass db name logged look [] = []"
| "guarded_filter pass db name logged look (s # ss) =
     (let now = look(smp_name s \<mapsto> smp_value s)
      in if smp_name s = name \<and> worth_logging db logged (smp_value s) \<and> pass now
         then (smp_timestamp_us s, smp_value s) # guarded_filter pass db name (Some (smp_value s)) now ss
         else guarded_filter pass db name logged now ss)"

text \<open>Without a condition it is the deadband filter of the one signal.\<close>

lemma guarded_filter_unconditional:
  "guarded_filter (\<lambda>_. True) db name logged look ss =
    deadband_filter db logged (map (\<lambda>s. (smp_timestamp_us s, smp_value s)) (filter (\<lambda>s. smp_name s = name) ss))"
  by (induction ss arbitrary: logged look) (simp_all add: Let_def)

fun trace_samples :: "'p event list \<Rightarrow> sample list" where
  "trace_samples [] = []"
| "trace_samples (Sampled now smp # evs) = smp # trace_samples evs"
| "trace_samples (_ # evs) = trace_samples evs"

lemma condition_verdict_passes:
  "condition_verdict cel r m = Ok True \<longleftrightarrow> rule_passes cel r (latest_value m)"
  by (auto simp: condition_verdict_def rule_passes_def split: option.split result.split)

lemma log_if_cases:
  "records (snd (log_if vd v l st)) = (if vd = Ok True then [l] else [])"
  "last_logged (fst (log_if vd v l st)) = (if vd = Ok True then Some v else last_logged st)"
  by (auto simp: log_if_def split: result.split bool.split)

lemma latest_value_observe:
  "latest_value (eng_latest (observe now smp (with_latest e m))) = (latest_value m)(smp_name smp \<mapsto> smp_value smp)"
  by (auto simp: latest_value_def observe_def with_latest_def fun_eq_iff)

lemma on_change_rule_guarded:
  assumes "cr_behaviour r = OnChange db"
  shows "list_all (\<lambda>ev. \<not> is_swap ev) evs \<Longrightarrow>
    logged_points (snd (run (rule_handle cel e r) evs (m, st))) =
      guarded_filter (rule_passes cel r) db (rule_signal (cr_def r)) (last_logged st) (latest_value m)
        (trace_samples evs)"
proof (induction evs arbitrary: m st)
  case Nil
  then show ?case by (simp add: logged_points_def)
next
  case (Cons ev evs)
  show ?case
  proof (cases ev)
    case (Sampled now smp)
    have "listens (smp_name smp) r \<longleftrightarrow> smp_name smp = rule_signal (cr_def r)"
      using assms by (auto simp: listens_def is_periodic_def)
    with Cons Sampled assms show ?thesis
      by (simp add: Let_def split_beta on_change_step_def changed_by_iff log_if_cases condition_verdict_passes
          latest_value_observe logged_points_Cons log_record_of_def)
  next
    case (Ticked now)
    with Cons assms show ?thesis
      by (simp add: split_beta periodic_step_def logged_points_Cons)
  next
    case (Swapped now new)
    with Cons show ?thesis by simp
  qed
qed

section \<open>Every slot of a periodic rule\<close>

text \<open>
  Ticks in time: no slot passes by completely before the tick that notices it, \<open>due\<close> being the next
  slot. The clock may be read in any order.
\<close>

fun punctual :: "u64 \<Rightarrow> nat \<Rightarrow> 'p event list \<Rightarrow> bool" where
  "punctual interval due [] \<longleftrightarrow> True"
| "punctual interval due (Ticked now # evs) \<longleftrightarrow>
     (if due \<le> unat now
      then unat now < due + unat interval \<and> due + unat interval < 2 ^ 64 \<and> punctual interval (due + unat interval) evs
      else punctual interval due evs)"
| "punctual interval due (Sampled now smp # evs) \<longleftrightarrow> punctual interval due evs"
| "punctual interval due (Swapped now new # evs) \<longleftrightarrow> False"

text \<open>Every tick finds a value of the signal that is not older than the age limit.\<close>

fun fresh_ticks :: "string \<Rightarrow> u64 \<Rightarrow> u64 option \<Rightarrow> 'p event list \<Rightarrow> bool" where
  "fresh_ticks name age got [] \<longleftrightarrow> True"
| "fresh_ticks name age got (Sampled now smp # evs) \<longleftrightarrow>
     fresh_ticks name age (if smp_name smp = name then Some now else got) evs"
| "fresh_ticks name age got (Ticked now # evs) \<longleftrightarrow>
     (case got of None \<Rightarrow> False | Some t \<Rightarrow> saturating_sub_u64 now t \<le> age) \<and> fresh_ticks name age got evs"
| "fresh_ticks name age got (Swapped now new # evs) \<longleftrightarrow> False"

lemma fresh_no_swap: "fresh_ticks name age got evs \<Longrightarrow> list_all (\<lambda>ev. \<not> is_swap ev) evs"
  by (induction name age got evs rule: fresh_ticks.induct) simp_all

definition got_at :: "(string, latest) hmap \<Rightarrow> string \<Rightarrow> u64 option" where
  "got_at m name = map_option lat_received_ms (hm_get m name)"

lemma got_at_observe:
  "got_at (eng_latest (observe now smp (with_latest e m))) name = (if smp_name smp = name then Some now else got_at m name)"
  by (simp add: got_at_def observe_def with_latest_def)

lemma next_slot_punctual:
  assumes "due \<le> now" and "unat now < unat due + unat interval" and "unat due + unat interval < 2 ^ 64"
  shows "unat (next_slot now due interval) = unat due + unat interval"
  using assms by (auto simp: next_slot_def Let_def unat_saturating_add_u64 word_less_nat_alt word_le_nat_alt)

text \<open>The slots of a punctual run, none of them missed and none of them late for the next.\<close>

lemma periodic_rule_slots:
  assumes "cr_behaviour r = Periodic interval age" and "cr_condition r = None"
  shows "punctual interval (unat due) evs \<Longrightarrow> fresh_ticks (rule_signal (cr_def r)) age (got_at m (rule_signal (cr_def r))) evs \<Longrightarrow>
    next_due_ms st = Some due \<Longrightarrow>
    (\<exists>due'. next_due_ms (snd (fst (run (rule_handle cel e r) evs (m, st)))) = Some due'
      \<and> unat due' = unat due + log_count (snd (run (rule_handle cel e r) evs (m, st))) * unat interval
      \<and> (\<forall>now. Ticked now \<in> set evs \<longrightarrow> now < due'))"
proof (induction evs arbitrary: m st due)
  case Nil
  then show ?case by simp
next
  case (Cons ev evs)
  show ?case
  proof (cases ev)
    case (Sampled now smp)
    have "on_change_step cel f smp r st = (st, report_default)" for f
      using assms(1) by (simp add: on_change_step_def)
    then have "rule_handle cel e r (Sampled now smp) (m, st) =
        ((eng_latest (observe now smp (with_latest e m)), st), report_default)"
      by (simp add: Let_def)
    with Cons Sampled show ?thesis by (simp add: got_at_observe del: rule_handle.simps)
  next
    case (Ticked now)
    show ?thesis
    proof (cases "due \<le> now")
      case False
      then have "periodic_step cel (with_latest e m) now r st = (st, report_default)"
        using Cons.prems(3) by (intro periodic_step_silent) (simp add: is_due_def)
      moreover have "now < due'" if "unat due' = unat due + k * unat interval" for due' k
        using False that by (simp add: word_less_nat_alt word_le_nat_alt)
      ultimately show ?thesis using Cons Ticked False
        by (fastforce simp: word_le_nat_alt)
    next
      case True
      let ?step = "periodic_step cel (with_latest e m) now r st" and ?due = "next_slot now due interval"
      from Cons.prems Ticked True have late: "unat now < unat due + unat interval" "unat due + unat interval < 2 ^ 64"
        and rest: "punctual interval (unat due + unat interval) evs"
          "fresh_ticks (rule_signal (cr_def r)) age (got_at m (rule_signal (cr_def r))) evs"
        by (simp_all add: word_le_nat_alt)
      obtain lat where lat: "hm_get m (rule_signal (cr_def r)) = Some lat"
        and age: "\<not> age < saturating_sub_u64 now (lat_received_ms lat)"
        using Cons.prems(2) Ticked by (auto simp: got_at_def split: option.splits)
      have one: "length (records (snd ?step)) = 1"
        using Cons.prems(3) True assms lat age
        by (simp add: periodic_step_def is_due_def with_latest_def condition_verdict_def log_if_cases Let_def)
      have due: "next_due_ms (fst ?step) = Some ?due"
        using Cons.prems(3) True assms(1) by (simp add: periodic_step_due)
      have slot: "unat ?due = unat due + unat interval"
        using True late by (rule next_slot_punctual)
      have "now < due'" if "unat due' = unat ?due + k * unat interval" for due' k
        using that late(1) by (simp add: slot word_less_nat_alt)
      with Cons.IH [OF _ rest(2) due] rest(1) one show ?thesis
        by (fastforce simp: Ticked slot split_beta)
    qed
  next
    case (Swapped now new)
    with Cons.prems(1) show ?thesis by simp
  qed
qed

end
