(* ===== verification/Engine_Properties.thy ===== *)
theory Engine_Properties
  imports Rules_Properties Engine_Logs
begin

text \<open>
  The properties of the engine over runs of samples, ticks and rule set swaps: its invariant, the
  independence of rules, what each kind of rule logs, and what survives a swap.
\<close>

section \<open>Ticks\<close>

text \<open>A tick never leaves work behind: afterwards the next deadline, if there is one, lies in the
  future, so the daemon's loop of tick and sleep does not spin. (The clock is far from overflow: one
  interval more still fits 64 bits.)\<close>

theorem tick_moves_the_deadline:
  assumes "engine_wf cel c e"
    and "\<forall>r\<in>set (crs_rules (eng_rules e)).
      case cr_behaviour r of Periodic interval age \<Rightarrow> unat now + unat interval < 2 ^ 64 | OnChange db \<Rightarrow> True"
  shows "case next_deadline_ms (fst (tick cel now e)) of None \<Rightarrow> True | Some d \<Rightarrow> now < d"
proof (cases "next_deadline_ms (fst (tick cel now e))")
  case (Some d)
  have "hm_wf (eng_state (fst (tick cel now e)))"
    using engine_wfD(4) [OF tick_wf [OF assms(1)]] by (simp add: state_wf_def)
  from next_deadline_iff(2) [OF this, of d] Some obtain k st where
    st: "hm_get (eng_state (fst (tick cel now e))) k = Some st" and due: "next_due_ms st = Some d"
    by blast
  have nosat: "unat now + unat interval < 2 ^ 64"
    if "r \<in> set (crs_rules (eng_rules e))" "cr_behaviour r = Periodic interval age" for r interval age
    using assms(2) that by fastforce
  have "\<not> is_due now st"
    by (rule tick_clears [OF assms(1) _ st]) (rule nosat)
  with due Some show ?thesis by (simp add: is_due_def)
qed simp

theorem tick_moves_the_deadline_witness:
  "case next_deadline_ms (fst (tick ident_cel 2500 demo_engine)) of None \<Rightarrow> True | Some d \<Rightarrow> 2500 < d"
  by (rule tick_moves_the_deadline [OF demo_engine_wf]) (simp add: demo_rules_def demo_rule_defs)

text \<open>C36: What a tick does to one periodic rule. Before its due time, nothing. Otherwise the next slot is
  one interval after the due time or, when that has passed too, one interval from now: missed slots
  are skipped. A signal without a value is skipped silently, a value older than the age limit is
  reported as stale, a condition that fails is reported as an error, and only when the condition
  holds is one record of the latest value logged.\<close>

theorem tick_of_a_periodic_rule:
  assumes "engine_wf cel c e" and "r \<in> set (crs_rules (eng_rules e))"
    and "cr_behaviour r = Periodic interval age" and "hm_get (eng_state e) (cr_id r) = Some st"
    and "next_due_ms st = Some due"
  shows "project (cr_id r) (snd (tick cel now e)) =
      (if now < due then report_default
       else case hm_get (eng_latest e) (rule_signal (cr_def r)) of
          None \<Rightarrow> report_default
        | Some lat \<Rightarrow>
            if age < saturating_sub_u64 now (lat_received_ms lat)
            then report_default\<lparr>stale_skips := [cr_id r]\<rparr>
            else (case condition_verdict cel r (eng_latest e) of
                Err err \<Rightarrow> report_default\<lparr>eval_errors := [(cr_id r, err)]\<rparr>
              | Ok pass \<Rightarrow>
                  if pass then report_default\<lparr>records :=
                    [log_record_of e r (lat_timestamp_us lat) (lat_value lat)]\<rparr>
                  else report_default))
    \<and> map_option next_due_ms (hm_get (eng_state (fst (tick cel now e))) (cr_id r)) =
      Some (Some (if now < due then due
                  else if now < saturating_add_u64 due interval then saturating_add_u64 due interval
                  else saturating_add_u64 now interval))"
proof -
  have "project (cr_id r) (snd (tick cel now e)) = snd (periodic_step cel e now r st)"
    unfolding tick_report [OF assms(1)] project_periodic [OF engine_wfD(1) [OF assms(1)] assms(2)]
    by (simp add: keyed_out_def assms(4))
  also have "\<dots> = (if now < due then report_default
       else case hm_get (eng_latest e) (rule_signal (cr_def r)) of
          None \<Rightarrow> report_default
        | Some lat \<Rightarrow>
            if age < saturating_sub_u64 now (lat_received_ms lat)
            then report_default\<lparr>stale_skips := [cr_id r]\<rparr>
            else (case condition_verdict cel r (eng_latest e) of
                Err err \<Rightarrow> report_default\<lparr>eval_errors := [(cr_id r, err)]\<rparr>
              | Ok pass \<Rightarrow>
                  if pass then report_default\<lparr>records :=
                    [log_record_of e r (lat_timestamp_us lat) (lat_value lat)]\<rparr>
                  else report_default))"
    using assms(3,5)
    by (auto simp: periodic_step_def is_due_def Let_def log_if_def split: option.splits result.splits bool.splits)
  moreover have "hm_get (eng_state (fst (tick cel now e))) (cr_id r) = Some (fst (periodic_step cel e now r st))"
    by (rule tick_state [OF assms(1,2,4)])
  moreover have "next_due_ms (fst (periodic_step cel e now r st)) =
      Some (if now < due then due
            else if now < saturating_add_u64 due interval then saturating_add_u64 due interval
            else saturating_add_u64 now interval)"
    using assms(3,5) by (auto simp: periodic_step_due next_slot_def Let_def)
  ultimately show ?thesis by simp
qed

theorem tick_of_a_periodic_rule_witness:
  "project (cr_id speed_rule) (snd (tick ident_cel 1500 demo_engine)) =
      (if 1500 < (1000 :: u64) then report_default
       else case hm_get (eng_latest demo_engine) (rule_signal (cr_def speed_rule)) of
          None \<Rightarrow> report_default
        | Some lat \<Rightarrow>
            if 3000 < saturating_sub_u64 1500 (lat_received_ms lat)
            then report_default\<lparr>stale_skips := [cr_id speed_rule]\<rparr>
            else (case condition_verdict ident_cel speed_rule (eng_latest demo_engine) of
                Err err \<Rightarrow> report_default\<lparr>eval_errors := [(cr_id speed_rule, err)]\<rparr>
              | Ok pass \<Rightarrow>
                  if pass then report_default\<lparr>records :=
                    [log_record_of demo_engine speed_rule (lat_timestamp_us lat) (lat_value lat)]\<rparr>
                  else report_default))
    \<and> map_option next_due_ms (hm_get (eng_state (fst (tick ident_cel 1500 demo_engine))) (cr_id speed_rule)) =
      Some (Some (if 1500 < (1000 :: u64) then 1000
                  else if 1500 < saturating_add_u64 1000 1000 then saturating_add_u64 1000 1000
                  else saturating_add_u64 1500 1000))"
  by (rule tick_of_a_periodic_rule [OF demo_engine_wf, where st = "fresh_state 0 speed_rule"])
    (simp_all add: demo_engine_state, simp_all add: fresh_state_def speed_rule_def saturating_add_u64_def)

section \<open>Records\<close>

text \<open>A record of a rule of the engine: the latest value of the rule's signal with its time stamp.\<close>

definition genuine_record :: "'p engine \<Rightarrow> log_record \<Rightarrow> bool" where
  "genuine_record e l \<longleftrightarrow>
     (\<exists>r\<in>set (crs_rules (eng_rules e)). \<exists>lat.
        hm_get (eng_latest e) (rule_signal (cr_def r)) = Some lat
        \<and> l = \<lparr>lr_ts_us = lat_timestamp_us lat, lr_vin = eng_vin e, lr_model = eng_model e,
               lr_rule_id = rule_ident (cr_def r), lr_ruleset_version = crs_version (eng_rules e),
               lr_signal = rule_signal (cr_def r), lr_value = lat_value lat, lr_unit = cr_unit r\<rparr>)"

lemma log_if_record: "l' \<in> set (records (snd (log_if v x l st))) \<Longrightarrow> l' = l"
  by (simp add: log_if_def split: result.splits bool.splits)

lemma records_of_rules:
  "l \<in> set (records (report_concat (map (keyed_out key step m) rs))) \<Longrightarrow>
    \<exists>r\<in>set rs. \<exists>st. l \<in> set (records (snd (step r st)))"
  by (auto simp: report_concat_sel keyed_out_def split: option.splits)

lemma event_records_genuine:
  assumes "engine_wf cel c e" and "l \<in> set (records (snd (engine_handle cel ev e)))"
  shows "genuine_record (fst (engine_handle cel ev e)) l"
proof (cases ev)
  case (Sampled now smp)
  let ?e1 = "observe now smp e"
  from assms(2) Sampled obtain r st where r: "r \<in> set (listeners e (smp_name smp))"
    and l: "l \<in> set (records (snd (on_change_step cel ?e1 smp r st)))"
    by (auto simp: on_sample_report [OF assms(1)] dest!: records_of_rules)
  have "l = log_record_of ?e1 r (smp_timestamp_us smp) (smp_value smp)"
    using l by (auto simp: on_change_step_def dest: log_if_record split: behaviour.splits if_splits)
  with r show ?thesis
    using on_sample_fst [OF assms(1)]
    by (auto simp: Sampled genuine_record_def listeners_def listens_def log_record_of_def cr_id_def observe_def)
next
  case (Ticked now)
  from assms(2) Ticked obtain r st where r: "r \<in> set (crs_rules (eng_rules e))"
    and l: "l \<in> set (records (snd (periodic_step cel e now r st)))"
    by (auto simp: tick_report [OF assms(1)] dest!: records_of_rules)
  obtain lat where "hm_get (eng_latest e) (rule_signal (cr_def r)) = Some lat"
    and "l = log_record_of e r (lat_timestamp_us lat) (lat_value lat)"
    using l by (auto simp: periodic_step_def Let_def dest: log_if_record
        split: behaviour.splits if_splits option.splits)
  with r show ?thesis
    by (auto simp: Ticked genuine_record_def log_record_of_def cr_id_def)
next
  case (Swapped now new)
  with assms(2) show ?thesis by simp
qed

text \<open>C35: Every record is genuine. Whatever the event, each logged record names a rule of the active rule
  set, carries that rule's signal and unit, the vehicle's VIN and model and the version of the rule
  set, and holds the latest value of the signal with the vehicle's time stamp of that value.\<close>

theorem records_are_genuine:
  assumes "engine_wf cel c e" and "l \<in> set (records (snd (engine_handle cel ev e)))"
  shows "genuine_record (fst (engine_handle cel ev e)) l"
  using assms by (rule event_records_genuine)

lemma demo_listeners: "listeners demo_engine ''battery_soc'' = [soc_rule]"
  by (simp add: listeners_def listens_def is_periodic_def demo_rules_def demo_rule_defs)

definition soc_sample :: sample where
  "soc_sample =
     \<lparr>smp_signal_id = 258, smp_name = ''battery_soc'', smp_timestamp_us = 9, smp_value = VNum (f64_lit 50 1)\<rparr>"

definition soc_record :: log_record where
  "soc_record = log_record_of demo_engine soc_rule 9 (VNum (f64_lit 50 1))"

lemma demo_soc_logged: "records (snd (on_sample ident_cel 5 soc_sample demo_engine)) = [soc_record]"
proof -
  have "smp_name soc_sample = ''battery_soc''" by (simp add: soc_sample_def)
  moreover have "log_record_of (observe 5 soc_sample demo_engine) = log_record_of demo_engine"
    by (simp add: log_record_of_def fun_eq_iff)
  ultimately show ?thesis
    using demo_engine_state [of soc_rule]
    by (simp add: on_sample_report [OF demo_engine_wf] demo_listeners keyed_out_def on_change_step_def
        fresh_state_def changed_by_def log_if_def condition_verdict_def soc_record_def)
      (simp add: soc_rule_def soc_sample_def changed_by_def log_if_def condition_verdict_def)
qed

theorem records_are_genuine_witness:
  "genuine_record (fst (engine_handle ident_cel (Sampled 5 soc_sample) demo_engine)) soc_record"
  by (rule records_are_genuine [OF demo_engine_wf]) (simp add: demo_soc_logged)

section \<open>Runs\<close>

text \<open>C22: The engine's invariant holds after every run of samples, ticks and swaps to compiled rule sets
  from a new engine: the rules are well-formed and have distinct ids; exactly the active rules have
  a state, periodic rules with a due time and \<open>on_change\<close> rules without; and the index lists exactly
  the \<open>on_change\<close> rules of each signal.\<close>

theorem engine_invariant:
  assumes "list_all (event_ok cel c) evs"
  shows "engine_wf cel c (fst (run (engine_handle cel) evs (engine_new vin model)))"
  using engine_wf_new assms by (rule eng.inv_run)

definition demo_run :: "cel_expr event list" where
  "demo_run =
     [Sampled 10 \<lparr>smp_signal_id = 258, smp_name = ''battery_soc'', smp_timestamp_us = 1, smp_value = VNum (f64_lit 50 1)\<rparr>,
      Ticked 1000, Sampled 1010 door_sample, Ticked 2600]"

theorem engine_invariant_witness:
  "engine_wf ident_cel r1s
    (fst (run (engine_handle ident_cel) (Swapped 0 demo_rules # demo_run) (engine_new ''DEV0000001'' ''R1S'')))"
  by (rule engine_invariant) (simp add: demo_rules_wf demo_run_def)

lemma engine_rule_run:
  assumes "engine_wf cel c e" and "r \<in> set (crs_rules (eng_rules e))"
    and "hm_get (eng_state e) (cr_id r) = Some st" and "list_all (\<lambda>ev. \<not> is_swap ev) evs"
  shows "map (project (cr_id r)) (snd (run (engine_handle cel) evs e)) =
      snd (run (rule_handle cel e r) evs (eng_latest e, st))
    \<and> hm_get (eng_state (fst (run (engine_handle cel) evs e))) (cr_id r) =
      Some (snd (fst (run (rule_handle cel e r) evs (eng_latest e, st))))"
proof -
  have "tracks e r e (eng_latest e, st)"
    using assms(2,3) by (simp add: tracks_def)
  from rule_sim.rel_run [OF assms(1,4) this] show ?thesis
    by (simp add: tracks_def)
qed

lemmas engine_rule_points = engine_rule_run [THEN conjunct1]
lemmas engine_rule_state = engine_rule_run [THEN conjunct2]

text \<open>The records of one rule, counted.\<close>

lemma log_count_project:
  "log_count (map (project i) outs) = length (filter (\<lambda>l. lr_rule_id l = i) (concat (map records outs)))"
  by (induction outs) (simp_all add: project_def)

text \<open>C10: Rules do not interfere. Over any run without a swap, the state of a rule and everything
  reported about it are those of a machine for that rule alone, which sees the same events and keeps
  only the latest values and its own state. So the engine is the product of its rules, and no rule
  can make another one log, stay silent or change its timing.\<close>

theorem engine_is_a_product_of_rules:
  assumes "engine_wf cel c e" and "r \<in> set (crs_rules (eng_rules e))"
    and "hm_get (eng_state e) (cr_id r) = Some st" and "list_all (\<lambda>ev. \<not> is_swap ev) evs"
  shows "map (project (cr_id r)) (snd (run (engine_handle cel) evs e)) =
      snd (run (rule_handle cel e r) evs (eng_latest e, st))
    \<and> hm_get (eng_state (fst (run (engine_handle cel) evs e))) (cr_id r) =
      Some (snd (fst (run (rule_handle cel e r) evs (eng_latest e, st))))"
  using assms by (rule engine_rule_run)

theorem engine_is_a_product_of_rules_witness:
  "map (project (cr_id gear_rule)) (snd (run (engine_handle ident_cel) demo_run demo_engine)) =
      snd (run (rule_handle ident_cel demo_engine gear_rule) demo_run
             (eng_latest demo_engine, fresh_state 0 gear_rule))
    \<and> hm_get (eng_state (fst (run (engine_handle ident_cel) demo_run demo_engine))) (cr_id gear_rule) =
      Some (snd (fst (run (rule_handle ident_cel demo_engine gear_rule) demo_run
                        (eng_latest demo_engine, fresh_state 0 gear_rule))))"
  by (rule engine_is_a_product_of_rules [OF demo_engine_wf])
    (simp_all add: demo_engine_state demo_run_def)

text \<open>An \<open>on_change\<close> rule without a condition logs exactly the deadband filter of its signal: walking
  through the samples of the signal, a sample is logged when nothing was logged before or when it
  differs from the value logged last, for numbers by rising or falling by more than the deadband; whatever other samples
  and ticks come in between.\<close>

theorem on_change_logs_the_deadband_filter:
  assumes "engine_wf cel c e" and "r \<in> set (crs_rules (eng_rules e))"
    and "cr_behaviour r = OnChange db" and "cr_condition r = None"
    and "hm_get (eng_state e) (cr_id r) = Some st" and "list_all (\<lambda>ev. \<not> is_swap ev) evs"
  shows "logged_points (map (project (cr_id r)) (snd (run (engine_handle cel) evs e))) =
    deadband_filter db (last_logged st) (samples_for (rule_signal (cr_def r)) evs)"
  using assms(3,4,6)
  by (simp add: engine_rule_points [OF assms(1,2,5,6)] on_change_rule_run)

theorem on_change_logs_the_deadband_filter_witness:
  "logged_points (map (project (cr_id soc_rule)) (snd (run (engine_handle ident_cel) demo_run demo_engine))) =
    deadband_filter (f64_lit 1 1) (last_logged (fresh_state 0 soc_rule))
      (samples_for (rule_signal (cr_def soc_rule)) demo_run)"
  by (rule on_change_logs_the_deadband_filter [OF demo_engine_wf])
    (simp_all add: demo_engine_state, simp_all add: demo_run_def soc_rule_def)

text \<open>The deadband filter compares with the value logged last: of two values logged one after the
  other the second differs from the first, by more than the deadband for numbers. A slow drift is
  therefore logged as soon as it adds up to more than the deadband.\<close>

theorem logged_values_differ:
  "successively (\<lambda>x y. worth_logging db (Some (snd x)) (snd y)) (deadband_filter db logged xs)"
  by (rule deadband_filter_successive)

text \<open>C20: A periodic rule cannot flood the uplink. If it is due at \<open>due\<close> and logs \<open>n\<close> records in a run that
  ends by time \<open>t\<close>, then \<open>due + (n - 1) * interval\<close> is at most \<open>t\<close>: at most one record per interval,
  however often the engine is ticked, in whatever order the readings of the clock come.\<close>

theorem periodic_rules_keep_their_rate:
  assumes "engine_wf cel c e" and "r \<in> set (crs_rules (eng_rules e))"
    and "cr_behaviour r = Periodic interval age" and "hm_get (eng_state e) (cr_id r) = Some st"
    and "next_due_ms st = Some due" and "list_all (ticked_by t) evs" and "t + unat interval < 2 ^ 64"
    and "n = length (filter (\<lambda>l. lr_rule_id l = cr_id r)
               (concat (map records (snd (run (engine_handle cel) evs e)))))"
    and "0 < n"
  shows "unat due + (n - 1) * unat interval \<le> t"
proof -
  have "\<not> is_swap ev" if "ticked_by t ev" for ev :: "'a event"
    using that by (cases ev) simp_all
  then have ns: "list_all (\<lambda>ev. \<not> is_swap ev) evs"
    using assms(6) by (auto simp: list_all_iff)
  have "n = log_count (snd (run (rule_handle cel e r) evs (eng_latest e, st)))"
    using assms(8) by (simp add: engine_rule_points [OF assms(1,2,4) ns, symmetric] log_count_project)
  from periodic_rule_run [OF assms(3,7,6,5) this assms(9)] assms(9) show ?thesis
    by (cases n) simp_all
qed

text \<open>The demo engine with a value of the vehicle speed.\<close>

definition speed_engine :: "cel_expr engine" where
  "speed_engine = observe 900 \<lparr>smp_signal_id = 257, smp_name = ''vehicle_speed'', smp_timestamp_us = 3,
     smp_value = VNum (f64_lit 60 1)\<rparr> demo_engine"

lemma speed_engine_wf: "engine_wf ident_cel r1s speed_engine"
  using demo_engine_wf by (simp add: engine_wf_def speed_engine_def observe_def)

lemma speed_engine_sel [simp]: "eng_rules speed_engine = demo_rules" "eng_state speed_engine = eng_state demo_engine"
  by (simp_all add: speed_engine_def)

lemma speed_logged: "\<exists>l. records (snd (tick ident_cel 1000 speed_engine)) = [l] \<and> lr_rule_id l = cr_id speed_rule"
proof -
  have "hm_get (eng_latest speed_engine) ''vehicle_speed'' =
      Some \<lparr>lat_value = VNum (f64_lit 60 1), lat_timestamp_us = 3, lat_received_ms = 900\<rparr>"
    by (simp add: speed_engine_def observe_def)
  moreover have "periodic_step ident_cel speed_engine 1000 r st = (st, report_default)"
    if "r = soc_rule \<or> r = gear_rule" for r st
    using that by (auto simp: periodic_step_def soc_rule_def gear_rule_def)
  moreover have "cr_behaviour speed_rule = Periodic 1000 3000" "cr_condition speed_rule = None"
    "rule_signal (cr_def speed_rule) = ''vehicle_speed''"
    by (simp_all add: speed_rule_def demo_ruleset_def)
  moreover have "fresh_state 0 speed_rule = \<lparr>last_logged = None, next_due_ms = Some 1000\<rparr>"
    by (simp add: fresh_state_def speed_rule_def saturating_add_u64_def)
  ultimately have "records (keyed_out cr_id (periodic_step ident_cel speed_engine 1000) (eng_state demo_engine) r) =
      (if r = speed_rule then [log_record_of speed_engine speed_rule 3 (VNum (f64_lit 60 1))] else [])"
    if "r \<in> set (crs_rules demo_rules)" for r
    using that demo_engine_state [OF that]
    by (auto simp: keyed_out_def demo_rules_def periodic_step_def [of _ _ _ speed_rule] is_due_def Let_def
        log_if_def condition_verdict_def saturating_sub_u64_def)
  moreover have "soc_rule \<noteq> speed_rule" "gear_rule \<noteq> speed_rule"
    by (simp_all add: demo_rule_defs)
  ultimately show ?thesis
    by (simp add: tick_report [OF speed_engine_wf] report_concat_sel) (simp add: demo_rules_def)
qed

theorem periodic_rules_keep_their_rate_witness:
  "unat (1000 :: u64) + (1 - 1) * unat (1000 :: u64) \<le> 1000"
proof (rule periodic_rules_keep_their_rate [OF speed_engine_wf, where r = speed_rule and age = 3000
      and st = "fresh_state 0 speed_rule" and evs = "[Ticked 1000]"])
  show "(1::nat) = length (filter (\<lambda>l. lr_rule_id l = cr_id speed_rule)
      (concat (map records (snd (run (engine_handle ident_cel) [Ticked 1000] speed_engine)))))"
    using speed_logged by auto
qed (simp_all add: demo_engine_state, simp_all add: speed_rule_def fresh_state_def saturating_add_u64_def)

text \<open>C21: A periodic rule misses no slot and does not drift. When every tick finds a value that is
  not too old, and every tick that finds the rule due comes before the next slot, a rule without a condition that is due
  at \<open>due\<close> logs exactly one record per slot: after \<open>n\<close> records it is due at \<open>due + n * interval\<close>, however
  late within its slot each tick was, and all ticks so far came before that time.\<close>

theorem periodic_rules_log_every_slot:
  assumes "engine_wf cel c e" and "r \<in> set (crs_rules (eng_rules e))"
    and "cr_behaviour r = Periodic interval age" and "cr_condition r = None"
    and "hm_get (eng_state e) (cr_id r) = Some st" and "next_due_ms st = Some due"
    and "punctual interval (unat due) evs"
    and "fresh_ticks (rule_signal (cr_def r)) age (got_at (eng_latest e) (rule_signal (cr_def r))) evs"
    and "n = length (filter (\<lambda>l. lr_rule_id l = cr_id r)
               (concat (map records (snd (run (engine_handle cel) evs e)))))"
  shows "\<exists>due'. map_option next_due_ms (hm_get (eng_state (fst (run (engine_handle cel) evs e))) (cr_id r))
        = Some (Some due')
      \<and> unat due' = unat due + n * unat interval \<and> (\<forall>now. Ticked now \<in> set evs \<longrightarrow> now < due')"
proof -
  note ns = fresh_no_swap [OF assms(8)]
  have "n = log_count (snd (run (rule_handle cel e r) evs (eng_latest e, st)))"
    using assms(9) by (simp add: engine_rule_points [OF assms(1,2,5) ns, symmetric] log_count_project)
  with periodic_rule_slots [OF assms(3,4,7,8,6), of cel e] show ?thesis
    by (simp add: engine_rule_state [OF assms(1,2,5) ns])
qed

definition slot_run :: "cel_expr event list" where
  "slot_run = [Ticked 990, Ticked 1000, Ticked 2999, Ticked 3000]"

theorem periodic_rules_log_every_slot_witness:
  "\<exists>due'. map_option next_due_ms (hm_get (eng_state (fst (run (engine_handle ident_cel) slot_run speed_engine)))
        (cr_id speed_rule)) = Some (Some due')
    \<and> unat due' = unat (1000 :: u64) + length (filter (\<lambda>l. lr_rule_id l = cr_id speed_rule) (concat (map records
        (snd (run (engine_handle ident_cel) slot_run speed_engine))))) * unat (1000 :: u64)
    \<and> 3000 < due'"
proof -
  have "got_at (eng_latest speed_engine) (rule_signal (cr_def speed_rule)) = Some 900"
    by (simp add: got_at_def speed_engine_def observe_def demo_rule_defs)
  then have fresh: "fresh_ticks (rule_signal (cr_def speed_rule)) 3000
      (got_at (eng_latest speed_engine) (rule_signal (cr_def speed_rule))) slot_run"
    by (simp add: slot_run_def saturating_sub_u64_def)
  have in_time: "punctual 1000 (unat (1000 :: u64)) slot_run" by (simp add: slot_run_def)
  have rule: "cr_behaviour speed_rule = Periodic 1000 3000" "cr_condition speed_rule = None"
    and due: "next_due_ms (fresh_state 0 speed_rule) = Some 1000"
    by (simp_all add: speed_rule_def fresh_state_def saturating_add_u64_def)
  have "hm_get (eng_state speed_engine) (cr_id speed_rule) = Some (fresh_state 0 speed_rule)"
    by (simp add: demo_engine_state)
  from periodic_rules_log_every_slot [OF speed_engine_wf _ rule this due in_time fresh refl] show ?thesis
    by (auto simp: slot_run_def)
qed

section \<open>Swaps\<close>

text \<open>C34: What a swap does to the rules: a rule whose definition is unchanged keeps its state, the last
  logged value and the periodic timer; a new or modified rule starts fresh, a periodic one due one
  interval after the swap; a removed rule has no state any more. The signal values survive.\<close>

theorem swap_reconciles_rules:
  assumes "engine_wf cel c e" and "rules_wf cel c' new" and "r \<in> set (crs_rules new)"
    and "k \<notin> cr_id ` set (crs_rules new)"
  shows "hm_get (eng_state (apply_ruleset now new e)) (cr_id r) =
      Some (if \<exists>old\<in>set (crs_rules (eng_rules e)). rule_eq (cr_def old) (cr_def r)
            then the (hm_get (eng_state e) (cr_id r)) else fresh_state now r)
    \<and> hm_get (eng_state (apply_ruleset now new e)) k = None
    \<and> eng_latest (apply_ruleset now new e) = eng_latest e"
proof -
  have "\<exists>st. hm_get (eng_state e) (cr_id r) = Some st" if "unchanged_rule e r"
  proof -
    from that obtain old where old: "old \<in> set (crs_rules (eng_rules e))" "rule_eq (cr_def old) (cr_def r)"
      by (auto simp: unchanged_rule_def)
    then have "cr_id old = cr_id r" by (simp add: rule_eq_def cr_id_def)
    with engine_wfD(3) [OF assms(1) old(1)] show ?thesis by simp
  qed
  with apply_ruleset_state [OF assms(1-3)] apply_ruleset_dropped [OF assms(4)] show ?thesis
    unfolding unchanged_rule_def [symmetric] by (auto simp: carried_state_def)
qed

theorem swap_reconciles_rules_witness:
  "hm_get (eng_state (apply_ruleset 500 demo_rules demo_engine)) (cr_id speed_rule) =
      Some (if \<exists>old\<in>set (crs_rules (eng_rules demo_engine)). rule_eq (cr_def old) (cr_def speed_rule)
            then the (hm_get (eng_state demo_engine) (cr_id speed_rule)) else fresh_state 500 speed_rule)
    \<and> hm_get (eng_state (apply_ruleset 500 demo_rules demo_engine)) ''other'' = None
    \<and> eng_latest (apply_ruleset 500 demo_rules demo_engine) = eng_latest demo_engine"
  by (rule swap_reconciles_rules [OF demo_engine_wf demo_rules_wf])
    (simp_all, simp add: demo_rules_def cr_id_def demo_rule_defs)

text \<open>Receiving the active rules again disturbs nothing: swapping in a rule set with the same rules
  leaves every rule's state as it was, whenever it happens, so re-publishing a rule set does not
  restart timers or repeat logs.\<close>

theorem swapping_the_same_rules_keeps_state:
  assumes "engine_wf cel c e" and "crs_rules new = crs_rules (eng_rules e)"
  shows "hm_get (eng_state (apply_ruleset now new e)) k = hm_get (eng_state e) k"
proof (cases "k \<in> cr_id ` set (crs_rules new)")
  case True
  then obtain r where r: "r \<in> set (crs_rules new)" "k = cr_id r" by blast
  have new: "rules_wf cel c new"
    using assms by (simp add: engine_wf_def rules_wf_def)
  have "rule_wf cel c r" using r engine_wfD(2) [OF assms(1)] assms(2) by simp
  then have "rule_eq (cr_def r) (cr_def r)"
    by (intro rule_eq_refl) (cases "cr_behaviour r"; auto simp: rule_wf_def deadband_of_def)
  then have "unchanged_rule e r" using r(1) assms(2) by (auto simp: unchanged_rule_def)
  moreover obtain st where "hm_get (eng_state e) (cr_id r) = Some st"
    using engine_wfD(3) [OF assms(1)] r(1) assms(2) by auto
  ultimately show ?thesis
    by (simp add: r(2) apply_ruleset_state [OF assms(1) new r(1)] carried_state_def)
next
  case False
  then have "hm_get (eng_state e) k = None"
    using engine_wfD(4) [OF assms(1)] assms(2) unfolding state_wf_def by auto
  with False show ?thesis by (simp add: apply_ruleset_dropped)
qed

theorem swapping_the_same_rules_keeps_state_witness:
  "hm_get (eng_state (apply_ruleset 700 demo_rules demo_engine)) ''speed_1hz'' =
    hm_get (eng_state demo_engine) ''speed_1hz''"
  by (rule swapping_the_same_rules_keeps_state [OF demo_engine_wf]) simp

end
