(* ===== verification/Config.thy ===== *)
theory Config
  imports Serde
begin

text \<open>
  The daemon's configuration (\<open>crates/telemetryd/src/config.rs\<close>): the document types with their
  derived deserialisation (required keys, defaults, no unknown keys) and the checks of \<open>parse\<close>. The TOML
  parser and the parser of socket addresses are parameters.
\<close>

section \<open>TOML documents\<close>

datatype toml = TStr string | TInt int | TOther | TTable "(string \<times> toml) list"

fun as_str :: "toml \<Rightarrow> string option" where
  "as_str (TStr s) = Some s"
| "as_str _ = None"

fun as_uint :: "nat \<Rightarrow> toml \<Rightarrow> nat option" where
  "as_uint w (TInt i) = (if 0 \<le> i \<and> i < 2 ^ w then Some (nat i) else None)"
| "as_uint w _ = None"

fun as_table :: "toml \<Rightarrow> (string \<times> toml) list option" where
  "as_table (TTable t) = Some t"
| "as_table _ = None"

section \<open>The configuration\<close>

record 'a ingest_config =
  udp_bind :: 'a

record output_config =
  log_dir :: string
  max_file_bytes :: nat
  cfg_max_files :: nat

record 'a config =
  cfg_vin :: string
  cfg_model :: string
  catalog_path :: string
  rules_file :: "string option"
  cfg_ingest :: "'a ingest_config"
  cfg_output :: output_config

definition default_max_file_bytes :: nat where
  "default_max_file_bytes = 10 * 1024 * 1024"

definition default_max_files :: nat where
  "default_max_files = 5"

definition ingest_from_table :: "(string \<Rightarrow> 'a option) \<Rightarrow> (string \<times> toml) list \<Rightarrow> 'a ingest_config option" where
  "ingest_from_table parse_addr t =
     (if only_keys [''udp_bind''] t
      then map_option (\<lambda>a. \<lparr>udp_bind = a\<rparr>) (required (\<lambda>v. Option.bind (as_str v) parse_addr) ''udp_bind'' t)
      else None)"

definition output_from_table :: "(string \<times> toml) list \<Rightarrow> output_config option" where
  "output_from_table t =
     (if only_keys [''log_dir'', ''max_file_bytes'', ''max_files''] t
      then (case (required as_str ''log_dir'' t,
                  defaulted (as_uint 64) default_max_file_bytes ''max_file_bytes'' t,
                  defaulted (as_uint 32) default_max_files ''max_files'' t) of
          (Some dir, Some bytes, Some files) \<Rightarrow>
            Some \<lparr>log_dir = dir, max_file_bytes = bytes, cfg_max_files = files\<rparr>
        | _ \<Rightarrow> None)
      else None)"

definition config_from_table :: "(string \<Rightarrow> 'a option) \<Rightarrow> (string \<times> toml) list \<Rightarrow> 'a config option" where
  "config_from_table parse_addr t =
     (if only_keys [''vin'', ''model'', ''catalog_path'', ''rules_file'', ''ingest'', ''output''] t
      then (case (required as_str ''vin'' t, required as_str ''model'' t, required as_str ''catalog_path'' t,
                  defaulted (\<lambda>v. map_option Some (as_str v)) None ''rules_file'' t,
                  required (\<lambda>v. Option.bind (as_table v) (ingest_from_table parse_addr)) ''ingest'' t,
                  required (\<lambda>v. Option.bind (as_table v) output_from_table) ''output'' t) of
          (Some vin, Some model, Some path, Some rules, Some ing, Some outp) \<Rightarrow>
            Some \<lparr>cfg_vin = vin, cfg_model = model, catalog_path = path, rules_file = rules,
                  cfg_ingest = ing, cfg_output = outp\<rparr>
        | _ \<Rightarrow> None)
      else None)"

section \<open>Parsing\<close>

datatype config_error = TomlError string | DeserializeError | Ensure string

definition ensure :: "bool \<Rightarrow> string \<Rightarrow> (config_error, unit) result" where
  "ensure b msg = (if b then Ok () else Err (Ensure msg))"

definition config_parse ::
  "(string \<Rightarrow> (string, (string \<times> toml) list) result) \<Rightarrow> (string \<Rightarrow> 'a option) \<Rightarrow> string
    \<Rightarrow> (config_error, 'a config) result" where
  "config_parse parse_toml parse_addr text =
     and_then (map_err TomlError (parse_toml text)) (\<lambda>t.
     and_then (ok_or DeserializeError (config_from_table parse_addr t)) (\<lambda>cfg.
     and_then (ensure (\<not> trim_is_empty (cfg_vin cfg)) ''vin must not be empty'') (\<lambda>_.
     and_then (ensure (\<not> trim_is_empty (cfg_model cfg)) ''model must not be empty'') (\<lambda>_.
     and_then (ensure (max_file_bytes (cfg_output cfg) \<ge> 1024)
       ''output.max_file_bytes must be at least 1024'') (\<lambda>_.
     and_then (ensure (cfg_max_files (cfg_output cfg) \<ge> 1)
       ''output.max_files must be at least 1'') (\<lambda>_.
     Ok cfg))))))"

section \<open>Accepted configurations\<close>

definition config_ok :: "'a config \<Rightarrow> bool" where
  "config_ok cfg \<longleftrightarrow>
     \<not> trim_is_empty (cfg_vin cfg) \<and> \<not> trim_is_empty (cfg_model cfg)
     \<and> 1024 \<le> max_file_bytes (cfg_output cfg) \<and> 1 \<le> cfg_max_files (cfg_output cfg)"

lemma ensure_Ok_iff [simp]: "ensure b msg = Ok u \<longleftrightarrow> b"
  by (simp add: ensure_def)

lemma config_parse_Ok_iff:
  "config_parse parse_toml parse_addr text = Ok cfg \<longleftrightarrow>
    (\<exists>t. parse_toml text = Ok t \<and> config_from_table parse_addr t = Some cfg) \<and> config_ok cfg"
  by (auto simp: config_parse_def config_ok_def and_then_Ok_iff)

lemma config_keys:
  "config_from_table parse_addr t = Some cfg \<Longrightarrow>
    only_keys [''vin'', ''model'', ''catalog_path'', ''rules_file'', ''ingest'', ''output''] t"
  by (simp add: config_from_table_def split: if_splits)

lemma config_bounds:
  assumes "config_from_table parse_addr t = Some cfg"
  shows "max_file_bytes (cfg_output cfg) < 2 ^ 64 \<and> cfg_max_files (cfg_output cfg) < 2 ^ 32"
proof -
  have uint: "as_uint w v = Some n \<Longrightarrow> n < 2 ^ w" for w v n
    by (cases v) (auto split: if_splits)
  have "output_from_table o' = Some out \<Longrightarrow> max_file_bytes out < 2 ^ 64 \<and> cfg_max_files out < 2 ^ 32" for o' out
    by (auto simp: output_from_table_def defaulted_def default_max_file_bytes_def default_max_files_def
        dest!: uint split: if_splits option.splits)
  with assms show ?thesis
    by (auto simp: config_from_table_def required_def bind_eq_Some_conv split: if_splits option.splits)
qed

end
