(* ===== verification/Documents.thy ===== *)
theory Documents
  imports Ruleset Serde "HOL-Library.Monad_Syntax"
begin

text \<open>
  The documents of \<open>crates/protocol\<close> as JSON: the derived \<open>Deserialize\<close> and \<open>Serialize\<close> of the catalog
  (\<open>catalog.rs\<close>) and of the rule set (\<open>ruleset.rs\<close>), with the field attributes of the code, and loading
  from a text. What a deserialiser reads is what its serialiser wrote.
\<close>

section \<open>The catalog document\<close>

definition type_names :: "(string \<times> signal_type) list" where
  "type_names =
     [(''bool'', TBool), (''u8'', TU8), (''i8'', TI8), (''u16'', TU16), (''i16'', TI16), (''u32'', TU32),
      (''i32'', TI32), (''u64'', TU64), (''i64'', TI64), (''f32'', TF32), (''f64'', TF64)]"

fun type_json :: "signal_type \<Rightarrow> json" where
  "type_json TBool = JStr ''bool''"
| "type_json TU8 = JStr ''u8''" | "type_json TI8 = JStr ''i8''"
| "type_json TU16 = JStr ''u16''" | "type_json TI16 = JStr ''i16''"
| "type_json TU32 = JStr ''u32''" | "type_json TI32 = JStr ''i32''"
| "type_json TU64 = JStr ''u64''" | "type_json TI64 = JStr ''i64''"
| "type_json TF32 = JStr ''f32''" | "type_json TF64 = JStr ''f64''"

definition endian_names :: "(string \<times> endian) list" where
  "endian_names = [(''big'', Big), (''little'', Little)]"

fun endian_json :: "endian \<Rightarrow> json" where
  "endian_json Big = JStr ''big''"
| "endian_json Little = JStr ''little''"

definition signal_fields :: "string list" where
  "signal_fields = [''id'', ''name'', ''type'', ''endian'', ''scale'', ''offset'', ''unit'', ''enum'']"

definition signal_from_table :: "(string \<times> json) list \<Rightarrow> signal_def option" where
  "signal_from_table t = do {
     i \<leftarrow> required json_uint ''id'' t;
     n \<leftarrow> required json_str ''name'' t;
     ty \<leftarrow> required (json_variant type_names) ''type'' t;
     en \<leftarrow> defaulted (json_nullable (json_variant endian_names)) None ''endian'' t;
     sc \<leftarrow> defaulted json_f64 default_scale ''scale'' t;
     off \<leftarrow> defaulted json_f64 (f64_lit 0 1) ''offset'' t;
     unit \<leftarrow> defaulted (json_nullable json_str) None ''unit'' t;
     enum \<leftarrow> defaulted (json_nullable (json_map json_str)) None ''enum'' t;
     Some \<lparr>sd_id = i, sd_name = n, sd_ty = ty, sd_endian = en, sd_scale = sc, sd_offset = off,
           sd_unit = unit, sd_enum_map = enum\<rparr>
   }"

definition signal_from_json :: "json \<Rightarrow> signal_def option" where
  "signal_from_json j = Option.bind (struct_table True signal_fields j) signal_from_table"

definition signal_json :: "signal_def \<Rightarrow> json" where
  "signal_json d =
     JObj ([(''id'', uint_json (sd_id d)), (''name'', JStr (sd_name d)), (''type'', type_json (sd_ty d))]
       @ optional_field ''endian'' endian_json (sd_endian d)
       @ [(''scale'', f64_json (sd_scale d)), (''offset'', f64_json (sd_offset d))]
       @ optional_field ''unit'' JStr (sd_unit d)
       @ optional_field ''enum'' (map_json JStr) (sd_enum_map d))"

definition catalog_fields :: "string list" where
  "catalog_fields = [''model'', ''catalog_version'', ''signals'']"

definition spec_from_json :: "json \<Rightarrow> catalog_spec option" where
  "spec_from_json j = do {
     t \<leftarrow> struct_table True catalog_fields j;
     m \<leftarrow> required json_str ''model'' t;
     v \<leftarrow> required json_uint ''catalog_version'' t;
     ss \<leftarrow> required (json_seq signal_from_json) ''signals'' t;
     Some \<lparr>cs_model = m, cs_version = v, cs_signals = ss\<rparr>
   }"

definition spec_json :: "catalog_spec \<Rightarrow> json" where
  "spec_json spec =
     JObj [(''model'', JStr (cs_model spec)), (''catalog_version'', uint_json (cs_version spec)),
           (''signals'', JArr (map signal_json (cs_signals spec)))]"

section \<open>The rule set document\<close>

definition mode_names :: "(string \<times> mode) list" where
  "mode_names = [(''on_change'', ModeOnChange), (''periodic'', ModePeriodic)]"

fun mode_json :: "mode \<Rightarrow> json" where
  "mode_json ModeOnChange = JStr ''on_change''"
| "mode_json ModePeriodic = JStr ''periodic''"

definition rule_fields :: "string list" where
  "rule_fields = [''id'', ''signal'', ''mode'', ''interval_ms'', ''max_age_ms'', ''deadband'', ''condition'']"

definition rule_from_table :: "(string \<times> json) list \<Rightarrow> rule option" where
  "rule_from_table t = do {
     i \<leftarrow> required json_str ''id'' t;
     s \<leftarrow> required json_str ''signal'' t;
     m \<leftarrow> required (json_variant mode_names) ''mode'' t;
     iv \<leftarrow> defaulted (json_nullable json_uint) None ''interval_ms'' t;
     age \<leftarrow> defaulted (json_nullable json_uint) None ''max_age_ms'' t;
     db \<leftarrow> defaulted (json_nullable json_f64) None ''deadband'' t;
     c \<leftarrow> defaulted (json_nullable json_str) None ''condition'' t;
     Some \<lparr>rule_ident = i, rule_signal = s, rule_mode = m, interval_ms = iv, max_age_ms = age,
           deadband = db, rule_condition = c\<rparr>
   }"

definition rule_from_json :: "json \<Rightarrow> rule option" where
  "rule_from_json j = Option.bind (struct_table True rule_fields j) rule_from_table"

definition rule_json :: "rule \<Rightarrow> json" where
  "rule_json r =
     JObj ([(''id'', JStr (rule_ident r)), (''signal'', JStr (rule_signal r)), (''mode'', mode_json (rule_mode r))]
       @ optional_field ''interval_ms'' uint_json (interval_ms r)
       @ optional_field ''max_age_ms'' uint_json (max_age_ms r)
       @ optional_field ''deadband'' f64_json (deadband r)
       @ optional_field ''condition'' JStr (rule_condition r))"

definition ruleset_fields :: "string list" where
  "ruleset_fields = [''ruleset_version'', ''model'', ''rules'']"

definition rules_from_json :: "json \<Rightarrow> ruleset option" where
  "rules_from_json j = do {
     t \<leftarrow> struct_table True ruleset_fields j;
     v \<leftarrow> required json_uint ''ruleset_version'' t;
     m \<leftarrow> required json_str ''model'' t;
     rs \<leftarrow> required (json_seq rule_from_json) ''rules'' t;
     Some \<lparr>ruleset_version = v, rs_model = m, rs_rules = rs\<rparr>
   }"

definition rules_json :: "ruleset \<Rightarrow> json" where
  "rules_json rs =
     JObj [(''ruleset_version'', uint_json (ruleset_version rs)), (''model'', JStr (rs_model rs)),
           (''rules'', JArr (map rule_json (rs_rules rs)))]"

section \<open>Loading\<close>

definition catalog_from_json ::
  "(string \<Rightarrow> (string, json) result) \<Rightarrow> string \<Rightarrow> (catalog_error, catalog) result" where
  "catalog_from_json parse text = and_then (map_err JsonError (from_str spec_from_json parse text)) catalog_new"

definition ruleset_from_json ::
  "(string \<Rightarrow> (string, json) result) \<Rightarrow> string \<Rightarrow> (json_error, ruleset) result" where
  "ruleset_from_json parse text = from_str rules_from_json parse text"

section \<open>Round trips\<close>

text \<open>A \<open>BTreeMap\<close>: its keys ascend.\<close>

definition btmap_ok :: "('k::linorder \<times> 'v) list \<Rightarrow> bool" where
  "btmap_ok m \<longleftrightarrow> sorted (map fst m) \<and> distinct (map fst m)"

lemma map_insort: "map fst (insort_key fst (k, v) m) = insort k (map fst m)"
  by (induction m) auto

lemma btmap_insert_ok: "btmap_ok m \<Longrightarrow> btmap_ok (btmap_insert k v m)"
  unfolding btmap_ok_def btmap_insert_def map_insort
  by (auto simp: sorted_insort distinct_insort sorted_filter distinct_map_filter)

lemma fold_btmap_ok: "btmap_ok m \<Longrightarrow> btmap_ok (fold (\<lambda>(k, v). btmap_insert k v) kvs m)"
  by (induction kvs arbitrary: m) (auto intro: btmap_insert_ok)

lemma insort_snoc: "\<forall>x\<in>set m. fst x < k \<Longrightarrow> insort_key fst (k, v) m = m @ [(k, v)]"
  by (induction m) auto

lemma btmap_insert_last:
  assumes "btmap_ok (m @ [(k, v)])"
  shows "btmap_insert k v m = m @ [(k, v)]"
proof -
  have less: "\<forall>x\<in>set m. fst x < k"
    using assms by (force simp: btmap_ok_def sorted_append order.strict_iff_order)
  then have "filter (\<lambda>kv. fst kv \<noteq> k) m = m" by (auto simp: filter_id_conv)
  then show ?thesis by (simp add: btmap_insert_def insort_snoc [OF less])
qed

lemma fold_btmap: "btmap_ok (m @ kvs) \<Longrightarrow> fold (\<lambda>(k, v). btmap_insert k v) kvs m = m @ kvs"
proof (induction kvs arbitrary: m)
  case (Cons kv kvs)
  have "btmap_ok (m @ [kv])" using Cons.prems by (auto simp: btmap_ok_def sorted_append)
  with Cons.IH [of "m @ [kv]"] Cons.prems btmap_insert_last [of m "fst kv" "snd kv"] show ?case
    by (simp add: split_beta)
qed simp

text \<open>Values without numbers are read back as they were written.\<close>

abbreviation "as_written \<equiv> \<lambda>g x. x"

interpretation string: json_codec JStr json_str "\<lambda>_. True" as_written
  by unfold_locales (simp_all add: json_str_def)

interpretation number: json_codec f64_json json_f64 is_finite "\<lambda>g. g"
  by unfold_locales (simp_all add: json_f64_def f64_json_def)

interpretation type: json_codec type_json "json_variant type_names" "\<lambda>_. True" as_written
proof
  show "json_variant type_names (json_reread g (type_json ty)) = Some ty" for g ty
    by (cases ty) (simp_all add: json_variant_def type_names_def)
  show "type_json ty \<noteq> JNull" for ty by (cases ty) simp_all
qed

interpretation endian: json_codec endian_json "json_variant endian_names" "\<lambda>_. True" as_written
proof
  show "json_variant endian_names (json_reread g (endian_json en)) = Some en" for g en
    by (cases en) (simp_all add: json_variant_def endian_names_def)
  show "endian_json en \<noteq> JNull" for en by (cases en) simp_all
qed

interpretation mode: json_codec mode_json "json_variant mode_names" "\<lambda>_. True" as_written
proof
  show "json_variant mode_names (json_reread g (mode_json m)) = Some m" for g m
    by (cases m) (simp_all add: json_variant_def mode_names_def)
  show "mode_json m \<noteq> JNull" for m by (cases m) simp_all
qed

lemma codec_uint: "LENGTH('a::len) \<le> 64 \<Longrightarrow> json_codec (uint_json :: 'a word \<Rightarrow> json) json_uint (\<lambda>_. True) as_written"
  by unfold_locales (simp_all add: json_uint_json)

interpretation n16: json_codec "uint_json :: u16 \<Rightarrow> json" json_uint "\<lambda>_. True" as_written
  by (rule codec_uint) simp

interpretation n32: json_codec "uint_json :: u32 \<Rightarrow> json" json_uint "\<lambda>_. True" as_written
  by (rule codec_uint) simp

interpretation n64: json_codec "uint_json :: u64 \<Rightarrow> json" json_uint "\<lambda>_. True" as_written
  by (rule codec_uint) simp

lemmas string_de = string.de_reread [simplified]
lemmas string_nullable = string.nullable_reread [simplified]
lemmas n16_de = n16.de_reread [simplified]
lemmas n32_de = n32.de_reread [simplified]
lemmas n64_de = n64.de_reread [simplified]
lemmas n64_nullable = n64.nullable_reread [simplified]

interpretation string_map: json_codec "map_json JStr" "json_map json_str" btmap_ok as_written
proof
  fix m :: "(string \<times> string) list" and g assume ok: "btmap_ok m"
  have "those (map (\<lambda>kv. json_str (snd kv)) (map (\<lambda>kv. (fst kv, JStr (snd kv))) m)) = Some (map snd m)"
    using string.those_reread [of "map snd m"] by (simp add: comp_def list_all_iff)
  with fold_btmap [of "[]" m] ok show "json_map json_str (json_reread g (map_json JStr m)) = Some m"
    by (simp add: json_map_def map_json_def comp_def zip_map_fst_snd)
qed (simp add: map_json_def)

lemma optional_field_reread:
  "map (map_prod id (json_reread g)) (optional_field k f v) = optional_field k (\<lambda>x. json_reread g (f x)) v"
  by (simp add: optional_field_def split: option.split)

definition def_writable :: "signal_def \<Rightarrow> bool" where
  "def_writable d \<longleftrightarrow> is_finite (sd_scale d) \<and> is_finite (sd_offset d)
     \<and> (case sd_enum_map d of None \<Rightarrow> True | Some m \<Rightarrow> btmap_ok m)"

definition reread_def :: "(f64 \<Rightarrow> f64) \<Rightarrow> signal_def \<Rightarrow> signal_def" where
  "reread_def g d = d\<lparr>sd_scale := g (sd_scale d), sd_offset := g (sd_offset d)\<rparr>"

interpretation signal_def: json_codec signal_json signal_from_json def_writable reread_def
proof
  fix d g assume ok: "def_writable d"
  let ?t = "[(''id'', uint_json (sd_id d)), (''name'', JStr (sd_name d)), (''type'', json_reread g (type_json (sd_ty d)))]
       @ optional_field ''endian'' (\<lambda>x. json_reread g (endian_json x)) (sd_endian d)
       @ [(''scale'', json_reread g (f64_json (sd_scale d))), (''offset'', json_reread g (f64_json (sd_offset d)))]
       @ optional_field ''unit'' (\<lambda>x. json_reread g (JStr x)) (sd_unit d)
       @ optional_field ''enum'' (\<lambda>x. json_reread g (map_json JStr x)) (sd_enum_map d)"
  have "json_reread g (signal_json d) = JObj ?t"
    by (simp add: signal_json_def optional_field_reread)
  moreover have "struct_table True signal_fields (JObj ?t) = Some ?t"
    by (auto simp: struct_table_def signal_fields_def only_keys_def optional_field_def split: option.split)
  moreover have "signal_from_table ?t = Some (reread_def g d)"
    using ok
    by (cases "sd_endian d"; cases "sd_unit d"; cases "sd_enum_map d")
      (simp_all add: signal_from_table_def required_def defaulted_def optional_field_def def_writable_def
        n16_de string_de type.de_reread number.de_reread
        endian.nullable_reread string_nullable string_map.nullable_reread reread_def_def)
  ultimately show "signal_from_json (json_reread g (signal_json d)) = Some (reread_def g d)"
    by (simp add: signal_from_json_def)
qed (simp add: signal_json_def)

definition spec_writable :: "catalog_spec \<Rightarrow> bool" where
  "spec_writable spec \<longleftrightarrow> list_all def_writable (cs_signals spec)"

definition reread_spec :: "(f64 \<Rightarrow> f64) \<Rightarrow> catalog_spec \<Rightarrow> catalog_spec" where
  "reread_spec g spec = spec\<lparr>cs_signals := map (reread_def g) (cs_signals spec)\<rparr>"

interpretation spec: json_codec spec_json spec_from_json spec_writable reread_spec
proof
  fix spec g assume "spec_writable spec"
  then have "json_seq signal_from_json (JArr (map (\<lambda>d. json_reread g (signal_json d)) (cs_signals spec)))
      = Some (map (reread_def g) (cs_signals spec))"
    using signal_def.seq_reread [of "cs_signals spec" g] by (simp add: spec_writable_def comp_def)
  then show "spec_from_json (json_reread g (spec_json spec)) = Some (reread_spec g spec)"
    by (simp add: spec_from_json_def spec_json_def struct_table_def catalog_fields_def only_keys_def required_def
        string_de n32_de comp_def reread_spec_def)
qed (simp add: spec_json_def)

definition rule_writable :: "rule \<Rightarrow> bool" where
  "rule_writable r \<longleftrightarrow> (case deadband r of None \<Rightarrow> True | Some x \<Rightarrow> is_finite x)"

definition reread_rule :: "(f64 \<Rightarrow> f64) \<Rightarrow> rule \<Rightarrow> rule" where
  "reread_rule g r = r\<lparr>deadband := map_option g (deadband r)\<rparr>"

interpretation rule: json_codec rule_json rule_from_json rule_writable reread_rule
proof
  fix r g assume ok: "rule_writable r"
  let ?t = "[(''id'', JStr (rule_ident r)), (''signal'', JStr (rule_signal r)), (''mode'', json_reread g (mode_json (rule_mode r)))]
       @ optional_field ''interval_ms'' (\<lambda>x. json_reread g (uint_json x)) (interval_ms r)
       @ optional_field ''max_age_ms'' (\<lambda>x. json_reread g (uint_json x)) (max_age_ms r)
       @ optional_field ''deadband'' (\<lambda>x. json_reread g (f64_json x)) (deadband r)
       @ optional_field ''condition'' (\<lambda>x. json_reread g (JStr x)) (rule_condition r)"
  have "json_reread g (rule_json r) = JObj ?t"
    by (simp add: rule_json_def optional_field_reread)
  moreover have "struct_table True rule_fields (JObj ?t) = Some ?t"
    by (auto simp: struct_table_def rule_fields_def only_keys_def optional_field_def split: option.split)
  moreover have "rule_from_table ?t = Some (reread_rule g r)"
    using ok
    by (cases "interval_ms r"; cases "max_age_ms r"; cases "deadband r"; cases "rule_condition r")
      (simp_all add: rule_from_table_def required_def defaulted_def optional_field_def rule_writable_def
        string_de mode.de_reread n64_nullable
        number.nullable_reread string_nullable reread_rule_def)
  ultimately show "rule_from_json (json_reread g (rule_json r)) = Some (reread_rule g r)"
    by (simp add: rule_from_json_def)
qed (simp add: rule_json_def)

definition rules_writable :: "ruleset \<Rightarrow> bool" where
  "rules_writable rs \<longleftrightarrow> list_all rule_writable (rs_rules rs)"

definition reread_rules :: "(f64 \<Rightarrow> f64) \<Rightarrow> ruleset \<Rightarrow> ruleset" where
  "reread_rules g rs = rs\<lparr>rs_rules := map (reread_rule g) (rs_rules rs)\<rparr>"

interpretation rules: json_codec rules_json rules_from_json rules_writable reread_rules
proof
  fix rs g assume "rules_writable rs"
  then have "json_seq rule_from_json (JArr (map (\<lambda>r. json_reread g (rule_json r)) (rs_rules rs)))
      = Some (map (reread_rule g) (rs_rules rs))"
    using rule.seq_reread [of "rs_rules rs" g] by (simp add: rules_writable_def comp_def)
  then show "rules_from_json (json_reread g (rules_json rs)) = Some (reread_rules g rs)"
    by (simp add: rules_from_json_def rules_json_def struct_table_def ruleset_fields_def only_keys_def required_def
        string_de n64_de comp_def reread_rules_def)
qed (simp add: rules_json_def)

text \<open>When the numbers are read back as they were written, all is.\<close>

lemma reread_spec_same:
  "(\<And>d. d \<in> set (cs_signals spec) \<Longrightarrow> g (sd_scale d) = sd_scale d \<and> g (sd_offset d) = sd_offset d)
    \<Longrightarrow> reread_spec g spec = spec"
  by (cases spec) (auto simp: reread_spec_def reread_def_def intro!: map_idI)

lemma reread_rules_same:
  "(\<And>r. r \<in> set (rs_rules rs) \<Longrightarrow> map_option g (deadband r) = deadband r) \<Longrightarrow> reread_rules g rs = rs"
  by (cases rs) (auto simp: reread_rules_def reread_rule_def intro!: map_idI)

lemma spec_de_ser: "spec_writable spec \<Longrightarrow> spec_from_json (spec_json spec) = Some spec"
  using spec.de_reread [of spec "\<lambda>x. x"] by (simp add: json_reread_same reread_spec_same)

lemma rules_de_ser: "rules_writable rs \<Longrightarrow> rules_from_json (rules_json rs) = Some rs"
  using rules.de_reread [of rs "\<lambda>x. x"] by (simp add: json_reread_same reread_rules_same option.map_ident)

section \<open>What is loaded can be written\<close>

lemma json_map_ok: "json_map conv j = Some m \<Longrightarrow> btmap_ok m"
proof -
  have "btmap_ok []" by (simp add: btmap_ok_def)
  then show "json_map conv j = Some m \<Longrightarrow> btmap_ok m"
    by (auto simp: json_map_def intro: fold_btmap_ok split: json.splits)
qed

lemma nullable_map_ok:
  "defaulted (json_nullable (json_map conv)) None k t = Some (Some m) \<Longrightarrow> btmap_ok m"
  by (auto simp: defaulted_def json_nullable_def intro: json_map_ok split: option.splits json.splits)

lemma signal_from_json_map:
  "signal_from_json j = Some d \<Longrightarrow> sd_enum_map d = Some m \<Longrightarrow> btmap_ok m"
  by (auto simp: signal_from_json_def signal_from_table_def Option.bind_eq_Some_conv intro: nullable_map_ok)

lemma json_seq_iff: "json_seq conv j = Some ys \<longleftrightarrow> (\<exists>xs. j = JArr xs \<and> those (map conv xs) = Some ys)"
  by (cases j) (simp_all add: json_seq_def)

lemma those_Some: "those xs = Some ys \<Longrightarrow> y \<in> set ys \<Longrightarrow> Some y \<in> set xs"
  by (induction xs arbitrary: ys) (auto split: option.splits)

lemma spec_from_json_map:
  assumes "spec_from_json j = Some spec" and "d \<in> set (cs_signals spec)" and "sd_enum_map d = Some m"
  shows "btmap_ok m"
proof -
  obtain t where "required (json_seq signal_from_json) ''signals'' t = Some (cs_signals spec)"
    using assms(1) by (auto simp: spec_from_json_def Option.bind_eq_Some_conv)
  then obtain xs where "those (map signal_from_json xs) = Some (cs_signals spec)"
    by (auto simp: required_def json_seq_iff Option.bind_eq_Some_conv)
  from those_Some [OF this assms(2)] obtain x where "signal_from_json x = Some d" by auto
  from signal_from_json_map [OF this assms(3)] show ?thesis .
qed

end
