(* ===== verification/Runtime.thy ===== *)
theory Runtime
  imports Prelude
begin

text \<open>
  What the tasks of the daemon share of the standard library and of Tokio: I/O errors and the bounded
  \<open>mpsc\<close> channels between the tasks. A full channel makes the sender wait, so its capacity only
  delays; what a sender observes is whether the receiver still exists.
\<close>

datatype io_error = IoError

text \<open>
  A sender with the messages its receiver has been given, in order, and the number of messages it
  still takes before it is dropped (\<open>None\<close>: it outlives the sender).
\<close>

record 'a sender =
  tx_sent :: "'a list"
  tx_room :: "nat option"

definition channel_send :: "'a \<Rightarrow> 'a sender \<Rightarrow> (unit, unit) result \<times> 'a sender" where
  "channel_send x tx =
     (case tx_room tx of
        None \<Rightarrow> (Ok (), tx\<lparr>tx_sent := tx_sent tx @ [x]\<rparr>)
      | Some n \<Rightarrow>
          if n = 0 then (Err (), tx)
          else (Ok (), tx\<lparr>tx_sent := tx_sent tx @ [x], tx_room := Some (n - 1)\<rparr>))"

text \<open>The messages a receiver takes of those it is offered.\<close>

definition tx_takes :: "'a sender \<Rightarrow> 'a list \<Rightarrow> 'a list" where
  "tx_takes tx xs = (case tx_room tx of None \<Rightarrow> xs | Some n \<Rightarrow> take n xs)"

lemma tx_takes_open [simp]: "tx_room tx = None \<Longrightarrow> tx_takes tx xs = xs"
  by (simp add: tx_takes_def)

lemma tx_takes_Nil [simp]: "tx_takes tx [] = []"
  by (simp add: tx_takes_def split: option.split)

lemma channel_send_sent:
  "tx_sent (snd (channel_send x tx)) @ tx_takes (snd (channel_send x tx)) xs = tx_sent tx @ tx_takes tx (x # xs)"
  by (auto simp: channel_send_def tx_takes_def take_Cons' split: option.splits)

lemma channel_send_Err: "fst (channel_send x tx) = Err () \<Longrightarrow> tx_takes tx xs = [] \<and> snd (channel_send x tx) = tx"
  by (auto simp: channel_send_def tx_takes_def split: option.splits if_splits)

lemma channel_send_open:
  "tx_room tx = None \<Longrightarrow> channel_send x tx = (Ok (), tx\<lparr>tx_sent := tx_sent tx @ [x]\<rparr>)"
  by (simp add: channel_send_def)

lemma tx_takes_append:
  "tx_takes tx (xs @ ys) = tx_takes tx xs @ tx_takes (tx\<lparr>tx_room := map_option (\<lambda>n. n - length xs) (tx_room tx)\<rparr>) ys"
  by (simp add: tx_takes_def split: option.splits)

end
