(* ===== verification/Ingest.thy ===== *)
theory Ingest
  imports Wire_Packet Runtime
begin

text \<open>
  The UDP ingest task (\<open>crates/telemetryd/src/ingest.rs\<close>): it decodes every datagram, keeps the running
  totals and forwards the samples to the engine. What the task waits for is a list of events; the
  debug prints are left out.
\<close>

section \<open>Statistics\<close>

record ingest_stats =
  ing_packets :: u64
  ing_bytes :: u64
  ing_frames_decoded :: u64
  ing_unknown_signals :: u64
  ing_decode_errors :: "(string, u64) hmap"

definition ingest_stats_default :: ingest_stats where
  "ingest_stats_default =
     \<lparr>ing_packets = 0, ing_bytes = 0, ing_frames_decoded = 0, ing_unknown_signals = 0, ing_decode_errors = []\<rparr>"

section \<open>One datagram\<close>

text \<open>The receive buffer; the kernel cuts off what does not fit.\<close>

definition RECV_BUFFER_LEN :: nat where
  "RECV_BUFFER_LEN = MAX_DATAGRAM_LEN * 2"

text \<open>Forwarding the samples; \<open>False\<close> is the early return when the engine is gone.\<close>

fun forward_samples :: "sample list \<Rightarrow> sample sender \<Rightarrow> bool \<times> sample sender" where
  "forward_samples [] tx = (True, tx)"
| "forward_samples (s # ss) tx =
     (case channel_send s tx of
        (Ok _, tx') \<Rightarrow> forward_samples ss tx'
      | (Err _, tx') \<Rightarrow> (False, tx'))"

definition count_error :: "string \<Rightarrow> ingest_stats \<Rightarrow> ingest_stats" where
  "count_error reason stats = stats\<lparr>ing_decode_errors := hm_bump reason (ing_decode_errors stats)\<rparr>"

definition ingest_datagram ::
  "catalog \<Rightarrow> u8 list \<Rightarrow> ingest_stats \<times> sample sender \<Rightarrow> bool \<times> ingest_stats \<times> sample sender" where
  "ingest_datagram c datagram s =
     (case s of (stats, tx) \<Rightarrow>
        (let stats1 = stats\<lparr>ing_packets := ing_packets stats + 1,
               ing_bytes := ing_bytes stats + of_nat (length datagram)\<rparr>
         in case decode_packet datagram c of
              Err e \<Rightarrow> (True, count_error (packet_reason e) stats1, tx)
            | Ok d \<Rightarrow>
                (let stats2 = stats1\<lparr>ing_unknown_signals := ing_unknown_signals stats1 + of_nat (dp_unknown d),
                       ing_frames_decoded := ing_frames_decoded stats1 + of_nat (length (dp_samples d))\<rparr>;
                     stats3 = fold (\<lambda>e. count_error (frame_reason (fe_kind e))) (dp_errors d) stats2
                 in case forward_samples (dp_samples d) tx of (alive, tx') \<Rightarrow> (alive, stats3, tx'))))"

section \<open>The task\<close>

datatype ingest_event = Datagram "u8 list" | RecvFailed io_error | StatsDue | StopChanged

datatype ingest_end = Listening | Returned | Failed io_error

fun run_udp ::
  "catalog \<Rightarrow> ingest_event list \<Rightarrow> ingest_stats \<times> sample sender \<Rightarrow> ingest_end \<times> ingest_stats \<times> sample sender" where
  "run_udp c [] s = (Listening, s)"
| "run_udp c (Datagram bs # evs) s =
     (case ingest_datagram c (take RECV_BUFFER_LEN bs) s of
        (True, s') \<Rightarrow> run_udp c evs s'
      | (False, s') \<Rightarrow> (Returned, s'))"
| "run_udp c (RecvFailed e # evs) s = (Failed e, s)"
| "run_udp c (StatsDue # evs) s = run_udp c evs s"
| "run_udp c (StopChanged # evs) s = (Returned, s)"

section \<open>What the totals count\<close>

text \<open>The samples and the error labels of a datagram.\<close>

definition received_samples :: "catalog \<Rightarrow> u8 list \<Rightarrow> sample list" where
  "received_samples c bs =
     (case decode_packet (take RECV_BUFFER_LEN bs) c of Err _ \<Rightarrow> [] | Ok d \<Rightarrow> dp_samples d)"

definition received_unknown :: "catalog \<Rightarrow> u8 list \<Rightarrow> nat" where
  "received_unknown c bs =
     (case decode_packet (take RECV_BUFFER_LEN bs) c of Err _ \<Rightarrow> 0 | Ok d \<Rightarrow> dp_unknown d)"

definition received_errors :: "catalog \<Rightarrow> u8 list \<Rightarrow> string list" where
  "received_errors c bs =
     (case decode_packet (take RECV_BUFFER_LEN bs) c of
        Err e \<Rightarrow> [packet_reason e] | Ok d \<Rightarrow> map (\<lambda>e. frame_reason (fe_kind e)) (dp_errors d))"

fun datagrams_of :: "ingest_event list \<Rightarrow> u8 list list" where
  "datagrams_of [] = []"
| "datagrams_of (Datagram bs # evs) = bs # datagrams_of evs"
| "datagrams_of (StatsDue # evs) = datagrams_of evs"
| "datagrams_of (_ # evs) = []"

lemma forward_samples_open:
  "tx_room tx = None \<Longrightarrow> forward_samples ss tx = (True, tx\<lparr>tx_sent := tx_sent tx @ ss\<rparr>)"
  by (induction ss arbitrary: tx) (simp_all add: channel_send_open)

lemma count_errors_sel:
  "ing_packets (fold (\<lambda>e. count_error (f e)) es stats) = ing_packets stats"
  "ing_bytes (fold (\<lambda>e. count_error (f e)) es stats) = ing_bytes stats"
  "ing_frames_decoded (fold (\<lambda>e. count_error (f e)) es stats) = ing_frames_decoded stats"
  "ing_unknown_signals (fold (\<lambda>e. count_error (f e)) es stats) = ing_unknown_signals stats"
  "ing_decode_errors (fold (\<lambda>e. count_error (f e)) es stats) = fold hm_bump (map f es) (ing_decode_errors stats)"
  by (induction es arbitrary: stats) (simp_all add: count_error_def)

lemma forward_samples_takes:
  "case forward_samples ss tx of (alive, tx') \<Rightarrow>
    tx_sent tx @ tx_takes tx (ss @ xs) = tx_sent tx' @ (if alive then tx_takes tx' xs else [])"
proof (induction ss arbitrary: tx)
  case Nil
  then show ?case by simp
next
  case (Cons s ss)
  show ?case
  proof (cases "channel_send s tx")
    case (Pair r tx1)
    show ?thesis
    proof (cases r)
      case (Ok u)
      with Pair Cons.IH [of tx1] channel_send_sent [where x = s and tx = tx and xs = "ss @ xs"] show ?thesis
        by (simp split: prod.splits)
    next
      case (Err u)
      with Pair have "tx_room tx = Some 0 \<and> tx1 = tx"
        by (auto simp: channel_send_def split: option.splits if_splits)
      with Pair Err show ?thesis by (simp add: tx_takes_def)
    qed
  qed
qed

text \<open>One datagram adds its own share to every total.\<close>

definition add_datagram :: "catalog \<Rightarrow> u8 list \<Rightarrow> ingest_stats \<Rightarrow> ingest_stats" where
  "add_datagram c bs stats =
     \<lparr>ing_packets = ing_packets stats + 1,
      ing_bytes = ing_bytes stats + of_nat (min (length bs) RECV_BUFFER_LEN),
      ing_frames_decoded = ing_frames_decoded stats + of_nat (length (received_samples c bs)),
      ing_unknown_signals = ing_unknown_signals stats + of_nat (received_unknown c bs),
      ing_decode_errors = fold hm_bump (received_errors c bs) (ing_decode_errors stats)\<rparr>"

lemma ingest_stats_eqI:
  fixes a b :: ingest_stats
  assumes "ing_packets a = ing_packets b" "ing_bytes a = ing_bytes b" "ing_frames_decoded a = ing_frames_decoded b"
    "ing_unknown_signals a = ing_unknown_signals b" "ing_decode_errors a = ing_decode_errors b"
  shows "a = b"
  using assms by (cases a; cases b) simp

lemma ingest_datagram_eq:
  "ingest_datagram c (take RECV_BUFFER_LEN bs) (stats, tx) =
    (case forward_samples (received_samples c bs) tx of (alive, tx') \<Rightarrow> (alive, add_datagram c bs stats, tx'))"
  by (auto simp: ingest_datagram_def received_samples_def received_unknown_def received_errors_def
      add_datagram_def Let_def count_errors_sel count_error_def min.commute
      split: result.splits prod.splits intro!: ingest_stats_eqI)

lemma ingest_forwards:
  "case run_udp c evs (stats, tx) of (r, stats', tx') \<Rightarrow>
    tx_sent tx' = tx_sent tx @ tx_takes tx (concat (map (received_samples c) (datagrams_of evs)))"
proof (induction evs arbitrary: stats tx rule: datagrams_of.induct)
  case (2 bs evs)
  obtain alive tx1 where f: "forward_samples (received_samples c bs) tx = (alive, tx1)"
    by (cases "forward_samples (received_samples c bs) tx")
  with forward_samples_takes [where ss = "received_samples c bs" and tx = tx
      and xs = "concat (map (received_samples c) (datagrams_of evs))"]
    2 [where stats = "add_datagram c bs stats" and tx = tx1]
  show ?case by (cases alive) (auto simp: ingest_datagram_eq split: prod.splits)
qed simp_all

text \<open>How the task ends.\<close>

fun ingest_ends :: "ingest_event list \<Rightarrow> ingest_end" where
  "ingest_ends [] = Listening"
| "ingest_ends (Datagram bs # evs) = ingest_ends evs"
| "ingest_ends (StatsDue # evs) = ingest_ends evs"
| "ingest_ends (RecvFailed e # evs) = Failed e"
| "ingest_ends (StopChanged # evs) = Returned"

lemma ingest_open:
  "tx_room tx = None \<Longrightarrow>
    run_udp c evs (stats, tx) =
      (ingest_ends evs, fold (add_datagram c) (datagrams_of evs) stats,
       tx\<lparr>tx_sent := tx_sent tx @ concat (map (received_samples c) (datagrams_of evs))\<rparr>)"
  by (induction evs arbitrary: stats tx rule: ingest_ends.induct)
    (simp_all add: ingest_datagram_eq forward_samples_open)

lemma fold_add_datagram:
  "ing_packets (fold (add_datagram c) ds stats) = ing_packets stats + of_nat (length ds)"
  "ing_bytes (fold (add_datagram c) ds stats)
    = ing_bytes stats + of_nat (sum_list (map (\<lambda>bs. min (length bs) RECV_BUFFER_LEN) ds))"
  "ing_frames_decoded (fold (add_datagram c) ds stats)
    = ing_frames_decoded stats + of_nat (length (concat (map (received_samples c) ds)))"
  "ing_unknown_signals (fold (add_datagram c) ds stats)
    = ing_unknown_signals stats + of_nat (sum_list (map (received_unknown c) ds))"
  "ing_decode_errors (fold (add_datagram c) ds stats)
    = fold hm_bump (concat (map (received_errors c) ds)) (ing_decode_errors stats)"
  by (induction ds arbitrary: stats) (simp_all add: add_datagram_def algebra_simps)

end
