(* ===== verification/Engine_Task.thy ===== *)
theory Engine_Task
  imports Engine_Traces Runtime
begin

text \<open>
  The engine task of the daemon (\<open>crates/telemetryd/src/engine_task.rs\<close>): each round of its loop ticks
  the engine, computes how long to sleep and waits for a sample, the end of the sleep, the report
  timer or the end of the samples. A round is given by its two clock readings and what it waited for.
\<close>

section \<open>Statistics\<close>

definition IDLE_SLEEP_MS :: u64 where
  "IDLE_SLEEP_MS = 60000"

record engine_stats =
  est_samples :: u64
  est_records :: "(string, u64) hmap"
  est_eval_errors :: "(string, u64) hmap"
  est_stale_skips :: "(string, u64) hmap"

definition engine_stats_default :: engine_stats where
  "engine_stats_default = \<lparr>est_samples = 0, est_records = [], est_eval_errors = [], est_stale_skips = []\<rparr>"

text \<open>A record that the output task no longer takes is dropped; it has been counted.\<close>

definition emit_record :: "log_record \<Rightarrow> engine_stats \<times> log_record sender \<Rightarrow> engine_stats \<times> log_record sender" where
  "emit_record l s =
     (case s of (stats, tx) \<Rightarrow>
        (stats\<lparr>est_records := hm_bump (lr_rule_id l) (est_records stats)\<rparr>, snd (channel_send l tx)))"

definition emit :: "eval_report \<Rightarrow> engine_stats \<times> log_record sender \<Rightarrow> engine_stats \<times> log_record sender" where
  "emit report s =
     (case s of (stats, tx) \<Rightarrow>
        (let stats1 = stats\<lparr>est_eval_errors :=
               fold (\<lambda>(rule_id, error). hm_bump rule_id) (eval_errors report) (est_eval_errors stats)\<rparr>;
             stats2 = stats1\<lparr>est_stale_skips := fold hm_bump (stale_skips report) (est_stale_skips stats1)\<rparr>
         in fold emit_record (records report) (stats2, tx)))"

section \<open>The loop\<close>

definition sleep_for :: "u64 \<Rightarrow> 'p engine \<Rightarrow> u64" where
  "sleep_for now e =
     (case next_deadline_ms e of None \<Rightarrow> IDLE_SLEEP_MS | Some due \<Rightarrow> saturating_sub_u64 due now)"

datatype wake = GotSample u64 sample | Closed | SleptOut | ReportDue

record round =
  rd_tick_ms :: u64
  rd_sleep_ms :: u64
  rd_wake :: wake

text \<open>The state is the engine, the statistics and the channel; the log of sleeps is what the rounds asked for.\<close>

fun engine_task_run ::
  "('p, 'v) cel \<Rightarrow> round list \<Rightarrow> 'p engine \<Rightarrow> engine_stats \<times> log_record sender
    \<Rightarrow> bool \<times> 'p engine \<times> (engine_stats \<times> log_record sender) \<times> u64 list" where
  "engine_task_run cel [] e s = (False, e, s, [])"
| "engine_task_run cel (rd # rds) e s =
     (let (e1, report) = tick cel (rd_tick_ms rd) e;
          s1 = emit report s;
          sleep = sleep_for (rd_sleep_ms rd) e1
      in case rd_wake rd of
           GotSample now smp \<Rightarrow>
             (let (stats, tx) = s1;
                  (e2, report2) = on_sample cel now smp e1;
                  s2 = emit report2 (stats\<lparr>est_samples := est_samples stats + 1\<rparr>, tx);
                  (ended, e3, s3, sleeps) = engine_task_run cel rds e2 s2
              in (ended, e3, s3, sleep # sleeps))
         | Closed \<Rightarrow> (True, e1, s1, [sleep])
         | _ \<Rightarrow>
             (let (ended, e3, s3, sleeps) = engine_task_run cel rds e1 s1
              in (ended, e3, s3, sleep # sleeps)))"

section \<open>Emitting\<close>

lemma fold_emit_record:
  "fold emit_record ls (stats, tx) =
    (stats\<lparr>est_records := fold hm_bump (map lr_rule_id ls) (est_records stats)\<rparr>,
     fold (\<lambda>l t. snd (channel_send l t)) ls tx)"
  by (induction ls arbitrary: stats tx) (simp_all add: emit_record_def)

lemma sends_sent:
  "tx_sent (fold (\<lambda>l t. snd (channel_send l t)) ls tx) = tx_sent tx @ tx_takes tx ls"
proof (induction ls arbitrary: tx)
  case Nil
  then show ?case by simp
next
  case (Cons l ls)
  then show ?case by (simp add: channel_send_sent)
qed

lemma sends_open:
  "tx_room tx = None \<Longrightarrow>
    fold (\<lambda>l t. snd (channel_send l t)) ls tx = tx\<lparr>tx_sent := tx_sent tx @ ls\<rparr>"
  by (induction ls arbitrary: tx) (simp_all add: channel_send_open)

lemma emit_open:
  assumes "tx_room tx = None"
  shows "emit report (stats, tx) =
    (stats\<lparr>est_records := fold hm_bump (map lr_rule_id (records report)) (est_records stats),
           est_eval_errors := fold hm_bump (map fst (eval_errors report)) (est_eval_errors stats),
           est_stale_skips := fold hm_bump (stale_skips report) (est_stale_skips stats)\<rparr>,
     tx\<lparr>tx_sent := tx_sent tx @ records report\<rparr>)"
proof -
  have "fold (\<lambda>(rule_id, error). hm_bump rule_id) es m = fold hm_bump (map fst es) m"
    for es :: "(string \<times> eval_error) list" and m
    by (induction es arbitrary: m) (simp_all add: split_beta)
  then show ?thesis
    by (simp add: emit_def fold_emit_record sends_open [OF assms] Let_def)
qed

section \<open>The task runs the engine\<close>

text \<open>What the engine sees of the rounds, up to the end of the samples.\<close>

fun rounds_trace :: "round list \<Rightarrow> 'p event list" where
  "rounds_trace [] = []"
| "rounds_trace (rd # rds) =
     Ticked (rd_tick_ms rd) #
       (case rd_wake rd of
          GotSample now smp \<Rightarrow> Sampled now smp # rounds_trace rds
        | Closed \<Rightarrow> []
        | _ \<Rightarrow> rounds_trace rds)"

fun rounds_samples :: "round list \<Rightarrow> sample list" where
  "rounds_samples [] = []"
| "rounds_samples (rd # rds) =
     (case rd_wake rd of
        GotSample now smp \<Rightarrow> smp # rounds_samples rds
      | Closed \<Rightarrow> []
      | _ \<Rightarrow> rounds_samples rds)"

definition count_report :: "eval_report \<Rightarrow> engine_stats \<Rightarrow> engine_stats" where
  "count_report report stats =
     stats\<lparr>est_records := fold hm_bump (map lr_rule_id (records report)) (est_records stats),
           est_eval_errors := fold hm_bump (map fst (eval_errors report)) (est_eval_errors stats),
           est_stale_skips := fold hm_bump (stale_skips report) (est_stale_skips stats)\<rparr>"

lemma fold_count_report:
  "est_samples (fold count_report reps stats) = est_samples stats"
  "est_records (fold count_report reps stats)
    = fold hm_bump (map lr_rule_id (concat (map records reps))) (est_records stats)"
  "est_eval_errors (fold count_report reps stats)
    = fold hm_bump (map fst (concat (map eval_errors reps))) (est_eval_errors stats)"
  "est_stale_skips (fold count_report reps stats)
    = fold hm_bump (concat (map stale_skips reps)) (est_stale_skips stats)"
  by (induction reps arbitrary: stats) (simp_all add: count_report_def)

lemma count_report_samples:
  "count_report rep (stats\<lparr>est_samples := n\<rparr>) = (count_report rep stats)\<lparr>est_samples := n\<rparr>"
  "est_samples (count_report rep stats) = est_samples stats"
  by (simp_all add: count_report_def)

lemma add_sample_count:
  "fold count_report reps (stats\<lparr>est_samples := n\<rparr>) = (fold count_report reps stats)\<lparr>est_samples := n\<rparr>"
  by (induction reps arbitrary: stats) (simp_all add: count_report_samples)

lemma emit_counts:
  "tx_room tx = None \<Longrightarrow>
    emit report (stats, tx) = (count_report report stats, tx\<lparr>tx_sent := tx_sent tx @ records report\<rparr>)"
  by (simp add: emit_open count_report_def)

lemma engine_task_open:
  assumes "tx_room tx = None"
  shows "\<exists>sleeps. engine_task_run cel rds e (stats, tx) =
    (\<exists>rd\<in>set rds. rd_wake rd = Closed, fst (run (engine_handle cel) (rounds_trace rds) e),
     ((fold count_report (snd (run (engine_handle cel) (rounds_trace rds) e)) stats)
        \<lparr>est_samples := est_samples stats + of_nat (length (rounds_samples rds))\<rparr>,
      tx\<lparr>tx_sent := tx_sent tx @ concat (map records (snd (run (engine_handle cel) (rounds_trace rds) e)))\<rparr>),
     sleeps)"
  using assms
proof (induction rds arbitrary: e stats tx)
  case Nil
  then show ?case by simp
next
  case (Cons rd rds)
  obtain e1 rep where t: "tick cel (rd_tick_ms rd) e = (e1, rep)" by (cases "tick cel (rd_tick_ms rd) e")
  let ?s1 = "count_report rep stats" and ?tx1 = "tx\<lparr>tx_sent := tx_sent tx @ records rep\<rparr>"
  have m: "emit rep (stats, tx) = (?s1, ?tx1)" using Cons.prems by (rule emit_counts)
  show ?case
  proof (cases "rd_wake rd")
    case (GotSample now smp)
    obtain e2 rep2 where o: "on_sample cel now smp e1 = (e2, rep2)" by (cases "on_sample cel now smp e1")
    let ?tx2 = "tx\<lparr>tx_sent := tx_sent tx @ records rep @ records rep2\<rparr>"
    have m2: "emit rep2 (?s1\<lparr>est_samples := est_samples stats + 1\<rparr>, ?tx1)
        = ((count_report rep2 ?s1)\<lparr>est_samples := est_samples stats + 1\<rparr>, ?tx2)"
      using Cons.prems by (simp add: emit_counts count_report_samples)
    show ?thesis
      using Cons.IH [of ?tx2 e2 "(count_report rep2 ?s1)\<lparr>est_samples := est_samples stats + 1\<rparr>"] Cons.prems
      by (auto simp: GotSample t m o m2 Let_def run.simps(2) split_beta add_sample_count count_report_samples add.assoc)
  next
    case Closed
    with Cons.prems show ?thesis
      by (simp add: t m Let_def) (simp add: count_report_def)
  next
    case SleptOut
    with Cons.IH [of ?tx1 e1 ?s1] Cons.prems show ?thesis by (auto simp: t m Let_def count_report_samples)
  next
    case ReportDue
    with Cons.IH [of ?tx1 e1 ?s1] Cons.prems show ?thesis by (auto simp: t m Let_def count_report_samples)
  qed
qed

text \<open>The trace has no swap, and its samples are those of the rounds.\<close>

lemma rounds_trace_no_swap: "list_all (\<lambda>ev. \<not> is_swap ev) (rounds_trace rds)"
  by (induction rds) (simp_all split: wake.split)

section \<open>Sleeping\<close>

lemma sleep_reaches_deadline:
  assumes "hm_wf (eng_state e)"
  shows "case next_deadline_ms e of
      None \<Rightarrow> sleep_for now e = IDLE_SLEEP_MS
    | Some due \<Rightarrow> unat now + unat (sleep_for now e) = max (unat now) (unat due)"
  by (auto simp: sleep_for_def unat_saturating_sub_u64 split: option.split)

end
