(* ===== verification/Output.thy ===== *)
theory Output
  imports Engine Runtime
begin

text \<open>
  The record output of the daemon (\<open>crates/telemetryd/src/output.rs\<close>): the size-rotated writer and the
  loop of the output thread. The directory is a map from file names to inodes and an inode holds its
  bytes, so an open handle survives a rename as it does on Unix. Every call into the operating
  system can fail: the disk carries the outcomes of the calls to come, and a failing write says how
  many bytes it took first. \<open>BufWriter\<close> is the standard library's, with its capacity of 8192 bytes.
  Serialisation (\<open>serde_json::to_vec\<close>) is a parameter. The lemmas are in \<open>Output_Props\<close>.
\<close>

section \<open>The file system\<close>

datatype fault = NoFault | FailsAfter nat

record disk =
  dsk_names :: "(string, nat) hmap"
  dsk_inodes :: "(nat, u8 list) hmap"
  dsk_next :: nat
  dsk_faults :: "fault list"

text \<open>The outcome of the next call; once the list is used up, all calls succeed.\<close>

definition next_fault :: "disk \<Rightarrow> fault \<times> disk" where
  "next_fault d =
     (case dsk_faults d of [] \<Rightarrow> (NoFault, d) | f # fs \<Rightarrow> (f, d\<lparr>dsk_faults := fs\<rparr>))"

definition inode_bytes :: "disk \<Rightarrow> nat \<Rightarrow> u8 list" where
  "inode_bytes d n = (case hm_get (dsk_inodes d) n of None \<Rightarrow> [] | Some bs \<Rightarrow> bs)"

definition set_inode :: "nat \<Rightarrow> u8 list \<Rightarrow> disk \<Rightarrow> disk" where
  "set_inode n bs d = d\<lparr>dsk_inodes := hm_insert n bs (dsk_inodes d)\<rparr>"

text \<open>Writing all bytes at the end of a file; on failure, also the bytes that were not taken.\<close>

definition os_write_all :: "nat \<Rightarrow> u8 list \<Rightarrow> disk \<Rightarrow> (io_error \<times> u8 list, unit) result \<times> disk" where
  "os_write_all n bs d =
     (case next_fault d of
        (NoFault, d') \<Rightarrow> (Ok (), set_inode n (inode_bytes d' n @ bs) d')
      | (FailsAfter k, d') \<Rightarrow>
          (Err (IoError, drop k bs), set_inode n (inode_bytes d' n @ take k bs) d'))"

definition os_call :: "disk \<Rightarrow> (io_error, unit) result \<times> disk" where
  "os_call d =
     (case next_fault d of (NoFault, d') \<Rightarrow> (Ok (), d') | (FailsAfter k, d') \<Rightarrow> (Err IoError, d'))"

definition os_remove :: "string \<Rightarrow> disk \<Rightarrow> (io_error, unit) result \<times> disk" where
  "os_remove name d =
     (case os_call d of
        (Err e, d') \<Rightarrow> (Err e, d')
      | (Ok _, d') \<Rightarrow> (Ok (), d'\<lparr>dsk_names := hm_remove name (dsk_names d')\<rparr>))"

definition os_rename :: "string \<Rightarrow> string \<Rightarrow> disk \<Rightarrow> (io_error, unit) result \<times> disk" where
  "os_rename src dst d =
     (case os_call d of
        (Err e, d') \<Rightarrow> (Err e, d')
      | (Ok _, d') \<Rightarrow>
          (case hm_get (dsk_names d') src of
             None \<Rightarrow> (Err IoError, d')
           | Some n \<Rightarrow> (Ok (), d'\<lparr>dsk_names := hm_insert dst n (hm_remove src (dsk_names d'))\<rparr>)))"

text \<open>\<open>Path::exists\<close>: a path whose metadata cannot be read counts as missing.\<close>

definition path_exists :: "string \<Rightarrow> disk \<Rightarrow> bool \<times> disk" where
  "path_exists name d =
     (case os_call d of (Err e, d') \<Rightarrow> (False, d') | (Ok _, d') \<Rightarrow> (hm_contains (dsk_names d') name, d'))"

text \<open>Opening with \<open>create(true)\<close>: a missing file gets a fresh empty inode.\<close>

definition open_create :: "string \<Rightarrow> disk \<Rightarrow> nat \<times> disk" where
  "open_create name d =
     (case hm_get (dsk_names d) name of
        Some n \<Rightarrow> (n, d)
      | None \<Rightarrow>
          (dsk_next d,
           d\<lparr>dsk_names := hm_insert name (dsk_next d) (dsk_names d),
             dsk_inodes := hm_insert (dsk_next d) [] (dsk_inodes d), dsk_next := dsk_next d + 1\<rparr>))"

definition os_open_append :: "string \<Rightarrow> disk \<Rightarrow> (io_error, nat) result \<times> disk" where
  "os_open_append name d =
     (case os_call d of
        (Err e, d') \<Rightarrow> (Err e, d')
      | (Ok _, d') \<Rightarrow> (case open_create name d' of (n, d'') \<Rightarrow> (Ok n, d'')))"

definition os_open_truncate :: "string \<Rightarrow> disk \<Rightarrow> (io_error, nat) result \<times> disk" where
  "os_open_truncate name d =
     (case os_call d of
        (Err e, d') \<Rightarrow> (Err e, d')
      | (Ok _, d') \<Rightarrow> (case open_create name d' of (n, d'') \<Rightarrow> (Ok n, set_inode n [] d'')))"

section \<open>The writer\<close>

definition FILE_NAME :: string where
  "FILE_NAME = ''telemetry.ndjson''"

record writer =
  wr_max_bytes :: nat
  wr_max_files :: nat
  wr_file :: nat
  wr_buffer :: "u8 list"
  wr_size :: nat

definition buf_capacity :: nat where
  "buf_capacity = 8192"

definition path_of :: "nat \<Rightarrow> string" where
  "path_of i = (if i = 0 then FILE_NAME else FILE_NAME @ ''.'' @ show_nat i)"

definition writer_open :: "nat \<Rightarrow> nat \<Rightarrow> disk \<Rightarrow> (io_error, writer) result \<times> disk" where
  "writer_open max_bytes max_files d =
     (case os_call d of
        (Err e, d1) \<Rightarrow> (Err e, d1)
      | (Ok _, d1) \<Rightarrow>
          (case os_open_append (path_of 0) d1 of
             (Err e, d2) \<Rightarrow> (Err e, d2)
           | (Ok n, d2) \<Rightarrow>
               (case os_call d2 of
                  (Err e, d3) \<Rightarrow> (Err e, d3)
                | (Ok _, d3) \<Rightarrow>
                    (Ok \<lparr>wr_max_bytes = max_bytes, wr_max_files = max max_files 1, wr_file = n,
                        wr_buffer = [], wr_size = length (inode_bytes d3 n)\<rparr>, d3))))"

text \<open>\<open>BufWriter::flush\<close> and \<open>BufWriter::write_all\<close>.\<close>

definition buf_flush :: "writer \<Rightarrow> disk \<Rightarrow> (io_error, unit) result \<times> writer \<times> disk" where
  "buf_flush w d =
     (if wr_buffer w = [] then (Ok (), w, d)
      else (case os_write_all (wr_file w) (wr_buffer w) d of
          (Ok _, d') \<Rightarrow> (Ok (), w\<lparr>wr_buffer := []\<rparr>, d')
        | (Err (e, rest), d') \<Rightarrow> (Err e, w\<lparr>wr_buffer := rest\<rparr>, d')))"

definition buf_write_all :: "u8 list \<Rightarrow> writer \<Rightarrow> disk \<Rightarrow> (io_error, unit) result \<times> writer \<times> disk" where
  "buf_write_all bs w d =
     (case (if length (wr_buffer w) + length bs > buf_capacity then buf_flush w d else (Ok (), w, d)) of
        (Err e, w1, d1) \<Rightarrow> (Err e, w1, d1)
      | (Ok _, w1, d1) \<Rightarrow>
          if length bs \<ge> buf_capacity
          then (case os_write_all (wr_file w1) bs d1 of
              (Ok _, d2) \<Rightarrow> (Ok (), w1, d2)
            | (Err (e, rest), d2) \<Rightarrow> (Err e, w1, d2))
          else (Ok (), w1\<lparr>wr_buffer := wr_buffer w1 @ bs\<rparr>, d1))"

text \<open>The loop over \<open>(1..max_files).rev()\<close>: the argument is the number of rounds left.\<close>

fun shift_files :: "nat \<Rightarrow> disk \<Rightarrow> (io_error, unit) result \<times> disk" where
  "shift_files 0 d = (Ok (), d)"
| "shift_files (Suc i) d =
     (case path_exists (path_of i) d of
        (False, d0) \<Rightarrow> shift_files i d0
      | (True, d0) \<Rightarrow>
          (case (case path_exists (path_of (Suc i)) d0 of
                   (True, d1) \<Rightarrow> os_remove (path_of (Suc i)) d1
                 | (False, d1) \<Rightarrow> (Ok (), d1)) of
             (Err e, d2) \<Rightarrow> (Err e, d2)
           | (Ok _, d2) \<Rightarrow>
               (case os_rename (path_of i) (path_of (Suc i)) d2 of
                  (Err e, d3) \<Rightarrow> (Err e, d3)
                | (Ok _, d3) \<Rightarrow> shift_files i d3)))"

definition rotate_files :: "writer \<Rightarrow> disk \<Rightarrow> (io_error, unit) result \<times> writer \<times> disk" where
  "rotate_files w d =
     (case buf_flush w d of
        (Err e, w1, d1) \<Rightarrow> (Err e, w1, d1)
      | (Ok _, w1, d1) \<Rightarrow>
          (case shift_files (wr_max_files w1 - 1) d1 of
             (Err e, d2) \<Rightarrow> (Err e, w1, d2)
           | (Ok _, d2) \<Rightarrow>
               (case os_open_truncate (path_of 0) d2 of
                  (Err e, d3) \<Rightarrow> (Err e, w1, d3)
                | (Ok n, d3) \<Rightarrow> (Ok (), w1\<lparr>wr_file := n, wr_buffer := [], wr_size := 0\<rparr>, d3))))"

definition write_line :: "u8 list \<Rightarrow> writer \<Rightarrow> disk \<Rightarrow> (io_error, unit) result \<times> writer \<times> disk" where
  "write_line line w d =
     (let len = length line + 1 in
      case (if wr_size w > 0 \<and> wr_size w + len > wr_max_bytes w then rotate_files w d else (Ok (), w, d)) of
        (Err e, w1, d1) \<Rightarrow> (Err e, w1, d1)
      | (Ok _, w1, d1) \<Rightarrow>
          (case buf_write_all line w1 d1 of
             (Err e, w2, d2) \<Rightarrow> (Err e, w2, d2)
           | (Ok _, w2, d2) \<Rightarrow>
               (case buf_write_all [10] w2 d2 of
                  (Err e, w3, d3) \<Rightarrow> (Err e, w3, d3)
                | (Ok _, w3, d3) \<Rightarrow> (Ok (), w3\<lparr>wr_size := wr_size w3 + len\<rparr>, d3))))"

definition writer_flush :: "writer \<Rightarrow> disk \<Rightarrow> (io_error, unit) result \<times> writer \<times> disk" where
  "writer_flush w d = buf_flush w d"

definition writer_sync :: "writer \<Rightarrow> disk \<Rightarrow> (io_error, unit) result \<times> writer \<times> disk" where
  "writer_sync w d =
     (case buf_flush w d of
        (Err e, w1, d1) \<Rightarrow> (Err e, w1, d1)
      | (Ok _, w1, d1) \<Rightarrow> (case os_call d1 of (r, d2) \<Rightarrow> (r, w1, d2)))"

text \<open>
  The writer dropped: its \<open>BufWriter\<close> writes what a failed flush has left in the buffer, and ignores the
  result.
\<close>

definition writer_drop :: "writer \<Rightarrow> disk \<Rightarrow> disk" where
  "writer_drop w d = (case buf_flush w d of (_, _, d') \<Rightarrow> d')"

lemma writer_drop_flushed [simp]: "wr_buffer w = [] \<Longrightarrow> writer_drop w d = d"
  by (simp add: writer_drop_def buf_flush_def)

section \<open>The output thread\<close>

record output_stats =
  records_written :: u64
  write_errors :: u64

definition output_stats_default :: output_stats where
  "output_stats_default = \<lparr>records_written = 0, write_errors = 0\<rparr>"

definition write_record ::
  "('r \<Rightarrow> (io_error, u8 list) result) \<Rightarrow> 'r \<Rightarrow> output_stats \<times> writer \<times> disk \<Rightarrow> output_stats \<times> writer \<times> disk" where
  "write_record to_vec r s =
     (case s of (stats, w, d) \<Rightarrow>
        (case (case to_vec r of Err e \<Rightarrow> (Err e, w, d) | Ok line \<Rightarrow> write_line line w d) of
           (Ok _, w', d') \<Rightarrow> (stats\<lparr>records_written := records_written stats + 1\<rparr>, w', d')
         | (Err e, w', d') \<Rightarrow> (stats\<lparr>write_errors := write_errors stats + 1\<rparr>, w', d')))"

text \<open>
  The loop of the thread. A batch is a record that was waited for and all those found queued behind
  it; every batch is flushed, and when the channel has closed the file is synced and the writer dropped.
\<close>

definition write_batch ::
  "('r \<Rightarrow> (io_error, u8 list) result) \<Rightarrow> 'r list \<Rightarrow> output_stats \<times> writer \<times> disk \<Rightarrow> output_stats \<times> writer \<times> disk" where
  "write_batch to_vec rs s =
     (case fold (write_record to_vec) rs s of (stats, w, d) \<Rightarrow>
        (case writer_flush w d of (_, w', d') \<Rightarrow> (stats, w', d')))"

definition output_run ::
  "('r \<Rightarrow> (io_error, u8 list) result) \<Rightarrow> 'r list list \<Rightarrow> writer \<Rightarrow> disk \<Rightarrow> output_stats \<times> writer \<times> disk" where
  "output_run to_vec batches w d =
     (case fold (write_batch to_vec) batches (output_stats_default, w, d) of (stats, w1, d1) \<Rightarrow>
        (case writer_sync w1 d1 of (_, w2, d2) \<Rightarrow> (stats, w2, writer_drop w2 d2)))"

end
