(* ===== verification/Output_Props.thy ===== *)
theory Output_Props
  imports Output "HOL-Library.Sublist"
begin

text \<open>
  The rotating writer against a specification of the files it keeps: the contents of the files by
  index, to which a line is added after a rotation when it would not fit. While no call fails, the
  writer refines the specification; the specification keeps a suffix of what was written, in files
  of whole lines within the size limit.
\<close>

section \<open>File names\<close>

definition read_nat :: "string \<Rightarrow> nat" where
  "read_nat s = foldl (\<lambda>acc c. acc * 10 + (of_char c - 48)) 0 s"

lemma of_char_digit: "d < 10 \<Longrightarrow> of_char (digit_char d) = 48 + d"
  by (simp add: digit_char_def)

lemma read_show_nat: "read_nat (show_nat n) = n"
proof (induction n rule: show_nat.induct)
  case (1 n)
  show ?case
  proof (cases "n < 10")
    case True
    then show ?thesis by (simp add: show_nat.simps [of n] read_nat_def of_char_digit)
  next
    case False
    then have "read_nat (show_nat n) = read_nat (show_nat (n div 10)) * 10 + n mod 10"
      by (simp add: show_nat.simps [of n] read_nat_def of_char_digit)
    with 1 [OF False] show ?thesis by simp
  qed
qed

lemma path_of_inj [simp]: "path_of i = path_of j \<longleftrightarrow> i = j"
proof -
  have "show_nat i = show_nat j \<Longrightarrow> i = j" by (metis read_show_nat)
  then show ?thesis by (auto simp: path_of_def)
qed

section \<open>Moving the files up\<close>

definition file_at :: "disk \<Rightarrow> nat \<Rightarrow> nat option" where
  "file_at d i = hm_get (dsk_names d) (path_of i)"

text \<open>
  After the rounds for the indices \<open>k\<close> to 1: every file is one index up, the slot 0 is free, and a
  file at \<open>k\<close> gives way only to one that moves there.
\<close>

definition shifted :: "nat \<Rightarrow> (nat \<Rightarrow> 'a option) \<Rightarrow> nat \<Rightarrow> 'a option" where
  "shifted k A i =
     (if k = 0 \<or> k < i then A i
      else if i = 0 then None
      else if i < k then A (i - 1)
      else (case A (i - 1) of None \<Rightarrow> A i | Some b \<Rightarrow> Some b))"

lemma os_call_fine: "dsk_faults d = [] \<Longrightarrow> os_call d = (Ok (), d)"
  by (simp add: os_call_def next_fault_def)

text \<open>The next \<open>m\<close> calls succeed, and \<open>fs\<close> are the outcomes of those behind them.\<close>

definition spares :: "nat \<Rightarrow> fault list \<Rightarrow> disk \<Rightarrow> bool" where
  "spares m fs d \<longleftrightarrow> dsk_faults d = replicate m NoFault @ fs \<or> dsk_faults d = [] \<and> fs = []"

lemma spares_none: "dsk_faults d = [] \<Longrightarrow> spares m [] d" and spares_0: "spares 0 fs d \<Longrightarrow> dsk_faults d = fs"
  by (auto simp: spares_def)

lemma spares_call:
  assumes "spares (Suc m) fs d"
  obtains gs where "os_call d = (Ok (), d\<lparr>dsk_faults := gs\<rparr>)" and "spares m fs (d\<lparr>dsk_faults := gs\<rparr>)"
proof (cases "dsk_faults d = []")
  case True
  then have "d\<lparr>dsk_faults := []\<rparr> = d" by (cases d) simp
  with True assms that [of "[]"] show ?thesis by (auto simp: spares_def os_call_fine)
next
  case False
  with assms that [of "replicate m NoFault @ fs"] show ?thesis
    by (auto simp: spares_def os_call_def next_fault_def)
qed

text \<open>How many calls it takes to move the files up.\<close>

definition move_up :: "nat \<Rightarrow> (nat \<Rightarrow> 'a option) \<Rightarrow> nat \<Rightarrow> 'a option" where
  "move_up i A = A(i := None, Suc i := (case A i of None \<Rightarrow> A (Suc i) | Some b \<Rightarrow> Some b))"

fun shift_calls :: "nat \<Rightarrow> (nat \<Rightarrow> 'a option) \<Rightarrow> nat" where
  "shift_calls 0 A = 0"
| "shift_calls (Suc i) A =
     (if A i = None then 1 else if A (Suc i) = None then 3 else 4) + shift_calls i (move_up i A)"

lemma os_write_fine:
  "dsk_faults d = [] \<Longrightarrow> os_write_all n bs d = (Ok (), set_inode n (inode_bytes d n @ bs) d)"
  by (simp add: os_write_all_def next_fault_def)

lemma inode_bytes_set [simp]: "inode_bytes (set_inode n bs d) m = (if m = n then bs else inode_bytes d m)"
  by (simp add: inode_bytes_def set_inode_def)

lemma set_inode_sel [simp]:
  "dsk_names (set_inode n bs d) = dsk_names d" "dsk_next (set_inode n bs d) = dsk_next d"
  "dsk_faults (set_inode n bs d) = dsk_faults d"
  by (simp_all add: set_inode_def)

text \<open>The names point to different inodes, all of them allocated.\<close>

definition names_ok :: "disk \<Rightarrow> bool" where
  "names_ok d \<longleftrightarrow>
     hm_wf (dsk_names d)
     \<and> (\<forall>a b n. hm_get (dsk_names d) a = Some n \<longrightarrow> hm_get (dsk_names d) b = Some n \<longrightarrow> a = b)
     \<and> (\<forall>a n. hm_get (dsk_names d) a = Some n \<longrightarrow> n < dsk_next d)"

text \<open>One round of the loop.\<close>

lemma spares_exists:
  assumes "spares (Suc m) fs d"
  obtains gs where "path_exists name d = (hm_contains (dsk_names d) name, d\<lparr>dsk_faults := gs\<rparr>)"
    and "spares m fs (d\<lparr>dsk_faults := gs\<rparr>)"
proof -
  obtain gs where "os_call d = (Ok (), d\<lparr>dsk_faults := gs\<rparr>)" and "spares m fs (d\<lparr>dsk_faults := gs\<rparr>)"
    using spares_call [OF assms] .
  then show thesis by (intro that [of gs]) (simp_all add: path_exists_def)
qed

lemma shift_round:
  assumes "spares (c + m) fs d" and "c = (if file_at d i = None then 1 else if file_at d (Suc i) = None then 3 else 4)"
    and "names_ok d"
  obtains d1 where "shift_files (Suc i) d = shift_files i d1" and "spares m fs d1" and "names_ok d1"
    and "file_at d1 = move_up i (file_at d)" and "dsk_inodes d1 = dsk_inodes d" and "dsk_next d1 = dsk_next d"
proof (cases "file_at d i")
  case None
  with assms(1,2) have "spares (Suc m) fs d" by simp
  from spares_exists [OF this] obtain gs where
    "path_exists (path_of i) d = (hm_contains (dsk_names d) (path_of i), d\<lparr>dsk_faults := gs\<rparr>)"
    and "spares m fs (d\<lparr>dsk_faults := gs\<rparr>)" .
  with None assms(3) show ?thesis
    by (intro that [of "d\<lparr>dsk_faults := gs\<rparr>"])
      (auto simp: file_at_def hm_contains_def fun_eq_iff move_up_def names_ok_def)
next
  case (Some n)
  define c1 where "c1 = (if file_at d (Suc i) = None then 0 else 1 :: nat)"
  have "spares (Suc (Suc (c1 + Suc m))) fs d" using assms(1,2) Some by (cases "file_at d (Suc i)") (simp_all add: c1_def eval_nat_numeral)
  from spares_exists [OF this] obtain gs where
    ex: "path_exists (path_of i) d = (hm_contains (dsk_names d) (path_of i), d\<lparr>dsk_faults := gs\<rparr>)"
    and sp: "spares (Suc (c1 + Suc m)) fs (d\<lparr>dsk_faults := gs\<rparr>)" .
  from spares_exists [OF sp] obtain hs where
    ex2: "path_exists (path_of (Suc i)) (d\<lparr>dsk_faults := gs\<rparr>)
      = (hm_contains (dsk_names d) (path_of (Suc i)), d\<lparr>dsk_faults := hs\<rparr>)"
    and sp2: "spares (c1 + Suc m) fs (d\<lparr>dsk_faults := hs\<rparr>)" by auto
  define names where "names = (if file_at d (Suc i) = None then dsk_names d
    else hm_remove (path_of (Suc i)) (dsk_names d))"
  obtain ks where rem: "(case path_exists (path_of (Suc i)) (d\<lparr>dsk_faults := gs\<rparr>) of
        (True, d1) \<Rightarrow> os_remove (path_of (Suc i)) d1 | (False, d1) \<Rightarrow> (Ok (), d1))
      = (Ok (), d\<lparr>dsk_faults := ks, dsk_names := names\<rparr>)"
    and sp3: "spares (Suc m) fs (d\<lparr>dsk_faults := ks, dsk_names := names\<rparr>)"
  proof (cases "file_at d (Suc i)")
    case None
    then have "d\<lparr>dsk_faults := hs, dsk_names := names\<rparr> = d\<lparr>dsk_faults := hs\<rparr>" by (simp add: names_def)
    with None sp2 show ?thesis
      by (intro that [of hs]) (simp_all add: ex2 hm_contains_def file_at_def c1_def)
  next
    case (Some b)
    with sp2 have "spares (Suc (Suc m)) fs (d\<lparr>dsk_faults := hs\<rparr>)" by (simp add: c1_def)
    from spares_call [OF this] obtain ks where "os_call (d\<lparr>dsk_faults := hs\<rparr>) = (Ok (), d\<lparr>dsk_faults := ks\<rparr>)"
      and "spares (Suc m) fs (d\<lparr>dsk_faults := ks\<rparr>)" by auto
    with Some show ?thesis
      by (intro that [of ks]) (simp_all add: ex2 hm_contains_def file_at_def names_def os_remove_def spares_def)
  qed
  from spares_call [OF sp3] obtain ls where
    call: "os_call (d\<lparr>dsk_faults := ks, dsk_names := names\<rparr>)
      = (Ok (), d\<lparr>dsk_faults := ks, dsk_names := names\<rparr>\<lparr>dsk_faults := ls\<rparr>)"
    and sp4: "spares m fs (d\<lparr>dsk_faults := ks, dsk_names := names\<rparr>\<lparr>dsk_faults := ls\<rparr>)" .
  define d1 where "d1 = d\<lparr>dsk_faults := ls, dsk_names := hm_insert (path_of (Suc i)) n (hm_remove (path_of i) names)\<rparr>"
  have get: "hm_get (hm_insert (path_of (Suc i)) n (hm_remove (path_of i) names)) k =
      (if k = path_of (Suc i) then Some n else if k = path_of i then None else hm_get (dsk_names d) k)" for k
    by (auto simp: names_def)
  have rest: "k \<noteq> path_of (Suc i) \<Longrightarrow> hm_get names k = hm_get (dsk_names d) k" for k
    by (simp add: names_def)
  have ni: "hm_get (dsk_names d) (path_of i) = Some n"
    using Some by (simp add: file_at_def)
  then have nin: "hm_get names (path_of i) = Some n"
    by (simp add: names_def)
  show ?thesis
  proof (rule that [of d1])
    have "os_rename (path_of i) (path_of (Suc i)) (d\<lparr>dsk_faults := ks, dsk_names := names\<rparr>) = (Ok (), d1)"
      by (simp add: os_rename_def call nin d1_def)
    then show "shift_files (Suc i) d = shift_files i d1"
      using ni by (simp add: ex hm_contains_def rem)
    show "spares m fs d1" using sp4 by (simp add: d1_def spares_def)
    show "names_ok d1"
      using assms(3) ni unfolding names_ok_def d1_def
      by (auto simp: get names_def split: if_splits)
    show "file_at d1 = move_up i (file_at d)"
      using Some by (auto simp: file_at_def d1_def rest fun_eq_iff move_up_def)
  qed (simp_all add: d1_def)
qed

lemma shifted_move_up: "shifted k (move_up k A) = shifted (Suc k) A"
proof
  fix i
  show "shifted k (move_up k A) i = shifted (Suc k) A i"
    by (cases "i = Suc k"; cases "i = k"; cases "k = 0") (auto simp: shifted_def move_up_def split: option.splits)
qed

lemma shift_files_spared:
  assumes "spares (shift_calls k (file_at d) + m) fs d" and "names_ok d"
  shows "\<exists>d'. shift_files k d = (Ok (), d') \<and> spares m fs d' \<and> names_ok d'
    \<and> file_at d' = shifted k (file_at d) \<and> dsk_inodes d' = dsk_inodes d \<and> dsk_next d' = dsk_next d"
  using assms
proof (induction k arbitrary: d)
  case 0
  then show ?case by (simp add: shifted_def fun_eq_iff)
next
  case (Suc k)
  from Suc.prems(1) have sp: "spares ((if file_at d k = None then 1 else if file_at d (Suc k) = None then 3 else 4)
      + (shift_calls k (move_up k (file_at d)) + m)) fs d"
    by (simp add: add.assoc)
  obtain d1 where d1: "shift_files (Suc k) d = shift_files k d1"
    "spares (shift_calls k (move_up k (file_at d)) + m) fs d1" "names_ok d1"
    "file_at d1 = move_up k (file_at d)" "dsk_inodes d1 = dsk_inodes d" "dsk_next d1 = dsk_next d"
    by (rule shift_round [OF sp refl Suc.prems(2)])
  from Suc.IH [of d1] d1(2,3) show ?case
    unfolding d1(1) by (simp add: d1(4-6) shifted_move_up)
qed

lemma shift_files_fine:
  assumes "dsk_faults d = []" and "names_ok d"
  shows "\<exists>d'. shift_files k d = (Ok (), d') \<and> dsk_faults d' = [] \<and> names_ok d'
    \<and> file_at d' = shifted k (file_at d) \<and> dsk_inodes d' = dsk_inodes d \<and> dsk_next d' = dsk_next d"
  using shift_files_spared [OF spares_none [OF assms(1)] assms(2), of k 0] spares_0 by blast

section \<open>The specification\<close>

type_synonym log_files = "nat \<Rightarrow> u8 list option"

definition log_rotate :: "nat \<Rightarrow> log_files \<Rightarrow> log_files" where
  "log_rotate n A = (shifted (n - 1) A)(0 := Some [])"

definition log_add :: "nat \<Rightarrow> nat \<Rightarrow> u8 list \<Rightarrow> log_files \<Rightarrow> log_files" where
  "log_add max_bytes n line A =
     (let cur = the (A 0);
          A' = (if cur \<noteq> [] \<and> length cur + (length line + 1) > max_bytes then log_rotate n A else A)
      in A'(0 := Some (the (A' 0) @ line @ [10])))"

section \<open>The writer refines it\<close>

definition holds_files :: "writer \<Rightarrow> disk \<Rightarrow> log_files \<Rightarrow> bool" where
  "holds_files w d A \<longleftrightarrow>
     dsk_faults d = [] \<and> names_ok d \<and> file_at d 0 = Some (wr_file w)
     \<and> A 0 = Some (inode_bytes d (wr_file w) @ wr_buffer w)
     \<and> (\<forall>i>0. A i = map_option (inode_bytes d) (file_at d i))"

lemma names_ok_file_at:
  "names_ok d \<Longrightarrow> file_at d i = Some n \<Longrightarrow> file_at d j = Some n \<Longrightarrow> i = j"
  unfolding names_ok_def file_at_def by (metis path_of_inj)

lemma other_files:
  assumes "names_ok d" and "file_at d 0 = Some n" and "0 < i"
  shows "map_option (inode_bytes (set_inode n bs d)) (file_at d i) = map_option (inode_bytes d) (file_at d i)"
  using names_ok_file_at [OF assms(1,2)] assms(3) by (cases "file_at d i") auto

lemma names_ok_set_inode [simp]: "names_ok (set_inode n bs d) = names_ok d"
  by (simp add: names_ok_def)

lemma file_at_set_inode [simp]: "file_at (set_inode n bs d) = file_at d"
  by (simp add: file_at_def fun_eq_iff)

lemma holds_files_append:
  assumes "holds_files w d A"
  shows "holds_files (w\<lparr>wr_buffer := buf\<rparr>) (set_inode (wr_file w) bs d)
      (A(0 := Some (bs @ buf)))"
  using assms other_files [of d "wr_file w"] by (auto simp: holds_files_def)

lemma buf_flush_fine:
  assumes "holds_files w d A"
  shows "\<exists>d'. buf_flush w d = (Ok (), w\<lparr>wr_buffer := []\<rparr>, d') \<and> holds_files (w\<lparr>wr_buffer := []\<rparr>) d' A"
proof (cases "wr_buffer w = []")
  case True
  then have same: "w\<lparr>wr_buffer := []\<rparr> = w" by (cases w) simp
  show ?thesis
    unfolding same using True assms by (simp add: buf_flush_def)
next
  case False
  have "A(0 := Some (inode_bytes d (wr_file w) @ wr_buffer w)) = A"
    using assms by (auto simp: holds_files_def)
  with holds_files_append [OF assms, of "[]" "inode_bytes d (wr_file w) @ wr_buffer w"] False assms
  show ?thesis by (simp add: buf_flush_def os_write_fine holds_files_def)
qed

lemma buf_write_all_fine:
  assumes "holds_files w d A"
  shows "\<exists>w' d'. buf_write_all bs w d = (Ok (), w', d') \<and> holds_files w' d' (A(0 := Some (the (A 0) @ bs)))
    \<and> wr_size w' = wr_size w \<and> wr_max_bytes w' = wr_max_bytes w \<and> wr_max_files w' = wr_max_files w"
proof -
  have room: "\<exists>w1 d1. (if length (wr_buffer w) + length bs > buf_capacity then buf_flush w d else (Ok (), w, d))
      = (Ok (), w1, d1) \<and> holds_files w1 d1 A \<and> (length bs \<ge> buf_capacity \<longrightarrow> wr_buffer w1 = [])
      \<and> wr_size w1 = wr_size w \<and> wr_max_bytes w1 = wr_max_bytes w \<and> wr_max_files w1 = wr_max_files w"
  proof (cases "length (wr_buffer w) + length bs > buf_capacity")
    case True
    with buf_flush_fine [OF assms] show ?thesis by auto
  next
    case False
    then have "length bs \<ge> buf_capacity \<Longrightarrow> wr_buffer w = []"
      by (cases "wr_buffer w") auto
    with False assms show ?thesis by auto
  qed
  then obtain w1 d1 where start: "(if length (wr_buffer w) + length bs > buf_capacity then buf_flush w d else (Ok (), w, d))
      = (Ok (), w1, d1)" and rel: "holds_files w1 d1 A" and empty: "length bs \<ge> buf_capacity \<longrightarrow> wr_buffer w1 = []"
      and keep: "wr_size w1 = wr_size w" "wr_max_bytes w1 = wr_max_bytes w" "wr_max_files w1 = wr_max_files w"
    by blast
  have A0: "the (A 0) = inode_bytes d1 (wr_file w1) @ wr_buffer w1"
    using rel by (simp add: holds_files_def)
  show ?thesis
  proof (cases "length bs \<ge> buf_capacity")
    case True
    then have "w1\<lparr>wr_buffer := []\<rparr> = w1" using empty by (cases w1) simp
    with holds_files_append [OF rel, of "[]" "inode_bytes d1 (wr_file w1) @ bs"] True rel keep start A0 empty
    show ?thesis by (simp add: buf_write_all_def os_write_fine holds_files_def)
  next
    case False
    have "holds_files (w1\<lparr>wr_buffer := wr_buffer w1 @ bs\<rparr>) d1 (A(0 := Some (the (A 0) @ bs)))"
      using rel by (auto simp: holds_files_def)
    with False keep start show ?thesis by (simp add: buf_write_all_def)
  qed
qed

lemma shifted_map: "shifted k (\<lambda>i. map_option f (A i)) i = map_option f (shifted k A i)"
  by (simp add: shifted_def split: option.splits)

lemma open_truncate_fine:
  assumes "dsk_faults d = []" and "names_ok d"
  shows "\<exists>n d'. os_open_truncate (path_of 0) d = (Ok n, d') \<and> dsk_faults d' = [] \<and> names_ok d'
    \<and> file_at d' = (file_at d)(0 := Some n) \<and> inode_bytes d' n = []
    \<and> (\<forall>i>0. map_option (inode_bytes d') (file_at d i) = map_option (inode_bytes d) (file_at d i))"
proof (cases "file_at d 0")
  case (Some n)
  then have "file_at d = (file_at d)(0 := Some n)" by auto
  with Some assms other_files [OF assms(2) Some, of _ "[]"] show ?thesis
    by (simp add: os_open_truncate_def os_call_fine open_create_def file_at_def)
next
  case None
  let ?n = "dsk_next d"
  let ?d = "d\<lparr>dsk_names := hm_insert (path_of 0) ?n (dsk_names d),
             dsk_inodes := hm_insert ?n [] (dsk_inodes d), dsk_next := ?n + 1\<rparr>"
  have "os_open_truncate (path_of 0) d = (Ok ?n, set_inode ?n [] ?d)"
    using None assms(1) by (simp add: os_open_truncate_def os_call_fine open_create_def file_at_def)
  moreover have "names_ok ?d"
    using assms(2) unfolding names_ok_def by (auto split: if_splits dest: less_imp_neq simp: less_Suc_eq)
  moreover have "file_at (set_inode ?n [] ?d) = (file_at d)(0 := Some ?n)"
    by (auto simp: file_at_def fun_eq_iff)
  moreover have "map_option (inode_bytes (set_inode ?n [] ?d)) (file_at d i) = map_option (inode_bytes d) (file_at d i)" for i
    using assms(2) unfolding names_ok_def file_at_def
    by (cases "hm_get (dsk_names d) (path_of i)") (auto simp: inode_bytes_def set_inode_def dest: less_imp_neq)
  ultimately show ?thesis
    using assms(1) by (intro exI [of _ ?n] exI [of _ "set_inode ?n [] ?d"]) simp
qed

lemma rotate_files_fine:
  assumes "holds_files w d A"
  shows "\<exists>w' d'. rotate_files w d = (Ok (), w', d') \<and> holds_files w' d' (log_rotate (wr_max_files w) A)
    \<and> wr_size w' = 0 \<and> wr_max_bytes w' = wr_max_bytes w \<and> wr_max_files w' = wr_max_files w"
proof -
  let ?w1 = "w\<lparr>wr_buffer := []\<rparr>" and ?k = "wr_max_files w - 1"
  obtain d1 where flush: "buf_flush w d = (Ok (), ?w1, d1)" and r1: "holds_files ?w1 d1 A"
    using buf_flush_fine [OF assms] by blast
  then have A: "A i = map_option (inode_bytes d1) (file_at d1 i)" for i
    by (cases "i = 0") (simp_all add: holds_files_def)
  obtain d2 where shift: "shift_files ?k d1 = (Ok (), d2)" "dsk_faults d2 = []" "names_ok d2"
    "file_at d2 = shifted ?k (file_at d1)" "dsk_inodes d2 = dsk_inodes d1"
    using shift_files_fine [of d1 ?k] r1 by (auto simp: holds_files_def)
  obtain n d3 where opened: "os_open_truncate (path_of 0) d2 = (Ok n, d3)" "dsk_faults d3 = []" "names_ok d3"
    "file_at d3 = (file_at d2)(0 := Some n)" "inode_bytes d3 n = []"
    "\<forall>i>0. map_option (inode_bytes d3) (file_at d2 i) = map_option (inode_bytes d2) (file_at d2 i)"
    using open_truncate_fine [OF shift(2,3)] by blast
  have "inode_bytes d2 = inode_bytes d1"
    using shift(5) by (simp add: inode_bytes_def fun_eq_iff)
  then have "shifted ?k A i = map_option (inode_bytes d3) (file_at d3 i)" if "0 < i" for i
    using that opened(4,6) shifted_map [of ?k "inode_bytes d1" "file_at d1" i]
    by (simp add: A [abs_def] shift(4))
  with opened have "holds_files (w\<lparr>wr_file := n, wr_buffer := [], wr_size := 0\<rparr>) d3 (log_rotate (wr_max_files w) A)"
    by (simp add: holds_files_def log_rotate_def)
  with flush shift(1) opened(1) show ?thesis by (simp add: rotate_files_def)
qed

text \<open>The writer's own size of the current file, and its limits.\<close>

definition writes_files :: "nat \<Rightarrow> nat \<Rightarrow> writer \<times> disk \<Rightarrow> log_files \<Rightarrow> bool" where
  "writes_files max_bytes n s A \<longleftrightarrow>
     holds_files (fst s) (snd s) A \<and> wr_size (fst s) = length (the (A 0))
     \<and> wr_max_bytes (fst s) = max_bytes \<and> wr_max_files (fst s) = n"

lemma write_line_fine:
  assumes "writes_files max_bytes n (w, d) A"
  shows "\<exists>w' d'. write_line line w d = (Ok (), w', d') \<and> writes_files max_bytes n (w', d') (log_add max_bytes n line A)"
proof -
  have rel: "holds_files w d A" and size: "wr_size w = length (the (A 0))"
    and lim: "wr_max_bytes w = max_bytes" "wr_max_files w = n"
    using assms by (simp_all add: writes_files_def)
  let ?full = "the (A 0) \<noteq> [] \<and> length (the (A 0)) + (length line + 1) > max_bytes"
  let ?A = "if ?full then log_rotate n A else A"
  have cond: "wr_size w > 0 \<and> wr_size w + (length line + 1) > wr_max_bytes w \<longleftrightarrow> ?full"
    by (simp add: size lim)
  have "\<exists>w1 d1. (if wr_size w > 0 \<and> wr_size w + (length line + 1) > wr_max_bytes w then rotate_files w d else (Ok (), w, d))
      = (Ok (), w1, d1) \<and> writes_files max_bytes n (w1, d1) ?A"
  proof (cases ?full)
    case True
    with rotate_files_fine [OF rel] lim show ?thesis
      unfolding cond by (auto simp: writes_files_def log_rotate_def)
  next
    case False
    with assms show ?thesis unfolding cond by auto
  qed
  then obtain w1 d1 where s1: "(if wr_size w > 0 \<and> wr_size w + (length line + 1) > wr_max_bytes w
      then rotate_files w d else (Ok (), w, d)) = (Ok (), w1, d1)" and r1: "writes_files max_bytes n (w1, d1) ?A"
    by blast
  obtain w2 d2 where s2: "buf_write_all line w1 d1 = (Ok (), w2, d2)"
    and r2: "holds_files w2 d2 (?A(0 := Some (the (?A 0) @ line)))"
    and k2: "wr_size w2 = wr_size w1" "wr_max_bytes w2 = wr_max_bytes w1" "wr_max_files w2 = wr_max_files w1"
    using buf_write_all_fine [of w1 d1 ?A line] r1 by (auto simp: writes_files_def)
  obtain w3 d3 where s3: "buf_write_all [10] w2 d2 = (Ok (), w3, d3)"
    and r3: "holds_files w3 d3 (?A(0 := Some (the (?A 0) @ line @ [10])))"
    and k3: "wr_size w3 = wr_size w2" "wr_max_bytes w3 = wr_max_bytes w2" "wr_max_files w3 = wr_max_files w2"
    using buf_write_all_fine [OF r2, of "[10]"] by auto
  have "write_line line w d = (Ok (), w3\<lparr>wr_size := wr_size w3 + (length line + 1)\<rparr>, d3)"
    unfolding write_line_def Let_def s1 by (simp add: s2 s3)
  moreover have "log_add max_bytes n line A = ?A(0 := Some (the (?A 0) @ line @ [10]))"
    by (simp add: log_add_def Let_def)
  moreover have "holds_files (w3\<lparr>wr_size := wr_size w3 + (length line + 1)\<rparr>) d3
      (?A(0 := Some (the (?A 0) @ line @ [10])))"
    using r3 unfolding holds_files_def by simp
  moreover have "wr_size w3 + (length line + 1) = length (the (?A 0) @ line @ [10])"
    "wr_max_bytes w3 = max_bytes" "wr_max_files w3 = n"
    using r1 k2 k3 unfolding writes_files_def by simp_all
  ultimately show ?thesis
    unfolding writes_files_def by simp
qed

section \<open>What the specification keeps\<close>

definition unlines :: "u8 list list \<Rightarrow> u8 list" where
  "unlines ls = concat (map (\<lambda>l. l @ [10]) ls)"

lemma unlines_simps [simp]:
  "unlines [] = []" "unlines (l # ls) = l @ [10] @ unlines ls" "unlines (ls @ ms) = unlines ls @ unlines ms"
  by (simp_all add: unlines_def)

definition bytes_of :: "u8 list option \<Rightarrow> u8 list" where
  "bytes_of f = (case f of None \<Rightarrow> [] | Some bs \<Rightarrow> bs)"

lemma bytes_of_simps [simp]: "bytes_of None = []" "bytes_of (Some bs) = bs"
  by (simp_all add: bytes_of_def)

text \<open>The log as a reader sees it: the files from the oldest to the current one.\<close>

fun log_text :: "nat \<Rightarrow> log_files \<Rightarrow> u8 list" where
  "log_text 0 A = []"
| "log_text (Suc n) A = bytes_of (A n) @ log_text n A"

lemma log_text_cong: "(\<And>i. i < n \<Longrightarrow> A i = B i) \<Longrightarrow> log_text n A = log_text n B"
  by (induction n) simp_all

lemma log_text_append:
  "0 < n \<Longrightarrow> A 0 = Some cur \<Longrightarrow> log_text n (A(0 := Some (cur @ x))) = log_text n A @ x"
proof (induction n)
  case 0
  then show ?case by simp
next
  case (Suc n)
  then show ?case by (cases n) simp_all
qed

lemma log_text_up: "0 < m \<Longrightarrow> B 0 = Some [] \<Longrightarrow> (\<And>i. 0 < i \<Longrightarrow> i < m \<Longrightarrow> B i = A (i - 1)) \<Longrightarrow>
    log_text m B = log_text (m - 1) A"
proof (induction m)
  case 0
  then show ?case by simp
next
  case (Suc m)
  show ?case
  proof (cases "m = 0")
    case True
    with Suc.prems show ?thesis by simp
  next
    case False
    with Suc have "log_text m B = log_text (m - 1) A" "B m = A (m - 1)" by simp_all
    moreover have "m = Suc (m - 1)" using False by simp
    ultimately show ?thesis by (metis diff_Suc_1 log_text.simps(2))
  qed
qed

text \<open>A file of whole lines that is within the limit, or a single line.\<close>

definition whole_lines :: "nat \<Rightarrow> u8 list \<Rightarrow> bool" where
  "whole_lines max_bytes b \<longleftrightarrow> (\<exists>ls. b = unlines ls \<and> (length b \<le> max_bytes \<or> length ls \<le> 1))"

definition log_ok :: "nat \<Rightarrow> nat \<Rightarrow> log_files \<Rightarrow> bool" where
  "log_ok max_bytes n A \<longleftrightarrow>
     A 0 \<noteq> None \<and> (\<forall>i b. A i = Some b \<longrightarrow> i < n \<and> whole_lines max_bytes b)"

lemma whole_line: "whole_lines max_bytes (line @ [10])"
  unfolding whole_lines_def by (intro exI [of _ "[line]"]) simp

lemma whole_lines_snoc:
  assumes "whole_lines max_bytes cur" and "length cur + (length line + 1) \<le> max_bytes"
  shows "whole_lines max_bytes (cur @ line @ [10])"
proof -
  obtain ls where "cur = unlines ls" using assms(1) by (auto simp: whole_lines_def)
  with assms(2) show ?thesis
    unfolding whole_lines_def by (intro exI [of _ "ls @ [line]"]) simp
qed

lemma log_rotate_ok: "log_ok max_bytes n A \<Longrightarrow> log_ok max_bytes n (log_rotate n A)"
  unfolding log_ok_def log_rotate_def shifted_def whole_lines_def
  by (auto split: if_splits option.splits intro: exI [of _ "[]"])

lemma log_add_ok:
  assumes "log_ok max_bytes n A"
  shows "log_ok max_bytes n (log_add max_bytes n line A)"
proof -
  obtain cur where cur: "A 0 = Some cur" using assms by (auto simp: log_ok_def)
  show ?thesis
  proof (cases "cur \<noteq> [] \<and> length cur + (length line + 1) > max_bytes")
    case True
    with log_rotate_ok [OF assms] whole_line [of max_bytes line] show ?thesis
      by (auto simp: log_ok_def log_add_def cur Let_def) (simp add: log_rotate_def)
  next
    case False
    then have "whole_lines max_bytes (cur @ line @ [10])"
      using assms cur whole_line [of max_bytes line] whole_lines_snoc [of max_bytes cur line]
      by (cases "cur = []") (auto simp: log_ok_def)
    with False assms cur show ?thesis
      by (auto simp: log_ok_def log_add_def Let_def)
  qed
qed

text \<open>What is left of a text when some of its first lines are dropped.\<close>

definition line_suffix :: "u8 list \<Rightarrow> u8 list \<Rightarrow> bool" where
  "line_suffix t u \<longleftrightarrow> (\<exists>ls. u = unlines ls @ t)"

lemma line_suffix_refl [simp]: "line_suffix t t"
  unfolding line_suffix_def by (rule exI [of _ "[]"]) simp

lemma line_suffix_trans: "line_suffix t u \<Longrightarrow> line_suffix u v \<Longrightarrow> line_suffix t v"
  unfolding line_suffix_def by (metis append_assoc unlines_simps(3))

lemma line_suffix_append: "line_suffix t u \<Longrightarrow> line_suffix (t @ x) (u @ x)"
  by (auto simp: line_suffix_def)

lemma line_suffix_suffix: "line_suffix t u \<Longrightarrow> suffix t u"
  by (auto simp: line_suffix_def suffix_def)

lemma drop_file: "log_ok max_bytes n A \<Longrightarrow> line_suffix t (bytes_of (A i) @ t)"
  unfolding line_suffix_def log_ok_def whole_lines_def
  by (cases "A i") (auto intro: exI [of _ "[]"])

lemma log_text_rotate:
  assumes "log_ok max_bytes n A"
  shows "line_suffix (log_text n (log_rotate n A)) (log_text n A)"
proof (cases n)
  case 0
  then show ?thesis by simp
next
  case (Suc m)
  show ?thesis
  proof (cases m)
    case 0
    then show ?thesis using drop_file [OF assms, of "[]" 0] by (simp add: Suc log_rotate_def)
  next
    case (Suc k)
    have "log_text m (log_rotate n A) = log_text k A"
      using log_text_up [of m "log_rotate n A" A] \<open>n = Suc m\<close> Suc by (simp add: log_rotate_def shifted_def)
    moreover have "log_rotate n A m = (case A k of None \<Rightarrow> A m | Some b \<Rightarrow> Some b)"
      using \<open>n = Suc m\<close> Suc by (simp add: log_rotate_def shifted_def split: option.split)
    ultimately show ?thesis
      using \<open>n = Suc m\<close> Suc drop_file [OF assms, of "bytes_of (A k) @ log_text k A" m] by (cases "A k") simp_all
  qed
qed

lemma log_text_add:
  assumes "0 < n" and "log_ok max_bytes n A"
  shows "line_suffix (log_text n (log_add max_bytes n line A)) (log_text n A @ line @ [10])"
proof -
  obtain cur where cur: "A 0 = Some cur" using assms(2) by (auto simp: log_ok_def)
  show ?thesis
  proof (cases "cur \<noteq> [] \<and> length cur + (length line + 1) > max_bytes")
    case True
    have "log_rotate n A 0 = Some []" by (simp add: log_rotate_def)
    from log_text_append [of n "log_rotate n A", OF assms(1) this, of "line @ [10]"]
      line_suffix_append [OF log_text_rotate [OF assms(2)], of "line @ [10]"]
    have "line_suffix (log_text n ((log_rotate n A)(0 := Some (the (log_rotate n A 0) @ line @ [10]))))
        (log_text n A @ line @ [10])"
      unfolding \<open>log_rotate n A 0 = Some []\<close> option.sel by simp
    with True show ?thesis
      by (simp add: log_add_def cur Let_def)
  next
    case False
    with log_text_append [where A = A and cur = cur, OF assms(1) cur, of "line @ [10]"] show ?thesis
      by (auto simp: log_add_def cur Let_def)
  qed
qed

lemma log_adds:
  assumes "0 < n" and "log_ok max_bytes n A"
  shows "log_ok max_bytes n (fold (log_add max_bytes n) ls A)
    \<and> line_suffix (log_text n (fold (log_add max_bytes n) ls A)) (log_text n A @ unlines ls)"
  using assms(2)
proof (induction ls arbitrary: A)
  case Nil
  then show ?case by simp
next
  case (Cons l ls)
  note step = line_suffix_append [OF log_text_add [OF assms(1) Cons.prems, of l], of "unlines ls"]
  with Cons.IH [OF log_add_ok [OF Cons.prems]] show ?case
    by (auto intro: line_suffix_trans)
qed

section \<open>The output thread\<close>

lemma write_record_fine:
  assumes "writes_files max_bytes n (w, d) A" and "to_vec r = Ok line"
  shows "\<exists>w' d'. write_record to_vec r (stats, w, d)
      = (stats\<lparr>records_written := records_written stats + 1\<rparr>, w', d')
    \<and> writes_files max_bytes n (w', d') (log_add max_bytes n line A)"
  using write_line_fine [OF assms(1), of line] assms(2) by (auto simp: write_record_def)

lemma write_records_fine:
  assumes "writes_files max_bytes n (w, d) A" and "\<And>r. r \<in> set rs \<Longrightarrow> to_vec r = Ok (line r)"
  shows "\<exists>w' d'. fold (write_record to_vec) rs (stats, w, d)
      = (stats\<lparr>records_written := records_written stats + of_nat (length rs)\<rparr>, w', d')
    \<and> writes_files max_bytes n (w', d') (fold (log_add max_bytes n) (map line rs) A)"
  using assms
proof (induction rs arbitrary: stats w d A)
  case Nil
  then show ?case by simp
next
  case (Cons r rs)
  obtain w1 d1 where "write_record to_vec r (stats, w, d)
      = (stats\<lparr>records_written := records_written stats + 1\<rparr>, w1, d1)"
    and r1: "writes_files max_bytes n (w1, d1) (log_add max_bytes n (line r) A)"
    using write_record_fine [OF Cons.prems(1), where to_vec = to_vec and r = r and line = "line r" and stats = stats]
      Cons.prems(2) by auto
  with Cons.IH [OF r1, of "stats\<lparr>records_written := records_written stats + 1\<rparr>"] Cons.prems(2) show ?case
    by (simp add: add.assoc)
qed

lemma write_batch_fine:
  assumes "writes_files max_bytes n (w, d) A" and "\<And>r. r \<in> set rs \<Longrightarrow> to_vec r = Ok (line r)"
  shows "\<exists>w' d'. write_batch to_vec rs (stats, w, d)
      = (stats\<lparr>records_written := records_written stats + of_nat (length rs)\<rparr>, w', d')
    \<and> writes_files max_bytes n (w', d') (fold (log_add max_bytes n) (map line rs) A)"
proof -
  obtain w1 d1 where s1: "fold (write_record to_vec) rs (stats, w, d)
      = (stats\<lparr>records_written := records_written stats + of_nat (length rs)\<rparr>, w1, d1)"
    and r1: "writes_files max_bytes n (w1, d1) (fold (log_add max_bytes n) (map line rs) A)"
    using write_records_fine [of max_bytes n w d A rs to_vec line stats] assms by blast
  from r1 have "holds_files w1 d1 (fold (log_add max_bytes n) (map line rs) A)"
    by (simp add: writes_files_def)
  with s1 r1 show ?thesis
    using buf_flush_fine by (fastforce simp: write_batch_def writer_flush_def writes_files_def)
qed

lemma write_batches_fine:
  assumes "writes_files max_bytes n (w, d) A"
    and "\<And>r. r \<in> set (concat batches) \<Longrightarrow> to_vec r = Ok (line r)"
  shows "\<exists>w' d'. fold (write_batch to_vec) batches (stats, w, d)
      = (stats\<lparr>records_written := records_written stats + of_nat (length (concat batches))\<rparr>, w', d')
    \<and> writes_files max_bytes n (w', d') (fold (log_add max_bytes n) (map line (concat batches)) A)"
  using assms
proof (induction batches arbitrary: stats w d A)
  case Nil
  then show ?case by simp
next
  case (Cons rs batches)
  let ?stats = "stats\<lparr>records_written := records_written stats + of_nat (length rs)\<rparr>"
  obtain w1 d1 where "write_batch to_vec rs (stats, w, d) = (?stats, w1, d1)"
    and r1: "writes_files max_bytes n (w1, d1) (fold (log_add max_bytes n) (map line rs) A)"
    using write_batch_fine [OF Cons.prems(1), of rs to_vec line stats] Cons.prems(2) by auto
  with Cons.IH [OF r1, of ?stats] Cons.prems(2) show ?case
    by (simp add: add.assoc)
qed

lemma output_run_fine:
  assumes "writes_files max_bytes n (w, d) A"
    and "\<And>r. r \<in> set (concat batches) \<Longrightarrow> to_vec r = Ok (line r)"
  shows "\<exists>w' d'. output_run to_vec batches w d
      = (\<lparr>records_written = of_nat (length (concat batches)), write_errors = 0\<rparr>, w', d')
    \<and> holds_files w' d' (fold (log_add max_bytes n) (map line (concat batches)) A) \<and> wr_buffer w' = []"
proof -
  obtain w1 d1 where s1: "fold (write_batch to_vec) batches (output_stats_default, w, d)
      = (output_stats_default\<lparr>records_written := records_written output_stats_default + of_nat (length (concat batches))\<rparr>, w1, d1)"
    and r1: "writes_files max_bytes n (w1, d1) (fold (log_add max_bytes n) (map line (concat batches)) A)"
    using write_batches_fine [of max_bytes n w d A batches to_vec line output_stats_default] assms by blast
  from r1 have "holds_files w1 d1 (fold (log_add max_bytes n) (map line (concat batches)) A)"
    by (simp add: writes_files_def)
  from buf_flush_fine [OF this] obtain d2 where flush: "buf_flush w1 d1 = (Ok (), w1\<lparr>wr_buffer := []\<rparr>, d2)"
    and r2: "holds_files (w1\<lparr>wr_buffer := []\<rparr>) d2 (fold (log_add max_bytes n) (map line (concat batches)) A)"
    by blast
  from r2 have "os_call d2 = (Ok (), d2)" by (intro os_call_fine) (simp add: holds_files_def)
  with flush have "writer_sync w1 d1 = (Ok (), w1\<lparr>wr_buffer := []\<rparr>, d2)"
    by (simp add: writer_sync_def)
  with s1 r2 show ?thesis
    by (simp add: output_run_def output_stats_default_def)
qed

text \<open>Opening an empty directory.\<close>

lemma writer_open_fresh:
  assumes "dsk_names d = []" and "dsk_faults d = []" and "writer_open max_bytes max_files d = (Ok w, d')"
  shows "writes_files max_bytes (max max_files 1) (w, d') ((\<lambda>_. None)(0 := Some []))"
proof -
  have calls: "os_call d = (Ok (), d)" by (rule os_call_fine [OF assms(2)])
  let ?d = "d\<lparr>dsk_names := hm_insert (path_of 0) (dsk_next d) [], dsk_inodes := hm_insert (dsk_next d) [] (dsk_inodes d),
      dsk_next := dsk_next d + 1\<rparr>"
  let ?w = "\<lparr>wr_max_bytes = max_bytes, wr_max_files = max max_files 1, wr_file = dsk_next d,
      wr_buffer = [], wr_size = length (inode_bytes ?d (dsk_next d))\<rparr>"
  have opened: "os_open_append (path_of 0) d = (Ok (dsk_next d), ?d)"
    using assms(1) calls by (simp add: os_open_append_def open_create_def)
  have stat: "os_call ?d = (Ok (), ?d)" using assms(2) by (intro os_call_fine) simp
  have "writer_open max_bytes max_files d = (Ok ?w, ?d)"
    unfolding writer_open_def calls opened prod.case result.case stat by (rule refl)
  then have w: "w = ?w" and d': "d' = ?d"
    using assms(3) by simp_all
  have "inode_bytes ?d (dsk_next d) = []" by (simp add: inode_bytes_def)
  moreover have "names_ok ?d" by (simp add: names_ok_def)
  ultimately show ?thesis
    unfolding w d' using assms(2) by (simp add: writes_files_def holds_files_def file_at_def)
qed

lemma fresh_log_ok: "0 < n \<Longrightarrow> log_ok max_bytes n ((\<lambda>_. None)(0 := Some []))"
  by (auto simp: log_ok_def whole_lines_def split: if_splits intro: exI [of _ "[]"])

lemma log_text_fresh: "log_text n ((\<lambda>_. None)(0 := Some [])) = []"
  by (induction n) (auto simp: bytes_of_def)

section \<open>Accounting, whatever fails\<close>

text \<open>What the current file holds, with the bytes still in the buffer.\<close>

definition current :: "writer \<Rightarrow> disk \<Rightarrow> u8 list" where
  "current w d = inode_bytes d (wr_file w) @ wr_buffer w"

lemma next_fault_inodes: "next_fault d = (f, d') \<Longrightarrow> dsk_inodes d' = dsk_inodes d"
  by (auto simp: next_fault_def split: list.splits)

lemma os_call_inodes: "dsk_inodes (snd (os_call d)) = dsk_inodes d"
  by (auto simp: os_call_def split: prod.split fault.split dest: next_fault_inodes)

lemma inode_bytes_cong: "dsk_inodes d' = dsk_inodes d \<Longrightarrow> inode_bytes d' = inode_bytes d"
  by (simp add: inode_bytes_def fun_eq_iff)

lemma os_write_all_bytes:
  assumes "os_write_all n bs d = (r, d')"
  shows "case r of Ok u \<Rightarrow> inode_bytes d' n = inode_bytes d n @ bs
    | Err (e, rest) \<Rightarrow> \<exists>c. bs = c @ rest \<and> inode_bytes d' n = inode_bytes d n @ c"
proof -
  obtain f d1 where f: "next_fault d = (f, d1)" by fastforce
  note same = inode_bytes_cong [OF next_fault_inodes [OF f]]
  show ?thesis
  proof (cases f)
    case NoFault
    with assms f same show ?thesis by (auto simp: os_write_all_def)
  next
    case (FailsAfter k)
    with assms f have r: "r = Err (IoError, drop k bs)" and "inode_bytes d' n = inode_bytes d1 n @ take k bs"
      by (auto simp: os_write_all_def)
    with same show ?thesis unfolding r result.case prod.case by (intro exI [of _ "take k bs"]) simp
  qed
qed

lemma buf_flush_current:
  assumes "buf_flush w d = (r, w', d')"
  shows "current w' d' = current w d" and "wr_file w' = wr_file w" and "is_ok r \<Longrightarrow> wr_buffer w' = []"
    and "wr_max_files w' = wr_max_files w"
proof -
  obtain r1 d1 where o: "os_write_all (wr_file w) (wr_buffer w) d = (r1, d1)" by fastforce
  show "current w' d' = current w d" "wr_file w' = wr_file w" "is_ok r \<Longrightarrow> wr_buffer w' = []"
    "wr_max_files w' = wr_max_files w"
    using assms o os_write_all_bytes [OF o]
    by (auto simp: buf_flush_def current_def split: if_splits result.splits)
qed

lemma buf_write_all_current:
  assumes "buf_write_all bs w d = (r, w', d')"
  shows "\<exists>c. prefix c bs \<and> current w' d' = current w d @ c \<and> (is_ok r \<longrightarrow> c = bs)
    \<and> (\<not> is_ok r \<longrightarrow> length bs < buf_capacity \<longrightarrow> c = [])"
proof -
  obtain r1 w1 d1 where room: "(if length (wr_buffer w) + length bs > buf_capacity then buf_flush w d else (Ok (), w, d))
      = (r1, w1, d1)" by (metis prod_cases3)
  then have keep: "current w1 d1 = current w d"
    by (auto split: if_splits dest: buf_flush_current(1))
  have empty: "wr_buffer w1 = []" if "is_ok r1" "length bs \<ge> buf_capacity"
    using room that
    by (cases "wr_buffer w") (auto simp: not_less split: if_splits dest: buf_flush_current(3))
  show ?thesis
  proof (cases r1)
    case (Err e)
    with assms room keep show ?thesis by (auto simp: buf_write_all_def)
  next
    case ok: (Ok u)
    show ?thesis
    proof (cases "length bs \<ge> buf_capacity")
      case False
      with assms room ok keep show ?thesis by (auto simp: buf_write_all_def current_def)
    next
      case True
      obtain r2 d2 where o: "os_write_all (wr_file w1) bs d1 = (r2, d2)" by fastforce
      with assms room ok True empty os_write_all_bytes [OF o] keep show ?thesis
        by (auto simp: buf_write_all_def current_def split: result.splits)
    qed
  qed
qed

lemma path_exists_inodes: "dsk_inodes (snd (path_exists name d)) = dsk_inodes d"
  using os_call_inodes [of d] by (auto simp: path_exists_def split: prod.split result.split)

lemma os_remove_inodes: "dsk_inodes (snd (os_remove name d)) = dsk_inodes d"
  using os_call_inodes [of d] by (auto simp: os_remove_def split: prod.split result.split)

lemma os_rename_inodes: "dsk_inodes (snd (os_rename src dst d)) = dsk_inodes d"
  using os_call_inodes [of d] by (auto simp: os_rename_def split: prod.split result.split option.split)

lemma shift_files_inodes: "dsk_inodes (snd (shift_files k d)) = dsk_inodes d"
proof (induction k arbitrary: d)
  case 0
  then show ?case by simp
next
  case (Suc i)
  obtain b d0 where e: "path_exists (path_of i) d = (b, d0)" by fastforce
  obtain b1 d1 where e1: "path_exists (path_of (Suc i)) d0 = (b1, d1)" by fastforce
  define x where "x = (if b1 then os_remove (path_of (Suc i)) d1 else (Ok (), d1))"
  have "dsk_inodes (snd x) = dsk_inodes d"
    using path_exists_inodes [of "path_of i" d] path_exists_inodes [of "path_of (Suc i)" d0]
      os_remove_inodes [of "path_of (Suc i)" d1]
    by (simp add: e e1 x_def)
  moreover obtain r2 d2 where x: "x = (r2, d2)" by fastforce
  moreover obtain r3 d3 where e3: "os_rename (path_of i) (path_of (Suc i)) d2 = (r3, d3)" by fastforce
  moreover have "dsk_inodes d0 = dsk_inodes d" using path_exists_inodes [of "path_of i" d] by (simp add: e)
  ultimately show ?case
    using os_rename_inodes [of "path_of i" "path_of (Suc i)" d2] Suc.IH [of d0] Suc.IH [of d3]
    by (cases b; cases b1; cases r2; cases r3) (auto simp: e e1 x_def)
qed

lemma rotate_files_current:
  assumes "rotate_files w d = (r, w', d')"
  shows "current w' d' = (if is_ok r then [] else current w d)"
proof -
  obtain r1 w1 d1 where f: "buf_flush w d = (r1, w1, d1)" by (metis prod_cases3)
  obtain r2 d2 where s: "shift_files (wr_max_files w1 - 1) d1 = (r2, d2)" by fastforce
  have same: "inode_bytes d2 = inode_bytes d1"
    using shift_files_inodes [of "wr_max_files w1 - 1" d1] unfolding s by (intro inode_bytes_cong) simp
  obtain r3 d3 where o: "os_open_truncate (path_of 0) d2 = (r3, d3)" by fastforce
  have opened: "case r3 of Err e \<Rightarrow> inode_bytes d3 = inode_bytes d2 | Ok n \<Rightarrow> inode_bytes d3 n = []"
  proof -
    obtain r4 d4 where c: "os_call d2 = (r4, d4)" by fastforce
    then have "inode_bytes d4 = inode_bytes d2" using os_call_inodes [of d2] by (intro inode_bytes_cong) simp
    with o c show ?thesis
      by (cases "open_create (path_of 0) d4") (auto simp: os_open_truncate_def split: result.splits)
  qed
  show ?thesis
    using assms f s o same opened buf_flush_current(1) [OF f]
    by (auto simp: rotate_files_def current_def split: result.splits)
qed

lemma write_line_current:
  assumes "write_line line w d = (r, w', d')"
  shows "\<exists>base c. base \<in> {current w d, []} \<and> current w' d' = base @ c \<and> prefix c (line @ [10])
    \<and> (is_ok r \<longleftrightarrow> c = line @ [10])"
proof -
  obtain r1 w1 d1 where rot: "(if wr_size w > 0 \<and> wr_size w + (length line + 1) > wr_max_bytes w
      then rotate_files w d else (Ok (), w, d)) = (r1, w1, d1)" by (metis prod_cases3)
  then have base: "current w1 d1 \<in> {current w d, []}"
    using rotate_files_current by (fastforce split: if_splits)
  show ?thesis
  proof (cases r1)
    case (Err e)
    with assms rot have "w' = w1" "d' = d1" "r = Err e" by (auto simp: write_line_def Let_def)
    with base show ?thesis by (intro exI [of _ "current w1 d1"] exI [of _ "[]"]) simp
  next
    case ok: (Ok u)
    obtain r2 w2 d2 where l: "buf_write_all line w1 d1 = (r2, w2, d2)" by (metis prod_cases3)
    from buf_write_all_current [OF l] obtain c where c: "prefix c line" "current w2 d2 = current w1 d1 @ c"
      "is_ok r2 \<longrightarrow> c = line" by blast
    show ?thesis
    proof (cases r2)
      case (Err e)
      with assms rot ok l have "w' = w2" "d' = d2" "r = Err e" by (auto simp: write_line_def Let_def)
      moreover have "c \<noteq> line @ [10]" using c(1) by (auto dest: prefix_length_le)
      ultimately show ?thesis using base c by (intro exI [of _ "current w1 d1"] exI [of _ c]) simp
    next
      case (Ok v)
      then have all: "current w2 d2 = current w1 d1 @ line" using c by simp
      obtain r3 w3 d3 where n: "buf_write_all [10] w2 d2 = (r3, w3, d3)" by (metis prod_cases3)
      from buf_write_all_current [OF n] have nl: "current w3 d3 = current w2 d2 @ (if is_ok r3 then [10] else [])"
        by (auto simp: buf_capacity_def)
      have "is_ok r = is_ok r3" "current w' d' = current w3 d3"
        using assms rot ok l n Ok by (auto simp: write_line_def Let_def current_def split: result.splits)
      then show ?thesis
        using base all nl
        by (intro exI [of _ "current w1 d1"] exI [of _ "line @ (if is_ok r3 then [10] else [])"]) simp
    qed
  qed
qed

text \<open>
  The bytes a record leaves in the file: a prefix of its line, and the record is written when it is the
  whole line with its newline.
\<close>

definition chunk_of :: "('r \<Rightarrow> (io_error, u8 list) result) \<Rightarrow> 'r \<Rightarrow> u8 list \<Rightarrow> bool" where
  "chunk_of to_vec r c \<longleftrightarrow> (case to_vec r of Err e \<Rightarrow> c = [] | Ok line \<Rightarrow> prefix c (line @ [10]))"

definition whole_chunk :: "('r \<Rightarrow> (io_error, u8 list) result) \<Rightarrow> 'r \<Rightarrow> u8 list \<Rightarrow> bool" where
  "whole_chunk to_vec r c \<longleftrightarrow> (case to_vec r of Err e \<Rightarrow> False | Ok line \<Rightarrow> c = line @ [10])"

text \<open>The contents of the current file: what it held and the chunks, or the chunks since a rotation.\<close>

definition since :: "u8 list \<Rightarrow> u8 list list \<Rightarrow> u8 list \<Rightarrow> bool" where
  "since a cs x \<longleftrightarrow> x = a @ concat cs \<or> (\<exists>k\<le>length cs. x = concat (drop k cs))"

lemma since_refl [simp]: "since a [] a"
  by (simp add: since_def)

lemma since_append:
  assumes "since a cs x" and "since x ds y"
  shows "since a (cs @ ds) y"
proof -
  consider "y = x @ concat ds" | k where "k \<le> length ds" "y = concat (drop k ds)"
    using assms(2) by (auto simp: since_def)
  then show ?thesis
  proof cases
    case 1
    from assms(1) consider "x = a @ concat cs" | k where "k \<le> length cs" "x = concat (drop k cs)"
      by (auto simp: since_def)
    then show ?thesis
    proof cases
      case 1
      with \<open>y = x @ concat ds\<close> show ?thesis by (simp add: since_def)
    next
      case 2
      with \<open>y = x @ concat ds\<close> show ?thesis unfolding since_def by (intro disjI2 exI [of _ k]) simp
    qed
  next
    case 2
    then show ?thesis
      unfolding since_def by (intro disjI2 exI [of _ "length cs + k"]) simp
  qed
qed

definition counted :: "('r \<Rightarrow> (io_error, u8 list) result) \<Rightarrow> 'r list \<Rightarrow> u8 list list \<Rightarrow> output_stats \<Rightarrow> output_stats \<Rightarrow> bool" where
  "counted to_vec rs cs stats stats' \<longleftrightarrow>
     list_all2 (chunk_of to_vec) rs cs
     \<and> records_written stats' = records_written stats
         + of_nat (length (filter (\<lambda>(r, c). whole_chunk to_vec r c) (zip rs cs)))
     \<and> write_errors stats' = write_errors stats
         + of_nat (length (filter (\<lambda>(r, c). \<not> whole_chunk to_vec r c) (zip rs cs)))"

lemma counted_Nil [simp]: "counted to_vec [] [] stats stats"
  by (simp add: counted_def)

lemma counted_append:
  assumes "counted to_vec rs cs stats stats'" and "counted to_vec rs' cs' stats' stats''"
  shows "counted to_vec (rs @ rs') (cs @ cs') stats stats''"
  using assms by (auto simp: counted_def list_all2_appendI add.assoc dest: list_all2_lengthD)

lemma write_record_counts:
  assumes "write_record to_vec r (stats, w, d) = (stats', w', d')"
  shows "\<exists>c. counted to_vec [r] [c] stats stats' \<and> since (current w d) [c] (current w' d')"
proof (cases "to_vec r")
  case (Err e)
  with assms show ?thesis
    by (intro exI [of _ "[]"]) (auto simp: write_record_def counted_def chunk_of_def whole_chunk_def since_def)
next
  case (Ok line)
  obtain res w1 d1 where l: "write_line line w d = (res, w1, d1)" by (metis prod_cases3)
  from write_line_current [OF l] obtain base c where c: "base \<in> {current w d, []}" "current w1 d1 = base @ c"
    "prefix c (line @ [10])" "is_ok res \<longleftrightarrow> c = line @ [10]" by blast
  have "since (current w d) [c] (current w1 d1)"
    using c(1,2) by (auto simp: since_def)
  moreover have "counted to_vec [r] [c] stats stats'"
    using assms Ok l c(3,4)
    by (cases res) (auto simp: write_record_def counted_def chunk_of_def whole_chunk_def)
  moreover have "w' = w1" "d' = d1" using assms Ok l by (auto simp: write_record_def split: result.splits)
  ultimately show ?thesis by blast
qed

lemma write_records_count:
  assumes "fold (write_record to_vec) rs (stats, w, d) = (stats', w', d')"
  shows "\<exists>cs. counted to_vec rs cs stats stats' \<and> since (current w d) cs (current w' d')"
  using assms
proof (induction rs arbitrary: stats w d)
  case Nil
  then show ?case by (intro exI [of _ "[]"]) simp
next
  case (Cons r rs)
  obtain stats1 w1 d1 where s1: "write_record to_vec r (stats, w, d) = (stats1, w1, d1)" by (metis prod_cases3)
  from write_record_counts [OF s1] obtain c
    where one: "counted to_vec [r] [c] stats stats1" "since (current w d) [c] (current w1 d1)" by blast
  have "fold (write_record to_vec) rs (stats1, w1, d1) = (stats', w', d')" using Cons.prems s1 by simp
  from Cons.IH [OF this] obtain cs
    where "counted to_vec rs cs stats1 stats'" "since (current w1 d1) cs (current w' d')" by blast
  with counted_append [OF one(1)] since_append [OF one(2)] show ?case by fastforce
qed

lemma write_batches_count:
  assumes "fold (write_batch to_vec) batches (stats, w, d) = (stats', w', d')"
  shows "\<exists>cs. counted to_vec (concat batches) cs stats stats' \<and> since (current w d) cs (current w' d')"
  using assms
proof (induction batches arbitrary: stats w d)
  case Nil
  then show ?case by (intro exI [of _ "[]"]) simp
next
  case (Cons rs batches)
  obtain stats1 w1 d1 where s1: "fold (write_record to_vec) rs (stats, w, d) = (stats1, w1, d1)" by (metis prod_cases3)
  obtain res w2 d2 where f: "buf_flush w1 d1 = (res, w2, d2)" by (metis prod_cases3)
  from write_records_count [OF s1] obtain c
    where one: "counted to_vec rs c stats stats1" "since (current w d) c (current w2 d2)"
    using buf_flush_current(1) [OF f] by auto
  have "fold (write_batch to_vec) batches (stats1, w2, d2) = (stats', w', d')"
    using Cons.prems s1 f by (simp add: write_batch_def [of to_vec rs] writer_flush_def)
  from Cons.IH [OF this] obtain cs
    where "counted to_vec (concat batches) cs stats1 stats'" "since (current w2 d2) cs (current w' d')" by blast
  with counted_append [OF one(1)] since_append [OF one(2)] show ?case by fastforce
qed

lemma output_run_counts:
  assumes "output_run to_vec batches w d = (stats, w', d')"
  shows "\<exists>cs lost. counted to_vec (concat batches) cs output_stats_default stats
    \<and> since (current w d) cs (inode_bytes d' (wr_file w') @ lost) \<and> (wr_buffer w' = [] \<longrightarrow> lost = [])"
proof -
  obtain stats1 w1 d1 where s1: "fold (write_batch to_vec) batches (output_stats_default, w, d) = (stats1, w1, d1)"
    by (metis prod_cases3)
  obtain res w2 d2 where f: "buf_flush w1 d1 = (res, w2, d2)" by (metis prod_cases3)
  obtain r3 d3 where c: "os_call d2 = (r3, d3)" by fastforce
  define d4 where "d4 = (if is_ok res then d3 else d2)"
  have d4: "inode_bytes d4 = inode_bytes d2"
    using os_call_inodes [of d2] c by (intro inode_bytes_cong) (simp add: d4_def)
  have sync: "snd (writer_sync w1 d1) = (w2, d4)"
    using f c by (cases res) (simp_all add: writer_sync_def d4_def)
  obtain r5 w5 d5 where e: "buf_flush w2 d4 = (r5, w5, d5)" by (metis prod_cases3)
  have out: "stats = stats1" "w' = w2" "d' = d5"
    using assms s1 sync e by (auto simp: output_run_def writer_drop_def split: prod.splits)
  from write_batches_count [OF s1] obtain cs
    where cs: "counted to_vec (concat batches) cs output_stats_default stats1"
      "since (current w d) cs (current w1 d1)" by blast
  have "current w1 d1 = current w2 d4" using buf_flush_current(1) [OF f] by (simp add: current_def d4)
  also have "\<dots> = inode_bytes d5 (wr_file w2) @ wr_buffer w5"
    using buf_flush_current(1,2) [OF e] by (simp add: current_def)
  finally have "current w1 d1 = inode_bytes d5 (wr_file w2) @ wr_buffer w5" .
  moreover have "wr_buffer w2 = [] \<longrightarrow> wr_buffer w5 = []" using e by (auto simp: buf_flush_def)
  ultimately show ?thesis using cs out by auto
qed

lemma output_run_total:
  assumes "output_run to_vec batches w d = (stats, w', d')"
  shows "records_written stats + write_errors stats = of_nat (length (concat batches))"
proof -
  obtain cs where c: "counted to_vec (concat batches) cs output_stats_default stats"
    using output_run_counts [OF assms] by blast
  have "length (filter (\<lambda>(r, c). whole_chunk to_vec r c) (zip (concat batches) cs))
      + length (filter (\<lambda>(r, c). \<not> whole_chunk to_vec r c) (zip (concat batches) cs)) = length (concat batches)"
    using c sum_length_filter_compl [of "\<lambda>(r, c). whole_chunk to_vec r c" "zip (concat batches) cs"]
    by (auto simp: counted_def split_def dest: list_all2_lengthD simp del: length_concat)
  with c show ?thesis
    by (auto simp: counted_def output_stats_default_def simp flip: of_nat_add)
qed

section \<open>The directory\<close>

text \<open>The contents of the file of each index, and the log a reader finds.\<close>

definition disk_file :: "disk \<Rightarrow> nat \<Rightarrow> u8 list option" where
  "disk_file d i = map_option (inode_bytes d) (hm_get (dsk_names d) (path_of i))"

definition disk_log :: "nat \<Rightarrow> disk \<Rightarrow> u8 list" where
  "disk_log n d = log_text n (disk_file d)"

definition fresh_log :: log_files where
  "fresh_log = (\<lambda>i. if i = 0 then Some [] else None)"

lemma fresh_log_eq: "fresh_log = (\<lambda>_. None)(0 := Some [])"
  by (auto simp: fresh_log_def)

lemma holds_files_disk: "holds_files w d A \<Longrightarrow> wr_buffer w = [] \<Longrightarrow> disk_file d = A"
  by (rule ext, rename_tac i, case_tac "i = 0") (auto simp: holds_files_def disk_file_def file_at_def)

lemma output_run_fresh:
  assumes "dsk_names d = []" and "dsk_faults d = []" and "writer_open max_bytes max_files d = (Ok w, d1)"
    and "\<And>r. r \<in> set (concat batches) \<Longrightarrow> to_vec r = Ok (line r)"
  shows "case output_run to_vec batches w d1 of (stats, _, d2) \<Rightarrow>
    stats = \<lparr>records_written = of_nat (length (concat batches)), write_errors = 0\<rparr>
    \<and> disk_file d2 = fold (log_add max_bytes (max max_files 1)) (map line (concat batches)) fresh_log"
  using output_run_fine [OF writer_open_fresh [OF assms(1-3)], of batches to_vec line] assms(4)
  by (auto simp: fresh_log_eq dest: holds_files_disk)

lemma log_adds_fresh:
  fixes max_files :: nat
  defines "n \<equiv> max max_files 1"
  shows "suffix (log_text n (fold (log_add max_bytes n) ls fresh_log)) (unlines ls)
    \<and> line_suffix (log_text n (fold (log_add max_bytes n) ls fresh_log)) (unlines ls)
    \<and> (\<forall>i b. fold (log_add max_bytes n) ls fresh_log i = Some b \<longrightarrow> i < n \<and> whole_lines max_bytes b)"
proof -
  have "0 < n" by (simp add: n_def)
  from log_adds [OF this fresh_log_ok [OF this], of max_bytes ls] show ?thesis
    by (auto simp: fresh_log_eq log_text_fresh log_ok_def intro: line_suffix_suffix)
qed

section \<open>Rotations that fail to open the new file\<close>

text \<open>The calls that move the files succeed, and the next one, which opens the new file, fails.\<close>

definition open_fails :: "writer \<Rightarrow> disk \<Rightarrow> bool" where
  "open_fails w d \<longleftrightarrow>
     (\<exists>k fs. dsk_faults d = replicate (shift_calls (wr_max_files w - 1) (disk_file d)) NoFault @ FailsAfter k # fs)"

lemma disk_file_at: "disk_file d = (\<lambda>i. map_option (inode_bytes d) (file_at d i))"
  by (simp add: disk_file_def file_at_def fun_eq_iff)

lemma move_up_map: "move_up i (\<lambda>j. map_option f (A j)) = (\<lambda>j. map_option f (move_up i A j))"
  by (auto simp: move_up_def fun_eq_iff split: option.split)

lemma shift_calls_map: "shift_calls k (\<lambda>j. map_option f (A j)) = shift_calls k A"
  by (induction k arbitrary: A) (simp_all add: move_up_map)

lemma failed_open:
  assumes "names_ok d" and "wr_buffer w = []" and "0 < wr_size w" and "wr_max_bytes w < wr_size w + (length line + 1)"
    and "dsk_faults d = replicate (shift_calls (wr_max_files w - 1) (disk_file d)) NoFault @ FailsAfter j # fs"
  shows "\<exists>d'. write_line line w d = (Err IoError, w, d') \<and> names_ok d'
    \<and> disk_file d' = shifted (wr_max_files w - 1) (disk_file d) \<and> dsk_faults d' = fs"
proof -
  let ?k = "wr_max_files w - 1"
  have "spares (shift_calls ?k (file_at d) + 0) (FailsAfter j # fs) d"
    using assms(5) by (simp add: spares_def disk_file_at shift_calls_map)
  from shift_files_spared [OF this assms(1)] obtain d2 where shift: "shift_files ?k d = (Ok (), d2)"
    and sp: "spares 0 (FailsAfter j # fs) d2" and ok: "names_ok d2" and moved: "file_at d2 = shifted ?k (file_at d)"
    and same: "dsk_inodes d2 = dsk_inodes d" by blast
  have "os_open_truncate (path_of 0) d2 = (Err IoError, d2\<lparr>dsk_faults := fs\<rparr>)"
    using spares_0 [OF sp] by (simp add: os_open_truncate_def os_call_def next_fault_def)
  with shift have "rotate_files w d = (Err IoError, w, d2\<lparr>dsk_faults := fs\<rparr>)"
    using assms(2) by (simp add: rotate_files_def buf_flush_def)
  with assms(3,4) have "write_line line w d = (Err IoError, w, d2\<lparr>dsk_faults := fs\<rparr>)"
    by (simp add: write_line_def Let_def)
  moreover have "disk_file (d2\<lparr>dsk_faults := fs\<rparr>) = shifted ?k (disk_file d)"
  proof -
    have "inode_bytes (d2\<lparr>dsk_faults := fs\<rparr>) = inode_bytes d" using same by (intro inode_bytes_cong) simp
    moreover have "file_at (d2\<lparr>dsk_faults := fs\<rparr>) = shifted ?k (file_at d)"
      unfolding moved [symmetric] by (simp add: file_at_def fun_eq_iff)
    ultimately show ?thesis by (simp only: disk_file_at) (simp only: shifted_map [abs_def])
  qed
  moreover have "names_ok (d2\<lparr>dsk_faults := fs\<rparr>)" using ok by (simp add: names_ok_def)
  moreover have "dsk_faults (d2\<lparr>dsk_faults := fs\<rparr>) = fs" by simp
  ultimately show ?thesis by blast
qed

lemma failed_rotation:
  assumes "names_ok d" and "wr_buffer w = []" and "0 < wr_size w" and "wr_max_bytes w < wr_size w + (length line + 1)"
    and "open_fails w d"
  shows "\<exists>d'. write_line line w d = (Err IoError, w, d') \<and> names_ok d'
    \<and> disk_file d' = shifted (wr_max_files w - 1) (disk_file d)"
  using failed_open [OF assms(1-4)] assms(5) unfolding open_fails_def by blast

text \<open>The files of a full log after \<open>m\<close> such rotations.\<close>

definition moved_up :: "nat \<Rightarrow> nat \<Rightarrow> (nat \<Rightarrow> 'a option) \<Rightarrow> nat \<Rightarrow> 'a option" where
  "moved_up n m A i =
     (let k = min m (n - 1) in if i < k then None else if i < n then A (i - k) else A i)"

lemma shifted_moved_up:
  assumes "\<And>i. i < n \<Longrightarrow> A i \<noteq> None" and "0 < n"
  shows "shifted (n - 1) (moved_up n m A) = moved_up n (Suc m) A"
proof
  fix i
  show "shifted (n - 1) (moved_up n m A) i = moved_up n (Suc m) A i"
  proof (cases "m < n - 1")
    case True
    then have "A (n - 2 - m) \<noteq> None" using assms by simp
    with True assms(2) show ?thesis
      by (cases "i = n - 1") (auto simp: shifted_def moved_up_def Let_def eval_nat_numeral split: option.split)
  next
    case False
    with assms(2) show ?thesis
      by (auto simp: shifted_def moved_up_def Let_def split: option.split)
  qed
qed

lemma failed_rotations:
  assumes "\<And>i. i < wr_max_files w \<Longrightarrow> A i \<noteq> None" and "0 < wr_max_files w"
    and "wr_buffer w = []" and "0 < wr_size w"
    and "names_ok d" and "disk_file d = moved_up (wr_max_files w) m A"
    and "\<And>r. r \<in> set rs \<Longrightarrow> \<exists>line. to_vec r = Ok line \<and> wr_max_bytes w < wr_size w + (length line + 1)"
    and "\<And>i. i < length rs \<Longrightarrow>
      case fold (write_record to_vec) (take i rs) (stats, w, d) of (_, w', d') \<Rightarrow> open_fails w' d'"
  shows "\<exists>d'. fold (write_record to_vec) rs (stats, w, d)
      = (stats\<lparr>write_errors := write_errors stats + of_nat (length rs)\<rparr>, w, d')
    \<and> disk_file d' = moved_up (wr_max_files w) (m + length rs) A"
  using assms(5-8)
proof (induction rs arbitrary: stats d m)
  case Nil
  then show ?case by simp
next
  case (Cons r rs)
  obtain line where line: "to_vec r = Ok line" "wr_max_bytes w < wr_size w + (length line + 1)"
    using Cons.prems(3) by auto
  have "open_fails w d" using Cons.prems(4) [of 0] by simp
  from failed_rotation [OF Cons.prems(1) assms(3,4) line(2) this] obtain d1
    where d1: "write_line line w d = (Err IoError, w, d1)" "names_ok d1"
      "disk_file d1 = shifted (wr_max_files w - 1) (disk_file d)" by blast
  let ?stats = "stats\<lparr>write_errors := write_errors stats + 1\<rparr>"
  have step: "write_record to_vec r (stats, w, d) = (?stats, w, d1)"
    by (simp add: write_record_def line d1)
  have moved: "disk_file d1 = moved_up (wr_max_files w) (Suc m) A"
    unfolding d1(3) Cons.prems(2) by (rule shifted_moved_up [OF assms(1,2)])
  have opens: "case fold (write_record to_vec) (take i rs) (?stats, w, d1) of (_, w', d') \<Rightarrow> open_fails w' d'"
    if "i < length rs" for i
    using Cons.prems(4) [of "Suc i"] that by (simp add: step)
  have "\<exists>d'. fold (write_record to_vec) rs (?stats, w, d1)
      = (?stats\<lparr>write_errors := write_errors ?stats + of_nat (length rs)\<rparr>, w, d')
    \<and> disk_file d' = moved_up (wr_max_files w) (Suc m + length rs) A"
    by (rule Cons.IH [OF d1(2) moved Cons.prems(3) opens]) simp_all
  then show ?case by (simp add: step add.assoc)
qed

end
