(* ===== verification/Daemon.thy ===== *)
theory Daemon
  imports Config Documents Ingest Engine_Task Output_Props
begin

text \<open>
  The daemon (\<open>crates/telemetryd/src/main.rs\<close>): how it loads its configuration, the catalog and the
  rules, how the start-up sequence builds the parts, and how the three tasks are connected. Files, the
  socket and the parsers are parameters; the disk of the output is the one of \<open>Output\<close>.
\<close>

section \<open>Errors with context\<close>

datatype cause =
    IoCause io_error
  | ConfigCause config_error
  | CatalogCause catalog_error
  | JsonCause json_error
  | RulesCause "validation_error list"
  | BailCause string
  | JoinCause

text \<open>An error of the \<open>anyhow\<close> crate: the contexts added to it, outermost first, and its cause.\<close>

datatype anyhow_error = Anyhow "string list" cause

definition with_context :: "string \<Rightarrow> ('e \<Rightarrow> cause) \<Rightarrow> ('e, 'a) result \<Rightarrow> (anyhow_error, 'a) result" where
  "with_context msg f r = map_err (\<lambda>e. Anyhow [msg] (f e)) r"

lemma with_context_Ok_iff [simp]: "with_context msg f r = Ok a \<longleftrightarrow> r = Ok a"
  by (simp add: with_context_def)

section \<open>Loading\<close>

record 'a platform =
  read_to_string :: "string \<Rightarrow> (io_error, string) result"
  parse_toml :: "string \<Rightarrow> (string, (string \<times> toml) list) result"
  parse_addr :: "string \<Rightarrow> 'a option"
  show_addr :: "'a \<Rightarrow> string"
  parse_json :: "string \<Rightarrow> (string, json) result"
  bind_udp :: "'a \<Rightarrow> (io_error, unit) result"

definition config_load :: "'a platform \<Rightarrow> string \<Rightarrow> (anyhow_error, 'a config) result" where
  "config_load pf path =
     and_then (with_context (''reading config '' @ path) IoCause (read_to_string pf path))
       (\<lambda>text. with_context (''invalid config '' @ path) ConfigCause
          (config_parse (parse_toml pf) (parse_addr pf) text))"

definition quoted :: "string \<Rightarrow> string" where
  "quoted s = [CHR 0x27] @ s @ [CHR 0x27]"

definition load_catalog :: "'a platform \<Rightarrow> 'a config \<Rightarrow> (anyhow_error, catalog) result" where
  "load_catalog pf cfg =
     and_then (with_context (''reading catalog '' @ catalog_path cfg) IoCause (read_to_string pf (catalog_path cfg)))
       (\<lambda>json. and_then (with_context (''loading catalog '' @ catalog_path cfg) CatalogCause
            (catalog_from_json (parse_json pf) json))
       (\<lambda>c. if cat_model c \<noteq> cfg_model cfg
            then Err (Anyhow [] (BailCause (''config model '' @ quoted (cfg_model cfg)
                @ '' does not match catalog model '' @ quoted (cat_model c))))
            else Ok c))"

definition load_rules ::
  "'a platform \<Rightarrow> ('p, 'v) cel \<Rightarrow> thread_outcome \<Rightarrow> 'a config \<Rightarrow> catalog
    \<Rightarrow> (anyhow_error, 'p compiled_ruleset) result" where
  "load_rules pf cel thread cfg c =
     (case rules_file cfg of
        None \<Rightarrow> Ok empty_ruleset
      | Some path \<Rightarrow>
          and_then (with_context (''reading rules '' @ path) IoCause (read_to_string pf path))
            (\<lambda>json. and_then (with_context (''parsing rules '' @ path) JsonCause
                 (ruleset_from_json (parse_json pf) json))
            (\<lambda>rs. with_context (''invalid rules '' @ path) RulesCause
                 (compile_ruleset cel thread rs c (cfg_model cfg) None))))"

section \<open>Starting\<close>

record ('a, 'p) started =
  st_config :: "'a config"
  st_catalog :: catalog
  st_rules :: "'p compiled_ruleset"
  st_writer :: writer
  st_engine :: "'p engine"

text \<open>\<open>main\<close> up to the tasks: \<open>now\<close> is the clock when the rule set is applied.\<close>

definition boot ::
  "'a platform \<Rightarrow> ('p, 'v) cel \<Rightarrow> thread_outcome \<Rightarrow> u64 \<Rightarrow> string \<Rightarrow> disk
    \<Rightarrow> (anyhow_error, ('a, 'p) started) result \<times> disk" where
  "boot pf cel thread now path d =
     (case config_load pf path of
        Err e \<Rightarrow> (Err e, d)
      | Ok cfg \<Rightarrow> (case load_catalog pf cfg of
          Err e \<Rightarrow> (Err e, d)
        | Ok c \<Rightarrow> (case load_rules pf cel thread cfg c of
            Err e \<Rightarrow> (Err e, d)
          | Ok rules \<Rightarrow> (case writer_open (max_file_bytes (cfg_output cfg)) (cfg_max_files (cfg_output cfg)) d of
              (Err e, d1) \<Rightarrow> (Err (Anyhow [''opening output dir '' @ log_dir (cfg_output cfg)] (IoCause e)), d1)
            | (Ok w, d1) \<Rightarrow> (case bind_udp pf (udp_bind (cfg_ingest cfg)) of
                Err e \<Rightarrow> (Err (Anyhow [''binding UDP '' @ show_addr pf (udp_bind (cfg_ingest cfg))] (IoCause e)), d1)
              | Ok _ \<Rightarrow>
                  (Ok \<lparr>st_config = cfg, st_catalog = c, st_rules = rules, st_writer = w,
                     st_engine = apply_ruleset now rules (engine_new (cfg_vin cfg) (cfg_model cfg))\<rparr>, d1))))))"

section \<open>The tasks together\<close>

definition channel :: "'a sender" where
  "channel = \<lparr>tx_sent = [], tx_room = None\<rparr>"

text \<open>
  One life of the daemon. Ingest handles its events, the engine task goes through its rounds and the
  output thread through its batches; all three live until their input ends. The result is how ingest
  ended, the statistics of the tasks and the disk.
\<close>

record session =
  ses_ingest :: "ingest_event list"
  ses_rounds :: "round list"
  ses_batches :: "log_record list list"

definition forwarded :: "catalog \<Rightarrow> ingest_event list \<Rightarrow> sample list" where
  "forwarded c evs = tx_sent (snd (snd (run_udp c evs (ingest_stats_default, channel))))"

definition emitted :: "('p, 'v) cel \<Rightarrow> round list \<Rightarrow> 'p engine \<Rightarrow> log_record list" where
  "emitted cel rds e =
     (case engine_task_run cel rds e (engine_stats_default, channel) of (_, _, (_, tx), _) \<Rightarrow> tx_sent tx)"

text \<open>
  The channels are queues: what a task receives is what the task before it sent. At the end of an
  orderly shutdown everything has been received: ingest has returned, the engine task has seen its
  input close and the output thread has taken every record.
\<close>

definition orderly :: "('p, 'v) cel \<Rightarrow> session \<Rightarrow> ('a, 'p) started \<Rightarrow> bool" where
  "orderly cel ses st \<longleftrightarrow>
     fst (run_udp (st_catalog st) (ses_ingest ses) (ingest_stats_default, channel)) = Returned
     \<and> rounds_samples (ses_rounds ses) = forwarded (st_catalog st) (ses_ingest ses)
     \<and> (\<exists>rd\<in>set (ses_rounds ses). rd_wake rd = Closed)
     \<and> concat (ses_batches ses) = emitted cel (ses_rounds ses) (st_engine st)"

definition daemon_run ::
  "('p, 'v) cel \<Rightarrow> (log_record \<Rightarrow> (io_error, u8 list) result) \<Rightarrow> session
    \<Rightarrow> ('a, 'p) started \<Rightarrow> disk \<Rightarrow> ingest_stats \<times> engine_stats \<times> output_stats \<times> disk" where
  "daemon_run cel to_vec ses st d =
     (case run_udp (st_catalog st) (ses_ingest ses) (ingest_stats_default, channel) of (_, istats, _) \<Rightarrow>
      (case engine_task_run cel (ses_rounds ses) (st_engine st) (engine_stats_default, channel) of
         (_, _, (estats, _), _) \<Rightarrow>
       (case output_run to_vec (ses_batches ses) (st_writer st) d of (ostats, _, d') \<Rightarrow>
          (istats, estats, ostats, d'))))"

lemma forwarded_eq: "forwarded c evs = concat (map (received_samples c) (datagrams_of evs))"
  using ingest_open [of channel c evs ingest_stats_default] by (simp add: forwarded_def channel_def)

lemma emitted_eq: "emitted cel rds e = concat (map records (snd (run (engine_handle cel) (rounds_trace rds) e)))"
proof -
  have "tx_room channel = None" by (simp add: channel_def)
  from engine_task_open [OF this, of cel rds e engine_stats_default] show ?thesis
    by (auto simp: emitted_def channel_def)
qed

end
