(* ===== verification/Daemon_Properties.thy ===== *)
theory Daemon_Properties
  imports Daemon Engine_Properties
begin

text \<open>
  The properties of the daemon's tasks: what the start-up guarantees, what ingest counts and forwards,
  how the engine task drives the engine and sleeps, what the output keeps on disk, and what all three
  do together between the first datagram and an orderly shutdown.
\<close>

section \<open>Start-up\<close>

lemma load_catalog_wf:
  "load_catalog pf cfg = Ok c \<Longrightarrow> catalog_wf c \<and> cat_model c = cfg_model cfg"
  by (auto simp: load_catalog_def and_then_Ok_iff catalog_from_json_def catalog_wf_new split: if_splits)

lemma load_rules_wf:
  "load_rules pf cel thread cfg c = Ok rules \<Longrightarrow> rules_wf cel c rules
    \<and> (crs_model rules = any_model \<or> crs_model rules = cfg_model cfg \<or> rules = empty_ruleset)"
  by (auto simp: load_rules_def and_then_Ok_iff rules_wf_empty ruleset_Ok_iff header_errors_empty_iff
      split: option.splits)

lemma boot_Ok:
  assumes "boot pf cel thread now path d = (Ok st, d1)"
  shows "config_load pf path = Ok (st_config st)" and "load_catalog pf (st_config st) = Ok (st_catalog st)"
    and "load_rules pf cel thread (st_config st) (st_catalog st) = Ok (st_rules st)"
    and "writer_open (max_file_bytes (cfg_output (st_config st))) (cfg_max_files (cfg_output (st_config st))) d
      = (Ok (st_writer st), d1)"
    and "bind_udp pf (udp_bind (cfg_ingest (st_config st))) = Ok ()"
    and "st_engine st = apply_ruleset now (st_rules st) (engine_new (cfg_vin (st_config st)) (cfg_model (st_config st)))"
  using assms by (auto simp: boot_def split: result.splits prod.splits)

lemma boot_engine_wf:
  assumes "boot pf cel thread now path d = (Ok st, d1)"
  shows "engine_wf cel (st_catalog st) (st_engine st)" and "eng_rules (st_engine st) = st_rules st"
  using load_rules_wf [OF boot_Ok(3) [OF assms]]
  by (simp_all add: boot_Ok(6) [OF assms] apply_ruleset_wf engine_wf_new)

lemma boot_engine_state:
  assumes "boot pf cel thread now path d = (Ok st, d1)" and "r \<in> set (crs_rules (st_rules st))"
  shows "hm_get (eng_state (st_engine st)) (cr_id r) = Some (fresh_state now r)"
  using apply_ruleset_state [where cel = cel and c = "st_catalog st" and c' = "st_catalog st" and now = now,
      OF engine_wf_new _ assms(2)]
    load_rules_wf [OF boot_Ok(3) [OF assms(1)]]
  by (simp add: boot_Ok(6) [OF assms(1)] carried_state_def unchanged_rule_def engine_new_def empty_ruleset_def)

lemma writer_open_limits:
  "writer_open max_bytes max_files d = (Ok w, d') \<Longrightarrow> wr_max_bytes w = max_bytes \<and> wr_max_files w = max max_files 1"
  by (auto simp: writer_open_def split: result.splits prod.splits)

text \<open>C28: The daemon starts only when its parts agree: the configuration was accepted, the catalog is valid
  and is the one of the configured model, the rules compiled against this catalog and are for this
  model or for any (or there is no rules file and the rule set is empty), the engine satisfies its
  invariant with these rules, has no values yet and gives each periodic rule its first slot one interval after the
  start, and the output keeps at least one file of at least 1024 bytes.\<close>

theorem daemon_starts_consistently:
  assumes "boot pf cel thread now path d = (Ok st, d1)"
  shows "config_ok (st_config st) \<and> catalog_wf (st_catalog st) \<and> cat_model (st_catalog st) = cfg_model (st_config st)
    \<and> rules_wf cel (st_catalog st) (st_rules st)
    \<and> (if rules_file (st_config st) = None then st_rules st = empty_ruleset
       else crs_model (st_rules st) \<in> {any_model, cfg_model (st_config st)})
    \<and> engine_wf cel (st_catalog st) (st_engine st) \<and> eng_rules (st_engine st) = st_rules st
    \<and> eng_vin (st_engine st) = cfg_vin (st_config st) \<and> eng_model (st_engine st) = cfg_model (st_config st)
    \<and> eng_latest (st_engine st) = []
    \<and> (\<forall>r\<in>set (crs_rules (st_rules st)). hm_get (eng_state (st_engine st)) (cr_id r) = Some (fresh_state now r))
    \<and> 1024 \<le> wr_max_bytes (st_writer st) \<and> wr_max_files (st_writer st) = cfg_max_files (cfg_output (st_config st))"
proof -
  have cfg: "config_ok (st_config st)"
    using boot_Ok(1) [OF assms] by (auto simp: config_load_def and_then_Ok_iff config_parse_Ok_iff)
  have wr: "1024 \<le> wr_max_bytes (st_writer st) \<and> wr_max_files (st_writer st) = cfg_max_files (cfg_output (st_config st))"
    using writer_open_limits [OF boot_Ok(4) [OF assms]] cfg by (simp add: config_ok_def)
  have rules: "if rules_file (st_config st) = None then st_rules st = empty_ruleset
       else crs_model (st_rules st) \<in> {any_model, cfg_model (st_config st)}"
    using boot_Ok(3) [OF assms]
    by (auto simp: load_rules_def and_then_Ok_iff ruleset_Ok_iff header_errors_empty_iff split: option.splits)
  have "eng_vin (st_engine st) = cfg_vin (st_config st)" "eng_model (st_engine st) = cfg_model (st_config st)"
    "eng_latest (st_engine st) = []"
    by (simp_all add: boot_Ok(6) [OF assms] engine_new_def)
  with cfg wr rules show ?thesis
    using load_catalog_wf [OF boot_Ok(2) [OF assms]] load_rules_wf [OF boot_Ok(3) [OF assms]]
      boot_engine_wf [OF assms] boot_engine_state [OF assms]
    by blast
qed

text \<open>A platform with the files of a development set-up, each parsed to what it says.\<close>

text \<open>A platform with the given catalog and rule set, and what the daemon has when it has started there.\<close>

definition platform_of :: "catalog_spec \<Rightarrow> ruleset \<Rightarrow> string platform" where
  "platform_of spec rs =
     \<lparr>read_to_string = (\<lambda>path. Ok path),
      parse_toml = (\<lambda>text. Ok
        [(''vin'', TStr ''DEV0000001''), (''model'', TStr ''R1S''), (''catalog_path'', TStr ''catalogs/r1s.json''),
         (''rules_file'', TStr ''rulesets/default.json''),
         (''ingest'', TTable [(''udp_bind'', TStr ''127.0.0.1:5005'')]),
         (''output'', TTable [(''log_dir'', TStr ''out''), (''max_file_bytes'', TInt 2048), (''max_files'', TInt 3)])]),
      parse_addr = Some,
      show_addr = (\<lambda>a. a),
      parse_json = (\<lambda>text. Ok (if text = ''catalogs/r1s.json'' then spec_json spec else rules_json rs)),
      bind_udp = (\<lambda>a. Ok ())\<rparr>"

abbreviation "demo_platform \<equiv> platform_of r1s_spec demo_ruleset"

definition demo_config :: "string config" where
  "demo_config =
     \<lparr>cfg_vin = ''DEV0000001'', cfg_model = ''R1S'', catalog_path = ''catalogs/r1s.json'',
      rules_file = Some ''rulesets/default.json'', cfg_ingest = \<lparr>udp_bind = ''127.0.0.1:5005''\<rparr>,
      cfg_output = \<lparr>log_dir = ''out'', max_file_bytes = 2048, cfg_max_files = 3\<rparr>\<rparr>"

definition empty_disk :: disk where
  "empty_disk = \<lparr>dsk_names = [], dsk_inodes = [], dsk_next = 0, dsk_faults = []\<rparr>"

definition demo_started :: "(string, cel_expr) started" where
  "demo_started =
     \<lparr>st_config = demo_config, st_catalog = r1s, st_rules = demo_rules,
      st_writer = get_ok (fst (writer_open 2048 3 empty_disk)), st_engine = demo_engine\<rparr>"

lemma platform_config_loads: "config_load (platform_of spec rs) p = Ok demo_config"
proof -
  have "config_parse (parse_toml (platform_of spec rs)) (parse_addr (platform_of spec rs)) p = Ok demo_config"
    unfolding config_parse_Ok_iff
    by (simp add: platform_of_def config_from_table_def only_keys_def required_def defaulted_def
        ingest_from_table_def output_from_table_def demo_config_def config_ok_def trim_is_empty_def)
  then show ?thesis by (simp add: config_load_def platform_of_def with_context_def)
qed

lemma demo_compiled_first: "compile_ruleset ident_cel Joined demo_ruleset r1s ''R1S'' None = Ok demo_rules"
  using demo_rules_wf
  by (simp add: ruleset_Ok_iff header_errors_empty_iff) (simp add: demo_rules_def demo_rule_defs)

lemma r1s_model: "cat_model r1s = ''R1S''"
  by code_simp

lemma r1s_writable: "spec_writable r1s_spec"
  by code_simp

lemma demo_writable: "rules_writable demo_ruleset"
  by code_simp

definition started_of :: "catalog \<Rightarrow> cel_expr compiled_ruleset \<Rightarrow> (string, cel_expr) started" where
  "started_of c rules =
     \<lparr>st_config = demo_config, st_catalog = c, st_rules = rules,
      st_writer = get_ok (fst (writer_open 2048 3 empty_disk)),
      st_engine = apply_ruleset 0 rules (engine_new ''DEV0000001'' ''R1S'')\<rparr>"

lemma platform_boot:
  assumes "spec_writable spec" and "catalog_new spec = Ok c" and "cat_model c = ''R1S''"
    and "rules_writable rs" and "compile_ruleset ident_cel Joined rs c ''R1S'' None = Ok rules"
  shows "boot (platform_of spec rs) ident_cel Joined 0 ''c.toml'' empty_disk
    = (Ok (started_of c rules), snd (writer_open 2048 3 empty_disk))"
proof -
  have cat: "load_catalog (platform_of spec rs) demo_config = Ok c"
    by (simp add: load_catalog_def platform_of_def demo_config_def with_context_def catalog_from_json_def
        from_str_def spec_de_ser assms)
  have rules: "load_rules (platform_of spec rs) ident_cel Joined demo_config c = Ok rules"
    by (simp add: load_rules_def platform_of_def demo_config_def with_context_def ruleset_from_json_def
        from_str_def rules_de_ser assms)
  have w: "writer_open 2048 3 empty_disk = (Ok (st_writer (started_of c rules)), snd (writer_open 2048 3 empty_disk))"
    by (simp add: started_of_def writer_open_def os_open_append_def os_call_def next_fault_def empty_disk_def
        open_create_def)
  have "max_file_bytes (cfg_output demo_config) = 2048" "cfg_max_files (cfg_output demo_config) = 3"
    "bind_udp (platform_of spec rs) (udp_bind (cfg_ingest demo_config)) = Ok ()"
    "cfg_vin demo_config = ''DEV0000001''" "cfg_model demo_config = ''R1S''"
    by (simp_all add: demo_config_def platform_of_def)
  then show ?thesis
    by (simp add: boot_def platform_config_loads cat rules) (subst w, simp add: started_of_def)
qed

lemma demo_boot:
  "boot demo_platform ident_cel Joined 0 ''c.toml'' empty_disk
    = (Ok demo_started, snd (writer_open 2048 3 empty_disk))"
proof -
  have "started_of r1s demo_rules = demo_started"
    by (simp add: started_of_def demo_started_def demo_engine_def)
  with platform_boot [OF r1s_writable r1s_new r1s_model demo_writable demo_compiled_first] show ?thesis by simp
qed

theorem daemon_starts_consistently_witness:
  "config_ok (st_config demo_started) \<and> catalog_wf (st_catalog demo_started)
    \<and> cat_model (st_catalog demo_started) = ''R1S''
    \<and> rules_wf ident_cel (st_catalog demo_started) (st_rules demo_started)
    \<and> engine_wf ident_cel (st_catalog demo_started) (st_engine demo_started)
    \<and> eng_vin (st_engine demo_started) = ''DEV0000001'' \<and> eng_latest (st_engine demo_started) = []
    \<and> hm_get (eng_state (st_engine demo_started)) (cr_id speed_rule) = Some (fresh_state 0 speed_rule)
    \<and> 1024 \<le> wr_max_bytes (st_writer demo_started) \<and> wr_max_files (st_writer demo_started) = 3"
proof -
  have "cfg_model (st_config demo_started) = ''R1S''" "cfg_vin (st_config demo_started) = ''DEV0000001''"
    "speed_rule \<in> set (crs_rules (st_rules demo_started))" "cfg_max_files (cfg_output (st_config demo_started)) = 3"
    by (simp_all add: demo_started_def demo_config_def)
  with daemon_starts_consistently [OF demo_boot] show ?thesis by simp
qed

section \<open>Ingest\<close>

lemma datagrams_leave_a_trace:
  "1 \<le> length (received_samples c bs) + received_unknown c bs + length (received_errors c bs)"
proof (cases "decode_packet (take RECV_BUFFER_LEN bs) c")
  case (Err e)
  then show ?thesis by (simp add: received_errors_def)
next
  case (Ok d)
  then show ?thesis
  proof (cases rule: decode_packet_Ok_cases)
    case (whole n fs zs)
    then have "0 < length fs" by (auto simp: count_ok_def)
    with frames_outcome_total [of c fs 0] have "1 \<le> length (List.map_filter (frame_sample c) fs)
        + length (filter (frame_unknown c) fs) + length (List.map_filter (frame_failure c) (enumerate 0 fs))"
      by linarith
    with whole(5) Ok show ?thesis
      by (simp add: frames_outcome_def received_samples_def received_unknown_def received_errors_def
          with_trailing_def push_error_def)
  next
    case (cut n fs zs)
    with Ok show ?thesis by (simp add: received_errors_def with_truncated_def push_error_def)
  qed
qed

text \<open>C25: Ingest accounts for every datagram. Up to the stop signal or a socket error it counts each datagram,
  the bytes of it that fit the buffer, its decoded frames and unknown ids, and under its label every
  reason for a rejection, of the packet or of a frame; it forwards exactly the decoded samples, in
  order; and no datagram passes without being counted as a sample, an unknown id or an error.\<close>

theorem ingest_accounts_for_every_datagram:
  "case run_udp c evs (ingest_stats_default, channel) of (how, stats, tx) \<Rightarrow>
    how = ingest_ends evs
    \<and> tx_sent tx = concat (map (received_samples c) (datagrams_of evs))
    \<and> ing_packets stats = of_nat (length (datagrams_of evs))
    \<and> ing_bytes stats = of_nat (sum_list (map (\<lambda>bs. min (length bs) 3000) (datagrams_of evs)))
    \<and> ing_frames_decoded stats = of_nat (length (tx_sent tx))
    \<and> ing_unknown_signals stats = of_nat (sum_list (map (received_unknown c) (datagrams_of evs)))
    \<and> (\<forall>reason. hm_count (ing_decode_errors stats) reason =
         of_nat (count_list (concat (map (received_errors c) (datagrams_of evs))) reason))
    \<and> (\<forall>bs. 1 \<le> length (received_samples c bs) + received_unknown c bs + length (received_errors c bs))"
  using ingest_open [of channel c evs ingest_stats_default] datagrams_leave_a_trace [of c]
  by (simp add: channel_def fold_add_datagram ingest_stats_default_def hm_count_bumps RECV_BUFFER_LEN_def
      MAX_DATAGRAM_LEN_def)

text \<open>When the engine goes away, ingest has forwarded as many samples as it took, none lost in between
  and none out of order, and it stops instead of decoding for nobody.\<close>

theorem ingest_stops_with_the_engine:
  "case run_udp c evs (stats, tx) of (how, stats', tx') \<Rightarrow>
    tx_sent tx' = tx_sent tx @ tx_takes tx (concat (map (received_samples c) (datagrams_of evs)))"
  by (rule ingest_forwards)

section \<open>The engine task\<close>

text \<open>C26: The engine task is the engine: over its rounds the engine makes exactly the run of ticks and samples
  the task saw, every record is sent on in order, and the statistics count the samples and, by rule,
  the records, evaluation errors and stale skips.\<close>

theorem engine_task_runs_the_engine:
  "case engine_task_run cel rds e (engine_stats_default, channel) of (ended, e', (stats, tx), sleeps) \<Rightarrow>
    (case run (engine_handle cel) (rounds_trace rds) e of (e1, reports) \<Rightarrow>
      e' = e1 \<and> tx_sent tx = concat (map records reports)
      \<and> est_samples stats = of_nat (length (rounds_samples rds))
      \<and> (\<forall>i. hm_count (est_records stats) i
             = of_nat (length (filter (\<lambda>l. lr_rule_id l = i) (tx_sent tx)))
          \<and> hm_count (est_eval_errors stats) i = of_nat (count_list (map fst (concat (map eval_errors reports))) i)
          \<and> hm_count (est_stale_skips stats) i = of_nat (count_list (concat (map stale_skips reports)) i)))"
proof -
  have "tx_room channel = None" by (simp add: channel_def)
  from engine_task_open [OF this, of cel rds e engine_stats_default] obtain sleeps where
    run_eq: "engine_task_run cel rds e (engine_stats_default, channel) =
      (\<exists>rd\<in>set rds. rd_wake rd = Closed, fst (run (engine_handle cel) (rounds_trace rds) e),
       ((fold count_report (snd (run (engine_handle cel) (rounds_trace rds) e)) engine_stats_default)
          \<lparr>est_samples := est_samples engine_stats_default + of_nat (length (rounds_samples rds))\<rparr>,
        channel\<lparr>tx_sent := tx_sent channel @ concat (map records (snd (run (engine_handle cel) (rounds_trace rds) e)))\<rparr>),
       sleeps)"
    by blast
  have ids: "count_list (map lr_rule_id ls) i = length (filter (\<lambda>l. lr_rule_id l = i) ls)" for ls i
    by (induction ls) simp_all
  show ?thesis
    unfolding run_eq
    by (simp add: split_beta fold_count_report engine_stats_default_def hm_count_bumps channel_def ids
        del: map_concat)
qed

text \<open>C27: The task sleeps until the next slot and no longer. After a tick, when a rule has a
  due time, the sleep, counted from the clock reading it was computed with, ends at the
  earliest due time or at once when that has passed. So it never sleeps past the slot of a rule, and
  when it sleeps at all, a tick during the sleep would have done nothing.\<close>

theorem task_sleeps_until_the_next_slot:
  assumes "engine_wf cel c e" and "e1 = fst (tick cel now e)"
    and "hm_get (eng_state e1) i = Some st" and "next_due_ms st = Some due"
  shows "unat t + unat (sleep_for t e1) \<le> max (unat t) (unat due)
    \<and> (\<exists>j st' due'. hm_get (eng_state e1) j = Some st' \<and> next_due_ms st' = Some due'
        \<and> unat t + unat (sleep_for t e1) = max (unat t) (unat due'))
    \<and> (\<forall>t'. 0 < sleep_for t e1 \<longrightarrow> unat t' < unat t + unat (sleep_for t e1) \<longrightarrow>
         tick cel t' e1 = (e1, report_default))"
proof -
  have wf: "engine_wf cel c e1" unfolding assms(2) by (rule tick_wf [OF assms(1)])
  then have hm: "hm_wf (eng_state e1)" using engine_wfD(4) by (auto simp: state_wf_def)
  obtain d where d: "next_deadline_ms e1 = Some d"
    using next_deadline_iff(1) [OF hm] assms(3,4) by fastforce
  then obtain j st' where j: "hm_get (eng_state e1) j = Some st'" "next_due_ms st' = Some d" and le: "d \<le> due"
    using next_deadline_iff(2) [OF hm, of d] assms(3,4) by blast
  have sum: "unat t + unat (sleep_for t e1) = max (unat t) (unat d)"
    using sleep_reaches_deadline [OF hm, of t] d by simp
  have early: "tick cel t' e1 = (e1, report_default)"
    if "0 < sleep_for t e1" "unat t' < unat t + unat (sleep_for t e1)" for t'
  proof (rule tick_early [OF wf])
    fix d' assume "next_deadline_ms e1 = Some d'"
    with d that sum show "t' < d'"
      by (auto simp: word_less_nat_alt max_def split: if_splits)
  qed
  have "unat d \<le> unat due" using le by (simp add: word_le_nat_alt)
  with sum j early show ?thesis by auto
qed

lemma demo_first_slot:
  "hm_get (eng_state (fst (tick ident_cel 0 demo_engine))) (cr_id speed_rule) = Some (fresh_state 0 speed_rule)"
proof -
  have "periodic_step ident_cel demo_engine 0 speed_rule (fresh_state 0 speed_rule)
      = (fresh_state 0 speed_rule, report_default)"
    by (simp add: periodic_step_def speed_rule_def fresh_state_def saturating_add_u64_def is_due_def)
  with tick_state [OF demo_engine_wf _ demo_engine_state, of speed_rule 0] show ?thesis by simp
qed

theorem task_sleeps_until_the_next_slot_witness:
  "unat (250 :: u64) + unat (sleep_for 250 (fst (tick ident_cel 0 demo_engine))) \<le> 1000
    \<and> (\<exists>j st' due'. hm_get (eng_state (fst (tick ident_cel 0 demo_engine))) j = Some st' \<and> next_due_ms st' = Some due'
        \<and> unat (250 :: u64) + unat (sleep_for 250 (fst (tick ident_cel 0 demo_engine))) = max 250 (unat due'))"
proof -
  have "next_due_ms (fresh_state 0 speed_rule) = Some 1000"
    by (simp add: fresh_state_def speed_rule_def saturating_add_u64_def)
  from task_sleeps_until_the_next_slot [OF demo_engine_wf refl demo_first_slot this, of 250] show ?thesis
    by simp
qed

section \<open>Output\<close>

lemma log_adds_fit:
  assumes "A 0 = Some cur" and "length cur + length (unlines ls) \<le> max_bytes"
  shows "fold (log_add max_bytes n) ls A = A(0 := Some (cur @ unlines ls))"
  using assms
proof (induction ls arbitrary: A cur)
  case Nil
  then show ?case by auto
next
  case (Cons l ls)
  then have "log_add max_bytes n l A = A(0 := Some (cur @ l @ [10]))"
    by (simp add: log_add_def Let_def)
  moreover have "fold (log_add max_bytes n) ls (A(0 := Some (cur @ l @ [10])))
      = (A(0 := Some (cur @ l @ [10])))(0 := Some ((cur @ l @ [10]) @ unlines ls))"
    by (rule Cons.IH) (use Cons.prems in simp_all)
  ultimately show ?case by simp
qed

lemma log_adds_fresh_fit:
  assumes "length (unlines ls) \<le> max_bytes" and "0 < n"
  shows "log_text n (fold (log_add max_bytes n) ls fresh_log) = unlines ls"
proof -
  have "fresh_log 0 = Some []" by (simp add: fresh_log_def)
  with log_adds_fit [of fresh_log "[]" ls max_bytes n] assms(1)
  have "fold (log_add max_bytes n) ls fresh_log = fresh_log(0 := Some ([] @ unlines ls))" by simp
  then show ?thesis
    using log_text_append [where A = fresh_log and cur = "[]", OF assms(2)]
    by (simp add: fresh_log_eq log_text_fresh)
qed

text \<open>C19: While the file system does not fail, the output keeps the newest lines. Started in an empty directory,
  it counts every record as written; the files are exactly those of the specification, which adds a
  line to the current file after moving all files up when the line would not fit; so the log from the oldest
  file to the current one is a suffix of all lines written, and all of them when they fit into one file; at most \<open>max_files\<close> files exist, and each
  holds whole lines, within the size limit unless it is a single longer line.\<close>

theorem output_keeps_the_newest_lines:
  assumes "dsk_names d = []" and "dsk_faults d = []" and "writer_open max_bytes max_files d = (Ok w, d1)"
    and "\<forall>r\<in>set (concat batches). to_vec r = Ok (line r)"
  shows "case output_run to_vec batches w d1 of (stats, _, d2) \<Rightarrow>
    stats = \<lparr>records_written = of_nat (length (concat batches)), write_errors = 0\<rparr>
    \<and> disk_file d2 = fold (log_add max_bytes (max max_files 1)) (map line (concat batches)) fresh_log
    \<and> suffix (disk_log (max max_files 1) d2) (unlines (map line (concat batches)))
    \<and> (length (unlines (map line (concat batches))) \<le> max_bytes \<longrightarrow>
         disk_log (max max_files 1) d2 = unlines (map line (concat batches)))
    \<and> (\<forall>i b. disk_file d2 i = Some b \<longrightarrow> i < max max_files 1 \<and> whole_lines max_bytes b)"
  using output_run_fresh [OF assms(1-3), of batches to_vec line] assms(4)
    log_adds_fresh [of max_files max_bytes "map line (concat batches)"]
    log_adds_fresh_fit [of "map line (concat batches)" max_bytes "max max_files 1"]
  by (auto simp: disk_log_def)

theorem output_keeps_the_newest_lines_witness:
  "case output_run (\<lambda>b. Ok b) [[[1, 2], [3]], [[4, 5, 6 :: u8]]] (get_ok (fst (writer_open 5 2 empty_disk)))
      (snd (writer_open 5 2 empty_disk)) of (stats, _, d2) \<Rightarrow>
    stats = \<lparr>records_written = 3, write_errors = 0\<rparr>
    \<and> disk_file d2 0 = Some [4, 5, 6, 10] \<and> disk_file d2 1 = Some [1, 2, 10, 3, 10] \<and> disk_file d2 2 = None"
proof -
  have "writer_open 5 2 empty_disk
      = (Ok (get_ok (fst (writer_open 5 2 empty_disk))), snd (writer_open 5 2 empty_disk))"
    by (simp add: writer_open_def os_open_append_def os_call_def next_fault_def empty_disk_def open_create_def)
  from output_keeps_the_newest_lines [OF _ _ this, of "[[[1, 2], [3]], [[4, 5, 6]]]" "\<lambda>b. Ok b" "\<lambda>b. b"]
  show ?thesis
    by (auto simp: empty_disk_def log_add_def log_rotate_def shifted_def fresh_log_def Let_def split: prod.splits)
qed

text \<open>A directory with three files, whose last one is due for rotation, and an operating system that moves
  files but cannot open a new one.\<close>

definition full_disk :: "u8 list \<Rightarrow> u8 list \<Rightarrow> u8 list \<Rightarrow> disk" where
  "full_disk b0 b1 b2 =
     \<lparr>dsk_names = [(path_of 0, 0), (path_of 1, 1), (path_of 2, 2)], dsk_inodes = [(0, b0), (1, b1), (2, b2)],
      dsk_next = 3,
      dsk_faults = replicate 7 NoFault @ [FailsAfter 0] @ replicate 5 NoFault @ [FailsAfter 0]
        @ replicate 2 NoFault @ [FailsAfter 0]\<rparr>"

definition due_writer :: "nat \<Rightarrow> writer" where
  "due_writer n = \<lparr>wr_max_bytes = n, wr_max_files = 3, wr_file = 0, wr_buffer = [], wr_size = Suc n\<rparr>"

text \<open>C32: Whatever calls of the file system fail, every record the output took is counted once: as
  written exactly when its whole line with the newline was added to the current file, and as a write error
  otherwise, in which case at most a proper prefix of its line was added. When the thread ends, the
  current file holds what it held before and all these bytes, or those since the last rotation; only
  bytes whose final flush failed may be missing at its end.\<close>

theorem output_accounts_for_every_record:
  "case output_run to_vec batches w d of (stats, w', d') \<Rightarrow>
    records_written stats + write_errors stats = of_nat (length (concat batches))
    \<and> (\<exists>cs lost. list_all2 (chunk_of to_vec) (concat batches) cs
      \<and> records_written stats = of_nat (length (filter (\<lambda>(r, c). whole_chunk to_vec r c) (zip (concat batches) cs)))
      \<and> write_errors stats = of_nat (length (filter (\<lambda>(r, c). \<not> whole_chunk to_vec r c) (zip (concat batches) cs)))
      \<and> since (current w d) cs (inode_bytes d' (wr_file w') @ lost)
      \<and> (wr_buffer w' = [] \<longrightarrow> lost = []))"
proof -
  obtain stats w' d' where out: "output_run to_vec batches w d = (stats, w', d')" by (metis prod_cases3)
  from output_run_counts [OF out] obtain cs lost
    where c: "counted to_vec (concat batches) cs output_stats_default stats"
      and f: "since (current w d) cs (inode_bytes d' (wr_file w') @ lost)" "wr_buffer w' = [] \<longrightarrow> lost = []"
    by blast
  with output_run_total [OF out] show ?thesis
    by (auto simp: out counted_def output_stats_default_def)
qed

theorem output_accounts_for_every_record_witness:
  "\<exists>stats w' d' cs. output_run (\<lambda>b. if b = [] then Err IoError else Ok b) [[[1], [], [2 :: u8]]]
      (due_writer 5) (full_disk [10] [11] [12]) = (stats, w', d')
    \<and> records_written stats + write_errors stats = 3 \<and> length cs = 3
    \<and> list_all2 (chunk_of (\<lambda>b. if b = [] then Err IoError else Ok b)) [[1], [], [2]] cs"
proof -
  let ?to_vec = "\<lambda>b :: u8 list. if b = [] then Err IoError else Ok b"
  obtain stats w' d' where out: "output_run ?to_vec [[[1], [], [2 :: u8]]] (due_writer 5) (full_disk [10] [11] [12]) = (stats, w', d')"
    by (rule prod_cases3)
  have recs: "concat [[[1], [], [2 :: u8]]] = [[1], [], [2]]" "length [[1], [], [2 :: u8]] = 3" by simp_all
  obtain cs where "records_written stats + write_errors stats = of_nat 3"
    and cs: "list_all2 (chunk_of ?to_vec) [[1], [], [2]] cs"
    using output_accounts_for_every_record
        [where to_vec = ?to_vec and batches = "[[[1], [], [2]]]" and w = "due_writer 5" and d = "full_disk [10] [11] [12]"]
    unfolding out prod.case recs by blast
  moreover have "length cs = 3" using list_all2_lengthD [OF cs] by simp
  ultimately show ?thesis using out by auto
qed

text \<open>C31: A rotation that cannot open the new file (no descriptors or no inodes are left) has moved the
  others already, and every retry moves them again: over a full log of \<open>max_files\<close> files, as long as
  only the opening fails, \<open>m\<close> records that are due for rotation are \<open>m\<close> write errors and cost
  the log its \<open>m\<close> oldest files, although nothing was written. From \<open>max_files - 1\<close> on nothing moves any
  more: the newest file survives, under the name of the oldest.\<close>

theorem failed_rotations_lose_files:
  assumes "names_ok d" and "0 < wr_max_files w" and "\<forall>i<wr_max_files w. disk_file d i \<noteq> None"
    and "wr_buffer w = []" and "0 < wr_size w"
    and "\<forall>r\<in>set rs. \<exists>line. to_vec r = Ok line \<and> wr_max_bytes w < wr_size w + (length line + 1)"
    and "\<forall>i<length rs. case fold (write_record to_vec) (take i rs) (stats, w, d) of (_, w', d') \<Rightarrow> open_fails w' d'"
  shows "\<exists>d'. fold (write_record to_vec) rs (stats, w, d)
      = (stats\<lparr>write_errors := write_errors stats + of_nat (length rs)\<rparr>, w, d')
    \<and> (\<forall>i. disk_file d' i =
         (let m = min (length rs) (wr_max_files w - 1)
          in if i < m then None else if i < wr_max_files w then disk_file d (i - m) else disk_file d i))"
proof -
  have "disk_file d = moved_up (wr_max_files w) 0 (disk_file d)" by (simp add: moved_up_def fun_eq_iff)
  from failed_rotations [OF _ assms(2,4,5,1) this, of rs to_vec stats] assms(3,6,7) show ?thesis
    by (auto simp: moved_up_def)
qed

lemma full_disk_files:
  "names_ok (full_disk b0 b1 b2)"
  "disk_file (full_disk b0 b1 b2) = (\<lambda>_. None)(0 := Some b0, 1 := Some b1, 2 := Some b2)"
proof -
  have get: "hm_get (dsk_names (full_disk b0 b1 b2)) p =
      (if p = path_of 0 then Some 0 else if p = path_of 1 then Some 1 else if p = path_of 2 then Some 2 else None)" for p
    by (simp add: full_disk_def hm_get_def)
  have "distinct (map fst (dsk_names (full_disk b0 b1 b2)))" by (simp add: full_disk_def)
  then show "names_ok (full_disk b0 b1 b2)"
    unfolding names_ok_def get by (auto simp: hm_wf_def full_disk_def split: if_splits)
  show "disk_file (full_disk b0 b1 b2) = (\<lambda>_. None)(0 := Some b0, 1 := Some b1, 2 := Some b2)"
    by (auto simp: disk_file_def get fun_eq_iff inode_bytes_def full_disk_def hm_get_def)
qed

theorem failed_rotations_lose_files_witness:
  "\<exists>d'. fold (write_record Ok) [[1], [2], [3]] (output_stats_default, due_writer 5, full_disk [10] [11] [12])
      = (\<lparr>records_written = 0, write_errors = 3\<rparr>, due_writer 5, d')
    \<and> map (disk_file d') [0, 1, 2] = [None, None, Some [10]]"
proof -
  let ?w = "due_writer 5" and ?d = "full_disk [10] [11] [12]"
  have w: "wr_buffer ?w = []" "0 < wr_size ?w" "wr_max_bytes ?w < wr_size ?w + (length line + 1)"
    "wr_max_files ?w - 1 = Suc (Suc 0)" for line
    by (simp_all add: due_writer_def)
  note d = full_disk_files [of "[10]" "[11]" "[12]"]
  let ?fs2 = "replicate 2 NoFault @ [FailsAfter 0]"
  let ?fs1 = "replicate 5 NoFault @ FailsAfter 0 # ?fs2"
  have calls0: "shift_calls (wr_max_files ?w - 1) (disk_file ?d) = 7" unfolding w(4) by (simp add: d(2) move_up_def)
  have f0: "dsk_faults ?d = replicate (shift_calls (wr_max_files ?w - 1) (disk_file ?d)) NoFault @ FailsAfter 0 # ?fs1"
    unfolding calls0 by (simp add: full_disk_def)
  from failed_open [OF d(1) w(1-3) f0, of "[1]"] obtain d1 where
    d1: "write_line [1] ?w ?d = (Err IoError, ?w, d1)" "names_ok d1"
      "disk_file d1 = shifted (wr_max_files ?w - 1) (disk_file ?d)" "dsk_faults d1 = ?fs1" by blast
  have files1: "disk_file d1 = (\<lambda>_. None)(1 := Some [10], 2 := Some [11])"
    unfolding d1(3) w(4) d(2) by (auto simp: shifted_def fun_eq_iff)
  have calls1: "shift_calls (wr_max_files ?w - 1) (disk_file d1) = 5" unfolding w(4) by (simp add: files1 move_up_def)
  have f1: "dsk_faults d1 = replicate (shift_calls (wr_max_files ?w - 1) (disk_file d1)) NoFault @ FailsAfter 0 # ?fs2"
    unfolding calls1 d1(4) by simp
  from failed_open [OF d1(2) w(1-3) f1, of "[2]"] obtain d2 where
    d2: "write_line [2] ?w d1 = (Err IoError, ?w, d2)"
      "disk_file d2 = shifted (wr_max_files ?w - 1) (disk_file d1)" "dsk_faults d2 = ?fs2" by blast
  have files2: "disk_file d2 = (\<lambda>_. None)(2 := Some [10])"
    unfolding d2(2) w(4) files1 by (auto simp: shifted_def fun_eq_iff)
  have calls2: "shift_calls (wr_max_files ?w - 1) (disk_file d2) = 2" unfolding w(4) by (simp add: files2 move_up_def)
  have f2: "dsk_faults d2 = replicate (shift_calls (wr_max_files ?w - 1) (disk_file d2)) NoFault @ FailsAfter 0 # []"
    unfolding calls2 d2(3) by simp
  have opens: "open_fails ?w ?d" "open_fails ?w d1" "open_fails ?w d2"
    unfolding open_fails_def using f0 f1 f2 by blast+
  let ?rs = "[[1], [2], [3]] :: u8 list list"
  have all: "\<forall>i<length ?rs. case fold (write_record Ok) (take i ?rs) (output_stats_default, ?w, ?d) of
      (_, w', d') \<Rightarrow> open_fails w' d'"
    using opens by (auto simp: less_Suc_eq write_record_def d1(1) d2(1))
  have "\<forall>i<wr_max_files ?w. disk_file ?d i \<noteq> None" by (auto simp: due_writer_def d(2))
  moreover have "\<forall>r\<in>set ?rs. \<exists>line. Ok r = (Ok line :: (io_error, u8 list) result) \<and> wr_max_bytes ?w < wr_size ?w + (length line + 1)"
    by (simp add: due_writer_def)
  moreover have "0 < wr_max_files ?w" by (simp add: due_writer_def)
  ultimately obtain d' where "fold (write_record Ok) ?rs (output_stats_default, ?w, ?d)
      = (output_stats_default\<lparr>write_errors := write_errors output_stats_default + of_nat (length ?rs)\<rparr>, ?w, d')"
    and files: "\<forall>i. disk_file d' i =
         (let m = min (length ?rs) (wr_max_files ?w - 1)
          in if i < m then None else if i < wr_max_files ?w then disk_file ?d (i - m) else disk_file ?d i)"
    using failed_rotations_lose_files [OF d(1) _ _ w(1,2) _ all] by blast
  moreover have "map (disk_file d') [0, 1, 2] = [None, None, Some [10]]"
    using files by (simp add: w(4) Let_def d(2)) (simp add: due_writer_def)
  ultimately show ?thesis by (auto simp: output_stats_default_def)
qed

section \<open>From the first datagram to the shutdown\<close>

lemma task_counts:
  "\<exists>ended e' stats tx sleeps. engine_task_run cel rds e (engine_stats_default, channel) = (ended, e', (stats, tx), sleeps)
    \<and> est_samples stats = of_nat (length (rounds_samples rds))
    \<and> (\<forall>i. hm_count (est_records stats) i = of_nat (length (filter (\<lambda>l. lr_rule_id l = i) (emitted cel rds e))))"
proof -
  have "tx_room channel = None" by (simp add: channel_def)
  note run_eq = engine_task_open [OF this, of cel rds e engine_stats_default]
  have ids: "count_list (map lr_rule_id ls) i = length (filter (\<lambda>l. lr_rule_id l = i) ls)" for ls i
    by (induction ls) simp_all
  have "est_samples engine_stats_default = 0" "est_records engine_stats_default = []"
    by (simp_all add: engine_stats_default_def)
  with run_eq show ?thesis
    by (auto simp: fold_count_report hm_count_bumps ids emitted_eq simp del: map_concat)
qed

lemma rounds_samples_for:
  "samples_for name (rounds_trace rds :: 'p event list) =
    map (\<lambda>s. (smp_timestamp_us s, smp_value s)) (filter (\<lambda>s. smp_name s = name) (rounds_samples rds))"
  by (induction rds) (simp_all split: wake.split)

lemma records_of_rule:
  "concat (map records (map (project i) reps)) = filter (\<lambda>l. lr_rule_id l = i) (concat (map records reps))"
  by (induction reps) (simp_all add: project_def)

text \<open>C16: An orderly shutdown loses nothing. When the daemon was started on an empty output directory, no
  call of the file system fails and the queues have drained, every decoded sample was evaluated, every record of the engine is counted once
  under its rule and was written, and the log on disk is a suffix of the lines of all records: all of them, when
  they fit into one file.\<close>

theorem orderly_shutdown_loses_nothing:
  assumes "boot pf cel thread now path d = (Ok st, d1)" and "dsk_names d = []" and "dsk_faults d = []"
    and "orderly cel ses st" and "\<forall>l\<in>set (concat (ses_batches ses)). to_vec l = Ok (line l)"
  shows "case daemon_run cel to_vec ses st d1 of (istats, estats, ostats, d2) \<Rightarrow>
    est_samples estats = ing_frames_decoded istats
    \<and> (\<forall>i. hm_count (est_records estats) i
          = of_nat (length (filter (\<lambda>l. lr_rule_id l = i) (concat (ses_batches ses)))))
    \<and> records_written ostats = of_nat (length (concat (ses_batches ses))) \<and> write_errors ostats = 0
    \<and> suffix (disk_log (wr_max_files (st_writer st)) d2) (unlines (map line (concat (ses_batches ses))))
    \<and> (length (unlines (map line (concat (ses_batches ses)))) \<le> wr_max_bytes (st_writer st) \<longrightarrow>
         disk_log (wr_max_files (st_writer st)) d2 = unlines (map line (concat (ses_batches ses))))"
proof -
  let ?n = "max (cfg_max_files (cfg_output (st_config st))) 1"
  have limits: "wr_max_files (st_writer st) = ?n"
    "wr_max_bytes (st_writer st) = max_file_bytes (cfg_output (st_config st))"
    using writer_open_limits [OF boot_Ok(4) [OF assms(1)]] by simp_all
  have ingest: "ing_frames_decoded (fst (snd (run_udp (st_catalog st) (ses_ingest ses) (ingest_stats_default, channel))))
      = of_nat (length (forwarded (st_catalog st) (ses_ingest ses)))"
    using ingest_open [of channel "st_catalog st" "ses_ingest ses" ingest_stats_default]
    by (simp add: forwarded_eq channel_def fold_add_datagram ingest_stats_default_def)
  obtain ended e' estats tx sleeps where
    task: "engine_task_run cel (ses_rounds ses) (st_engine st) (engine_stats_default, channel)
        = (ended, e', (estats, tx), sleeps)"
    and samples: "est_samples estats = of_nat (length (rounds_samples (ses_rounds ses)))"
    and counts: "\<And>i. hm_count (est_records estats) i
        = of_nat (length (filter (\<lambda>l. lr_rule_id l = i) (emitted cel (ses_rounds ses) (st_engine st))))"
    using task_counts by metis
  have disk: "case output_run to_vec (ses_batches ses) (st_writer st) d1 of (ostats, _, d2) \<Rightarrow>
    ostats = \<lparr>records_written = of_nat (length (concat (ses_batches ses))), write_errors = 0\<rparr>
    \<and> disk_file d2 = fold (log_add (max_file_bytes (cfg_output (st_config st))) ?n)
        (map line (concat (ses_batches ses))) fresh_log"
    by (rule output_run_fresh [OF assms(2,3) boot_Ok(4) [OF assms(1)]]) (use assms(5) in auto)
  show ?thesis
    using assms(4) disk ingest
      log_adds_fresh [of "cfg_max_files (cfg_output (st_config st))"
        "max_file_bytes (cfg_output (st_config st))" "map line (concat (ses_batches ses))"]
      log_adds_fresh_fit [of "map line (concat (ses_batches ses))" "max_file_bytes (cfg_output (st_config st))" ?n]
    by (auto simp: daemon_run_def orderly_def task samples counts limits disk_log_def split: prod.splits)
qed

text \<open>A session on one packet with the battery at 50 percent, then the same packet cut short, then the stop.\<close>

definition soc_bytes :: "u8 list" where
  "soc_bytes = header_bytes 1 @ frame_bytes \<lparr>rf_signal_id = 258, rf_timestamp_us = 9, rf_payload = [100]\<rparr>"

text \<open>The session of a started daemon in which every sample is handled as it arrives, and the output
  takes all records at once.\<close>

definition session_for :: "('a, cel_expr) started \<Rightarrow> ingest_event list \<Rightarrow> session" where
  "session_for st evs =
     (let rds = map (\<lambda>s. \<lparr>rd_tick_ms = 1, rd_sleep_ms = 2, rd_wake = GotSample 3 s\<rparr>) (forwarded (st_catalog st) evs)
            @ [\<lparr>rd_tick_ms = 4, rd_sleep_ms = 4, rd_wake = Closed\<rparr>]
      in \<lparr>ses_ingest = evs, ses_rounds = rds, ses_batches = [emitted ident_cel rds (st_engine st)]\<rparr>)"

lemma session_for_orderly:
  assumes "ingest_ends evs = Returned"
  shows "orderly ident_cel (session_for st evs) st"
proof -
  have "tx_room channel = None" by (simp add: channel_def)
  note ends = ingest_open [OF this]
  have "rounds_samples (map (\<lambda>s. \<lparr>rd_tick_ms = 1, rd_sleep_ms = 2, rd_wake = GotSample 3 s\<rparr>) ss
      @ [\<lparr>rd_tick_ms = 4, rd_sleep_ms = 4, rd_wake = Closed\<rparr>]) = ss" for ss
    by (induction ss) simp_all
  then show ?thesis
    using assms by (simp add: orderly_def session_for_def Let_def ends)
qed

definition demo_session :: session where
  "demo_session = session_for demo_started [Datagram soc_bytes, StatsDue, Datagram (take 10 soc_bytes), StopChanged]"

lemma demo_orderly: "orderly ident_cel demo_session demo_started"
  unfolding demo_session_def by (rule session_for_orderly) simp

theorem orderly_shutdown_loses_nothing_witness:
  "case daemon_run ident_cel (\<lambda>l. Ok (map of_char (lr_rule_id l))) demo_session demo_started
      (snd (writer_open 2048 3 empty_disk)) of (istats, estats, ostats, d2) \<Rightarrow>
    est_samples estats = ing_frames_decoded istats
    \<and> records_written ostats = of_nat (length (concat (ses_batches demo_session))) \<and> write_errors ostats = 0
    \<and> suffix (disk_log (wr_max_files (st_writer demo_started)) d2)
        (unlines (map (\<lambda>l. map of_char (lr_rule_id l)) (concat (ses_batches demo_session))))"
  using orderly_shutdown_loses_nothing [OF demo_boot _ _ demo_orderly,
      of "\<lambda>l. Ok (map of_char (lr_rule_id l))" "\<lambda>l. map of_char (lr_rule_id l)"]
  by (auto simp: empty_disk_def split: prod.splits)

text \<open>What a rule has logged in a session is what its machine has logged.\<close>

lemma session_points:
  fixes cel :: "('p, 'v) cel"
  assumes "boot pf cel thread now path d = (Ok st, d1)" and "orderly cel ses st"
    and "r \<in> set (crs_rules (st_rules st))"
  shows "map (\<lambda>l. (lr_ts_us l, lr_value l)) (filter (\<lambda>l. lr_rule_id l = cr_id r) (concat (ses_batches ses))) =
    logged_points (snd (run (rule_handle cel (st_engine st) r) (rounds_trace (ses_rounds ses))
      (eng_latest (st_engine st), fresh_state now r)))"
proof -
  let ?tr = "rounds_trace (ses_rounds ses) :: 'p event list"
  have mem: "r \<in> set (crs_rules (eng_rules (st_engine st)))"
    using assms(3) boot_engine_wf(2) [OF assms(1)] by simp
  have "map (\<lambda>l. (lr_ts_us l, lr_value l)) (filter (\<lambda>l. lr_rule_id l = cr_id r) (concat (ses_batches ses)))
      = logged_points (map (project (cr_id r)) (snd (run (engine_handle cel) ?tr (st_engine st))))"
    using assms(2) unfolding logged_points_def records_of_rule by (simp add: orderly_def emitted_eq)
  then show ?thesis
    by (simp only: engine_rule_points [OF boot_engine_wf(1) [OF assms(1)] mem boot_engine_state [OF assms(1,3)]
        rounds_trace_no_swap])
qed

text \<open>From datagrams to log lines. After an orderly shutdown the records of an \<open>on_change\<close> rule without a
  condition are exactly the deadband filter of the values that the received datagrams carried for
  its signal, with the vehicle's time stamps and in the order of arrival: the first value, and then
  each one that differs from the value logged last, by more than the deadband for numbers. Malformed
  packets, other signals, the timing of the tasks and how records were batched make no difference.\<close>

theorem datagrams_become_the_deadband_filter:
  fixes cel :: "('p, 'v) cel"
  assumes "boot pf cel thread now path d = (Ok st, d1)" and "orderly cel ses st"
    and "r \<in> set (crs_rules (st_rules st))" and "cr_behaviour r = OnChange db" and "cr_condition r = None"
  shows "map (\<lambda>l. (lr_ts_us l, lr_value l)) (filter (\<lambda>l. lr_rule_id l = cr_id r) (concat (ses_batches ses))) =
    deadband_filter db None (map (\<lambda>s. (smp_timestamp_us s, smp_value s))
      (filter (\<lambda>s. smp_name s = rule_signal (cr_def r))
        (concat (map (received_samples (st_catalog st)) (datagrams_of (ses_ingest ses))))))"
  using assms(2) unfolding session_points [OF assms(1-3)] on_change_rule_run [OF assms(4,5) rounds_trace_no_swap]
  by (simp add: fresh_state_def rounds_samples_for orderly_def forwarded_eq)

theorem datagrams_become_the_deadband_filter_witness:
  "map (\<lambda>l. (lr_ts_us l, lr_value l))
      (filter (\<lambda>l. lr_rule_id l = cr_id soc_rule) (concat (ses_batches demo_session))) =
    deadband_filter (f64_lit 1 1) None (map (\<lambda>s. (smp_timestamp_us s, smp_value s))
      (filter (\<lambda>s. smp_name s = rule_signal (cr_def soc_rule))
        (concat (map (received_samples (st_catalog demo_started)) (datagrams_of (ses_ingest demo_session))))))"
  by (rule datagrams_become_the_deadband_filter [OF demo_boot demo_orderly])
    (simp_all add: demo_started_def demo_rules_def soc_rule_def)

text \<open>C11: From datagrams to log lines, with conditions. After an orderly shutdown the records of any
  \<open>on_change\<close> rule are exactly the samples in the received datagrams, in their order of arrival, that
  carry a value of its signal, leave the deadband around the value logged last, and arrive while the
  condition holds of the latest value of every signal, the new one included. A condition on a signal
  without a value does not hold, nor does one whose evaluation fails.\<close>

theorem datagrams_become_the_guarded_filter:
  fixes cel :: "('p, 'v) cel"
  assumes "boot pf cel thread now path d = (Ok st, d1)" and "orderly cel ses st"
    and "r \<in> set (crs_rules (st_rules st))" and "cr_behaviour r = OnChange db"
  shows "map (\<lambda>l. (lr_ts_us l, lr_value l)) (filter (\<lambda>l. lr_rule_id l = cr_id r) (concat (ses_batches ses))) =
    guarded_filter (rule_passes cel r) db (rule_signal (cr_def r)) None (\<lambda>_. None)
      (concat (map (received_samples (st_catalog st)) (datagrams_of (ses_ingest ses))))"
proof -
  have "eng_latest (st_engine st) = []"
    by (simp add: boot_Ok(6) [OF assms(1)] engine_new_def)
  then have unseen: "latest_value (eng_latest (st_engine st)) = (\<lambda>_. None)"
    by (simp add: latest_value_def fun_eq_iff)
  have "trace_samples (rounds_trace rds :: 'p event list) = rounds_samples rds" for rds
    by (induction rds) (simp_all split: wake.split)
  then show ?thesis
    using assms(2)
    unfolding session_points [OF assms(1-3)] on_change_rule_guarded [OF assms(4) rounds_trace_no_swap]
    by (simp add: unseen fresh_state_def orderly_def forwarded_eq)
qed

theorem datagrams_become_the_guarded_filter_witness:
  "map (\<lambda>l. (lr_ts_us l, lr_value l))
      (filter (\<lambda>l. lr_rule_id l = cr_id gear_rule) (concat (ses_batches demo_session))) =
    guarded_filter (rule_passes ident_cel gear_rule) (f64_lit 0 1) (rule_signal (cr_def gear_rule)) None (\<lambda>_. None)
      (concat (map (received_samples (st_catalog demo_started)) (datagrams_of (ses_ingest demo_session))))"
  by (rule datagrams_become_the_guarded_filter [OF demo_boot demo_orderly])
    (simp_all add: demo_started_def demo_rules_def gear_rule_def)

end
