(* ===== verification/Pipeline.thy ===== *)
theory Pipeline
  imports Daemon
begin

text \<open>
  The three tasks of the daemon as they interleave (\<open>crates/telemetryd/src/main.rs\<close>, the loops of
  \<open>ingest.rs\<close>, \<open>engine_task.rs\<close> and \<open>output.rs\<close>): each task is a step relation whose labels are its calls on
  the channels, and the daemon takes a step of any task whose call the channels allow. A full channel
  blocks its sender, an empty one its receiver until the senders are gone. Every await of a task is
  between two steps. The fields \<open>is_past\<close>, \<open>is_sent\<close>, \<open>es_rounds\<close>, \<open>es_taken\<close>, \<open>es_sent\<close>, \<open>os_batches\<close> and
  \<open>os_taken\<close> only record what has happened.
\<close>

definition SAMPLE_QUEUE :: nat where
  "SAMPLE_QUEUE = 4096"

definition RECORD_QUEUE :: nat where
  "RECORD_QUEUE = 4096"

section \<open>Ingest\<close>

record ingest_side =
  is_events :: "ingest_event list"
  is_stats :: ingest_stats
  is_unsent :: "sample list"
  is_end :: ingest_end
  is_past :: "ingest_event list"
  is_sent :: "sample list"

datatype ingest_act = IngLocal | IngSend sample | IngSendFailed

text \<open>
  A datagram is handled up to its first \<open>send\<close>; the samples it still has to send come next. What a
  datagram counts and forwards is \<open>ingest_datagram\<close> on a channel of its own.
\<close>

inductive ingest_step :: "catalog \<Rightarrow> ingest_side \<Rightarrow> ingest_act \<Rightarrow> ingest_side \<Rightarrow> bool" for c where
  ing_receive:
    "is_end i = Listening \<Longrightarrow> is_unsent i = [] \<Longrightarrow> is_events i = Datagram bs # evs
      \<Longrightarrow> ingest_datagram c (take RECV_BUFFER_LEN bs) (is_stats i, channel) = (alive, stats, tx)
      \<Longrightarrow> ingest_step c i IngLocal
            (i\<lparr>is_events := evs, is_stats := stats, is_unsent := tx_sent tx, is_past := is_past i @ [Datagram bs]\<rparr>)"
| ing_send:
    "is_end i = Listening \<Longrightarrow> is_unsent i = s # ss
      \<Longrightarrow> ingest_step c i (IngSend s) (i\<lparr>is_unsent := ss, is_sent := is_sent i @ [s]\<rparr>)"
| ing_send_failed:
    "is_end i = Listening \<Longrightarrow> is_unsent i = s # ss
      \<Longrightarrow> ingest_step c i IngSendFailed (i\<lparr>is_end := Returned\<rparr>)"
| ing_report:
    "is_end i = Listening \<Longrightarrow> is_unsent i = [] \<Longrightarrow> is_events i = StatsDue # evs
      \<Longrightarrow> ingest_step c i IngLocal (i\<lparr>is_events := evs, is_past := is_past i @ [StatsDue]\<rparr>)"
| ing_stop:
    "is_end i = Listening \<Longrightarrow> is_unsent i = [] \<Longrightarrow> is_events i = StopChanged # evs
      \<Longrightarrow> ingest_step c i IngLocal
            (i\<lparr>is_events := evs, is_end := Returned, is_past := is_past i @ [StopChanged]\<rparr>)"
| ing_fail:
    "is_end i = Listening \<Longrightarrow> is_unsent i = [] \<Longrightarrow> is_events i = RecvFailed e # evs
      \<Longrightarrow> ingest_step c i IngLocal
            (i\<lparr>is_events := evs, is_end := Failed e, is_past := is_past i @ [RecvFailed e]\<rparr>)"

section \<open>Engine task\<close>

text \<open>
  Where the task is in its loop: before the tick, sending the records of the tick, waiting with the
  time it asked to sleep, sending the records of a sample, returned.
\<close>

datatype phase = AtTop | SendingTick u64 "log_record list" | Selecting u64 u64 | SendingSample "log_record list" | TaskEnded

record 'p engine_side =
  es_engine :: "'p engine"
  es_stats :: engine_stats
  es_phase :: phase
  es_rounds :: "round list"
  es_taken :: "sample list"
  es_sent :: "log_record list"

datatype engine_act = EngLocal | EngTake sample | EngSend log_record | EngClosed

text \<open>The counts of a report that are made before its records are sent; each record is counted as it is sent.\<close>

definition count_events :: "eval_report \<Rightarrow> engine_stats \<Rightarrow> engine_stats" where
  "count_events report stats = fst (emit (report\<lparr>records := []\<rparr>) (stats, channel))"

definition count_record :: "log_record \<Rightarrow> engine_stats \<Rightarrow> engine_stats" where
  "count_record l stats = fst (emit_record l (stats, channel))"

inductive engine_step :: "('p, 'v) cel \<Rightarrow> 'p engine_side \<Rightarrow> engine_act \<Rightarrow> 'p engine_side \<Rightarrow> bool" for cel where
  eng_tick:
    "es_phase e = AtTop \<Longrightarrow> tick cel now (es_engine e) = (en, report)
      \<Longrightarrow> engine_step cel e EngLocal
            (e\<lparr>es_engine := en, es_stats := count_events report (es_stats e),
               es_phase := SendingTick now (records report)\<rparr>)"
| eng_send_tick:
    "es_phase e = SendingTick now (l # ls)
      \<Longrightarrow> engine_step cel e (EngSend l)
            (e\<lparr>es_stats := count_record l (es_stats e), es_phase := SendingTick now ls, es_sent := es_sent e @ [l]\<rparr>)"
| eng_wait:
    "es_phase e = SendingTick now [] \<Longrightarrow> engine_step cel e EngLocal (e\<lparr>es_phase := Selecting now later\<rparr>)"
| eng_take:
    "es_phase e = Selecting now later \<Longrightarrow> on_sample cel t s (es_engine e) = (en, report)
      \<Longrightarrow> engine_step cel e (EngTake s)
            (e\<lparr>es_engine := en,
               es_stats := count_events report ((es_stats e)\<lparr>est_samples := est_samples (es_stats e) + 1\<rparr>),
               es_phase := SendingSample (records report),
               es_rounds := es_rounds e @ [\<lparr>rd_tick_ms = now, rd_sleep_ms = later, rd_wake = GotSample t s\<rparr>],
               es_taken := es_taken e @ [s]\<rparr>)"
| eng_send_sample:
    "es_phase e = SendingSample (l # ls)
      \<Longrightarrow> engine_step cel e (EngSend l)
            (e\<lparr>es_stats := count_record l (es_stats e), es_phase := SendingSample ls, es_sent := es_sent e @ [l]\<rparr>)"
| eng_loop:
    "es_phase e = SendingSample [] \<Longrightarrow> engine_step cel e EngLocal (e\<lparr>es_phase := AtTop\<rparr>)"
| eng_timer:
    "es_phase e = Selecting now later \<Longrightarrow> wk = SleptOut \<or> wk = ReportDue
      \<Longrightarrow> engine_step cel e EngLocal
            (e\<lparr>es_phase := AtTop,
               es_rounds := es_rounds e @ [\<lparr>rd_tick_ms = now, rd_sleep_ms = later, rd_wake = wk\<rparr>]\<rparr>)"
| eng_closed:
    "es_phase e = Selecting now later
      \<Longrightarrow> engine_step cel e EngClosed
            (e\<lparr>es_phase := TaskEnded,
               es_rounds := es_rounds e @ [\<lparr>rd_tick_ms = now, rd_sleep_ms = later, rd_wake = Closed\<rparr>]\<rparr>)"

section \<open>Output thread\<close>

datatype out_phase = OutWaiting | OutWriting | OutClosed

record output_side =
  os_stats :: output_stats
  os_writer :: writer
  os_disk :: disk
  os_phase :: out_phase
  os_batch :: "log_record list"
  os_batches :: "log_record list list"
  os_taken :: "log_record list"

datatype output_act = OutTake log_record | OutFindsEmpty | OutFindsClosed

inductive output_step ::
  "(log_record \<Rightarrow> (io_error, u8 list) result) \<Rightarrow> output_side \<Rightarrow> output_act \<Rightarrow> output_side \<Rightarrow> bool" for to_vec where
  out_take:
    "os_phase o1 \<noteq> OutClosed \<Longrightarrow> write_record to_vec l (os_stats o1, os_writer o1, os_disk o1) = (stats, w, d)
      \<Longrightarrow> output_step to_vec o1 (OutTake l)
            (o1\<lparr>os_stats := stats, os_writer := w, os_disk := d, os_phase := OutWriting,
                os_batch := os_batch o1 @ [l], os_taken := os_taken o1 @ [l]\<rparr>)"
| out_flush:
    "os_phase o1 = OutWriting \<Longrightarrow> writer_flush (os_writer o1) (os_disk o1) = (res, w, d)
      \<Longrightarrow> output_step to_vec o1 OutFindsEmpty
            (o1\<lparr>os_writer := w, os_disk := d, os_phase := OutWaiting, os_batch := [],
                os_batches := os_batches o1 @ [os_batch o1]\<rparr>)"
| out_close:
    "os_phase o1 = OutWaiting \<Longrightarrow> writer_sync (os_writer o1) (os_disk o1) = (res, w, d)
      \<Longrightarrow> output_step to_vec o1 OutFindsClosed (o1\<lparr>os_writer := w, os_disk := writer_drop w d, os_phase := OutClosed\<rparr>)"

section \<open>The daemon\<close>

text \<open>
  The output thread outlives the engine task, so a send of the engine task to a closed output has no
  rule here; a send of ingest to an engine task that has returned has one, which the invariant shows
  never to be taken.
\<close>

record 'p pipe =
  p_ingest :: ingest_side
  p_samples :: "sample list"
  p_engine :: "'p engine_side"
  p_records :: "log_record list"
  p_output :: output_side

inductive pipe_step ::
  "catalog \<Rightarrow> ('p, 'v) cel \<Rightarrow> (log_record \<Rightarrow> (io_error, u8 list) result) \<Rightarrow> 'p pipe \<Rightarrow> 'p pipe \<Rightarrow> bool"
  for c cel to_vec where
  ingest_local:
    "ingest_step c (p_ingest p) IngLocal i \<Longrightarrow> pipe_step c cel to_vec p (p\<lparr>p_ingest := i\<rparr>)"
| ingest_send:
    "ingest_step c (p_ingest p) (IngSend s) i \<Longrightarrow> length (p_samples p) < SAMPLE_QUEUE
      \<Longrightarrow> es_phase (p_engine p) \<noteq> TaskEnded
      \<Longrightarrow> pipe_step c cel to_vec p (p\<lparr>p_ingest := i, p_samples := p_samples p @ [s]\<rparr>)"
| ingest_send_failed:
    "ingest_step c (p_ingest p) IngSendFailed i \<Longrightarrow> es_phase (p_engine p) = TaskEnded
      \<Longrightarrow> pipe_step c cel to_vec p (p\<lparr>p_ingest := i\<rparr>)"
| engine_local:
    "engine_step cel (p_engine p) EngLocal e \<Longrightarrow> pipe_step c cel to_vec p (p\<lparr>p_engine := e\<rparr>)"
| engine_take:
    "engine_step cel (p_engine p) (EngTake s) e \<Longrightarrow> p_samples p = s # ss
      \<Longrightarrow> pipe_step c cel to_vec p (p\<lparr>p_engine := e, p_samples := ss\<rparr>)"
| engine_send:
    "engine_step cel (p_engine p) (EngSend l) e \<Longrightarrow> length (p_records p) < RECORD_QUEUE
      \<Longrightarrow> os_phase (p_output p) \<noteq> OutClosed
      \<Longrightarrow> pipe_step c cel to_vec p (p\<lparr>p_engine := e, p_records := p_records p @ [l]\<rparr>)"
| engine_closed:
    "engine_step cel (p_engine p) EngClosed e \<Longrightarrow> p_samples p = [] \<Longrightarrow> is_end (p_ingest p) \<noteq> Listening
      \<Longrightarrow> pipe_step c cel to_vec p (p\<lparr>p_engine := e\<rparr>)"
| output_take:
    "output_step to_vec (p_output p) (OutTake l) o1 \<Longrightarrow> p_records p = l # ls
      \<Longrightarrow> pipe_step c cel to_vec p (p\<lparr>p_output := o1, p_records := ls\<rparr>)"
| output_empty:
    "output_step to_vec (p_output p) OutFindsEmpty o1 \<Longrightarrow> p_records p = []
      \<Longrightarrow> pipe_step c cel to_vec p (p\<lparr>p_output := o1\<rparr>)"
| output_closed:
    "output_step to_vec (p_output p) OutFindsClosed o1 \<Longrightarrow> p_records p = [] \<Longrightarrow> es_phase (p_engine p) = TaskEnded
      \<Longrightarrow> pipe_step c cel to_vec p (p\<lparr>p_output := o1\<rparr>)"

definition pipe_start :: "ingest_event list \<Rightarrow> ('a, 'p) started \<Rightarrow> disk \<Rightarrow> 'p pipe" where
  "pipe_start evs st d =
     \<lparr>p_ingest = \<lparr>is_events = evs, is_stats = ingest_stats_default, is_unsent = [], is_end = Listening,
                  is_past = [], is_sent = []\<rparr>,
      p_samples = [],
      p_engine = \<lparr>es_engine = st_engine st, es_stats = engine_stats_default, es_phase = AtTop,
                  es_rounds = [], es_taken = [], es_sent = []\<rparr>,
      p_records = [],
      p_output = \<lparr>os_stats = output_stats_default, os_writer = st_writer st, os_disk = d, os_phase = OutWaiting,
                  os_batch = [], os_batches = [], os_taken = []\<rparr>\<rparr>"

definition drained :: "'p pipe \<Rightarrow> bool" where
  "drained p \<longleftrightarrow>
     is_end (p_ingest p) \<noteq> Listening \<and> es_phase (p_engine p) = TaskEnded \<and> os_phase (p_output p) = OutClosed"

end
