(* ===== verification/Shutdown.thy ===== *)
theory Shutdown
  imports Pipeline
begin

text \<open>
  The end of the daemon's \<open>main\<close> (\<open>crates/telemetryd/src/main.rs\<close>): it waits for the ingest task or a
  signal, stops ingest, waits for the other tasks up to a time-out, and returns; then the runtime drops
  the tasks that still run. \<open>main\<close> is a fourth process beside the three of \<open>Pipeline\<close>. Time is not
  modelled: the time-out may fire at any moment of the draining.
\<close>

section \<open>Signals\<close>

text \<open>What ends the wait of \<open>shutdown_signal\<close> on Unix: its \<open>select\<close> over Ctrl-C and \<open>SIGTERM\<close>.\<close>

datatype signal_wake = CtrlC "(io_error, unit) result" | Terminate

definition shutdown_signal :: "(io_error, unit) result \<Rightarrow> signal_wake \<Rightarrow> (anyhow_error, string) result" where
  "shutdown_signal install wake =
     and_then (with_context ''installing SIGTERM handler'' IoCause install)
       (\<lambda>_. case wake of
              CtrlC r \<Rightarrow> with_context ''waiting for SIGINT'' IoCause (and_then r (\<lambda>_. Ok ''SIGINT''))
            | Terminate \<Rightarrow> Ok ''SIGTERM'')"

section \<open>The result of main\<close>

text \<open>\<open>ingest.await\<close>: the result of the ingest task, or the error of a task that panicked.\<close>

datatype join_error = JoinError

type_synonym ingest_join = "(join_error, (io_error, ingest_stats) result) result"

definition ingest_joined :: "ingest_side \<Rightarrow> ingest_join" where
  "ingest_joined i = Ok (case is_end i of Failed e \<Rightarrow> Err e | _ \<Rightarrow> Ok (is_stats i))"

definition main_result :: "ingest_join \<Rightarrow> (anyhow_error, unit) result" where
  "main_result r =
     and_then (with_context ''ingest task panicked'' (\<lambda>_. JoinCause) r)
       (\<lambda>res. case res of
                Ok stats \<Rightarrow> Ok ()
              | Err e \<Rightarrow> with_context ''UDP ingest failed'' IoCause (Err e))"

section \<open>The process\<close>

datatype main_phase =
    MainSelecting
  | MainStopping
  | MainDraining ingest_join
  | MainReturned "(anyhow_error, unit) result"

text \<open>
  \<open>pr_info\<close> tells whether the log level lets \<open>info!\<close> through, \<open>pr_stop\<close> is the value of the \<open>watch\<close>
  channel, \<open>pr_timed_out\<close> whether the draining was given up, the last two whether the runtime has dropped
  the ingest and the engine task.
\<close>

record 'p process =
  pr_pipe :: "'p pipe"
  pr_info :: bool
  pr_main :: main_phase
  pr_stop :: bool
  pr_timed_out :: bool
  pr_ingest_gone :: bool
  pr_engine_gone :: bool

text \<open>
  The \<open>?\<close> on the result of \<open>shutdown_signal\<close> stands inside \<open>info!\<close>, whose arguments are evaluated only when
  the event is enabled: with a higher log level a failing signal handler shuts the daemon down like a
  signal. Ingest finds the channel changed when \<open>main\<close> has set it, or when \<open>main\<close> has returned and dropped the
  sender. Once \<open>main\<close> has returned, the runtime drops each async task at its next await, in any order; the
  output runs on a blocking thread, which the runtime waits for. A dropped task moves no more, and its
  channel ends are closed: the engine task sees its input end, ingest fails to send, and the output
  thread sees its input end.
\<close>

inductive process_step ::
  "catalog \<Rightarrow> ('p, 'v) cel \<Rightarrow> (log_record \<Rightarrow> (io_error, u8 list) result) \<Rightarrow> 'p process \<Rightarrow> 'p process \<Rightarrow> bool"
  for c cel to_vec where
  tasks_step:
    "pipe_step c cel to_vec (pr_pipe s) p
      \<Longrightarrow> (StopChanged \<in> set (is_past (p_ingest p)) \<longrightarrow> pr_stop s \<or> (\<exists>r. pr_main s = MainReturned r))
      \<Longrightarrow> (pr_ingest_gone s \<longrightarrow> p_ingest p = p_ingest (pr_pipe s))
      \<Longrightarrow> (pr_engine_gone s \<longrightarrow> p_engine p = p_engine (pr_pipe s) \<and> p_samples p = p_samples (pr_pipe s))
      \<Longrightarrow> process_step c cel to_vec s (s\<lparr>pr_pipe := p\<rparr>)"
| main_signal:
    "pr_main s = MainSelecting \<Longrightarrow> shutdown_signal install wake = Ok sig
      \<Longrightarrow> process_step c cel to_vec s (s\<lparr>pr_main := MainStopping, pr_stop := True\<rparr>)"
| main_signal_fails:
    "pr_main s = MainSelecting \<Longrightarrow> shutdown_signal install wake = Err e \<Longrightarrow> pr_info s
      \<Longrightarrow> process_step c cel to_vec s (s\<lparr>pr_main := MainReturned (Err e)\<rparr>)"
| main_signal_unlogged:
    "pr_main s = MainSelecting \<Longrightarrow> shutdown_signal install wake = Err e \<Longrightarrow> \<not> pr_info s
      \<Longrightarrow> process_step c cel to_vec s (s\<lparr>pr_main := MainStopping, pr_stop := True\<rparr>)"
| main_joins_ingest:
    "pr_main s = MainSelecting \<or> pr_main s = MainStopping \<Longrightarrow> is_end (p_ingest (pr_pipe s)) \<noteq> Listening
      \<Longrightarrow> process_step c cel to_vec s (s\<lparr>pr_main := MainDraining (ingest_joined (p_ingest (pr_pipe s)))\<rparr>)"
| main_joins_others:
    "pr_main s = MainDraining r \<Longrightarrow> es_phase (p_engine (pr_pipe s)) = TaskEnded
      \<Longrightarrow> os_phase (p_output (pr_pipe s)) = OutClosed
      \<Longrightarrow> process_step c cel to_vec s (s\<lparr>pr_main := MainReturned (main_result r)\<rparr>)"
| main_times_out:
    "pr_main s = MainDraining r
      \<Longrightarrow> process_step c cel to_vec s (s\<lparr>pr_main := MainReturned (main_result r), pr_timed_out := True\<rparr>)"
| drop_ingest:
    "pr_main s = MainReturned r \<Longrightarrow> process_step c cel to_vec s (s\<lparr>pr_ingest_gone := True\<rparr>)"
| drop_engine:
    "pr_main s = MainReturned r \<Longrightarrow> process_step c cel to_vec s (s\<lparr>pr_engine_gone := True\<rparr>)"
| engine_orphaned:
    "pr_ingest_gone s \<Longrightarrow> \<not> pr_engine_gone s \<Longrightarrow> p_samples (pr_pipe s) = []
      \<Longrightarrow> engine_step cel (p_engine (pr_pipe s)) EngClosed e
      \<Longrightarrow> process_step c cel to_vec s (s\<lparr>pr_pipe := (pr_pipe s)\<lparr>p_engine := e\<rparr>\<rparr>)"
| ingest_orphaned:
    "pr_engine_gone s \<Longrightarrow> \<not> pr_ingest_gone s \<Longrightarrow> ingest_step c (p_ingest (pr_pipe s)) IngSendFailed i
      \<Longrightarrow> process_step c cel to_vec s (s\<lparr>pr_pipe := (pr_pipe s)\<lparr>p_ingest := i\<rparr>\<rparr>)"
| output_orphaned:
    "pr_engine_gone s \<Longrightarrow> p_records (pr_pipe s) = []
      \<Longrightarrow> output_step to_vec (p_output (pr_pipe s)) OutFindsClosed o1
      \<Longrightarrow> process_step c cel to_vec s (s\<lparr>pr_pipe := (pr_pipe s)\<lparr>p_output := o1\<rparr>\<rparr>)"

definition process_start :: "bool \<Rightarrow> ingest_event list \<Rightarrow> ('a, 'p) started \<Rightarrow> disk \<Rightarrow> 'p process" where
  "process_start info evs st d =
     \<lparr>pr_pipe = pipe_start evs st d, pr_info = info, pr_main = MainSelecting, pr_stop = False, pr_timed_out = False,
      pr_ingest_gone = False, pr_engine_gone = False\<rparr>"

text \<open>The process is over when \<open>main\<close> has returned and the output thread has ended.\<close>

definition process_over :: "'p process \<Rightarrow> bool" where
  "process_over s \<longleftrightarrow> (\<exists>r. pr_main s = MainReturned r) \<and> os_phase (p_output (pr_pipe s)) = OutClosed"

end
