(* ===== verification/Pipeline_Props.thy ===== *)
theory Pipeline_Props
  imports Pipeline
begin

text \<open>
  What holds of the daemon in every interleaving of its tasks: an invariant per task, that samples
  and records pass the queues in order, and that a daemon whose input ends can always drain.
\<close>

section \<open>Ingest\<close>

lemma ingest_ends_append: "ingest_ends xs = Listening \<Longrightarrow> ingest_ends (xs @ ys) = ingest_ends ys"
  by (induction xs rule: ingest_ends.induct) simp_all

lemma ingest_ends_prefix: "ingest_ends xs \<noteq> Listening \<Longrightarrow> ingest_ends (xs @ ys) = ingest_ends xs"
  by (induction xs rule: ingest_ends.induct) simp_all

lemma datagrams_of_append:
  "ingest_ends xs = Listening \<Longrightarrow> datagrams_of (xs @ ys) = datagrams_of xs @ datagrams_of ys"
  by (induction xs rule: ingest_ends.induct) simp_all

definition ingest_inv :: "catalog \<Rightarrow> ingest_event list \<Rightarrow> ingest_side \<Rightarrow> bool" where
  "ingest_inv c evs i \<longleftrightarrow>
     is_past i @ is_events i = evs \<and> is_end i = ingest_ends (is_past i)
     \<and> (is_end i = Listening \<or> is_unsent i = [])
     \<and> is_stats i = fold (add_datagram c) (datagrams_of (is_past i)) ingest_stats_default
     \<and> concat (map (received_samples c) (datagrams_of (is_past i))) = is_sent i @ is_unsent i"

lemma ingest_step_inv:
  assumes "ingest_step c i a j" and "ingest_inv c evs i" and "a \<noteq> IngSendFailed"
  shows "ingest_inv c evs j"
  using assms
proof cases
  case (ing_receive bs evs' alive stats tx)
  have "stats = add_datagram c bs (is_stats i) \<and> tx_sent tx = received_samples c bs"
    using ing_receive by (auto simp: ingest_datagram_eq forward_samples_open channel_def)
  with assms(2) ing_receive show ?thesis
    by (simp add: ingest_inv_def ingest_ends_append datagrams_of_append)
qed (use assms(2,3) in \<open>simp_all add: ingest_inv_def ingest_ends_append datagrams_of_append\<close>)

lemma ingest_step_sent:
  "ingest_step c i a j \<Longrightarrow> is_sent j = is_sent i @ (case a of IngSend s \<Rightarrow> [s] | _ \<Rightarrow> [])"
  by (induction rule: ingest_step.induct) simp_all

section \<open>Engine task\<close>

lemma rounds_append:
  "\<not> (\<exists>rd\<in>set rds. rd_wake rd = Closed) \<Longrightarrow>
    rounds_trace (rds @ rds') = rounds_trace rds @ (rounds_trace rds' :: 'p event list)
    \<and> rounds_samples (rds @ rds') = rounds_samples rds @ rounds_samples rds'"
  by (induction rds) (auto split: wake.splits)

definition pending :: "'p engine_side \<Rightarrow> log_record list" where
  "pending e = (case es_phase e of SendingTick _ ls \<Rightarrow> ls | SendingSample ls \<Rightarrow> ls | _ \<Rightarrow> [])"

definition engine_trace :: "'p engine_side \<Rightarrow> 'p event list" where
  "engine_trace e = rounds_trace (es_rounds e)
     @ (case es_phase e of SendingTick t _ \<Rightarrow> [Ticked t] | Selecting t _ \<Rightarrow> [Ticked t] | _ \<Rightarrow> [])"

text \<open>The statistics once the pending records have been sent.\<close>

definition count_records :: "log_record list \<Rightarrow> engine_stats \<Rightarrow> engine_stats" where
  "count_records ls stats = stats\<lparr>est_records := fold hm_bump (map lr_rule_id ls) (est_records stats)\<rparr>"

lemma count_records_simps:
  "count_records [] stats = stats" "count_records ls (count_record l stats) = count_records (l # ls) stats"
  "count_records (records rep) (count_events rep stats) = count_report rep stats"
  by (simp_all add: count_records_def count_record_def emit_record_def count_events_def emit_counts channel_def
      count_report_def)

definition engine_inv :: "('p, 'v) cel \<Rightarrow> 'p engine \<Rightarrow> 'p engine_side \<Rightarrow> bool" where
  "engine_inv cel e0 e \<longleftrightarrow>
     es_engine e = fst (run (engine_handle cel) (engine_trace e) e0)
     \<and> es_sent e @ pending e = concat (map records (snd (run (engine_handle cel) (engine_trace e) e0)))
     \<and> count_records (pending e) (es_stats e) =
         (fold count_report (snd (run (engine_handle cel) (engine_trace e) e0)) engine_stats_default)
           \<lparr>est_samples := of_nat (length (es_taken e))\<rparr>
     \<and> es_taken e = rounds_samples (es_rounds e)
     \<and> ((\<exists>rd\<in>set (es_rounds e). rd_wake rd = Closed) \<longleftrightarrow> es_phase e = TaskEnded)"

lemma engine_step_io:
  "engine_step cel e a e' \<Longrightarrow> es_taken e' = es_taken e @ (case a of EngTake s \<Rightarrow> [s] | _ \<Rightarrow> [])
    \<and> es_sent e' = es_sent e @ (case a of EngSend l \<Rightarrow> [l] | _ \<Rightarrow> [])
    \<and> es_phase e \<noteq> TaskEnded \<and> (es_phase e' = TaskEnded \<longleftrightarrow> a = EngClosed)"
  by (induction rule: engine_step.induct) simp_all

lemma engine_step_inv:
  assumes "engine_step cel e a e'" and "engine_inv cel e0 e"
  shows "engine_inv cel e0 e'"
proof -
  have "\<not> (\<exists>rd\<in>set (es_rounds e). rd_wake rd = Closed)"
    using assms engine_step_io [OF assms(1)] by (simp add: engine_inv_def)
  note more = rounds_append [OF this]
  from assms(1) show ?thesis
  proof cases
    case (eng_tick now en report)
    with assms(2) show ?thesis
      by (simp add: engine_inv_def engine_trace_def pending_def run_append count_records_simps count_report_samples)
  next
    case (eng_take now later t s en report)
    with assms(2) show ?thesis
      by (auto simp: engine_inv_def engine_trace_def pending_def run_append count_records_simps count_report_samples
          add.commute more)
  qed (use assms(2) in \<open>auto simp: engine_inv_def engine_trace_def pending_def count_records_simps more\<close>)
qed

section \<open>Output thread\<close>

definition output_inv ::
  "(log_record \<Rightarrow> (io_error, u8 list) result) \<Rightarrow> writer \<Rightarrow> disk \<Rightarrow> output_side \<Rightarrow> bool" where
  "output_inv to_vec w d o1 \<longleftrightarrow>
     os_taken o1 = concat (os_batches o1) @ os_batch o1
     \<and> (os_phase o1 = OutWriting \<or> os_batch o1 = [])
     \<and> (os_stats o1, os_writer o1, os_disk o1) =
         (if os_phase o1 = OutClosed then output_run to_vec (os_batches o1) w d
          else fold (write_record to_vec) (os_batch o1)
            (fold (write_batch to_vec) (os_batches o1) (output_stats_default, w, d)))"

lemma output_step_inv:
  assumes "output_step to_vec o1 a o2" and "output_inv to_vec w d o1"
  shows "output_inv to_vec w d o2"
  using assms(1)
proof cases
  case (out_take l stats w' d')
  with assms(2) show ?thesis by (simp add: output_inv_def)
next
  case (out_flush res w' d')
  have "fold (write_record to_vec) (os_batch o1) (fold (write_batch to_vec) (os_batches o1) (output_stats_default, w, d))
      = (os_stats o1, os_writer o1, os_disk o1)"
    using assms(2) out_flush by (simp add: output_inv_def)
  with assms(2) out_flush show ?thesis by (simp add: output_inv_def write_batch_def)
next
  case (out_close res w' d')
  have "fold (write_batch to_vec) (os_batches o1) (output_stats_default, w, d) = (os_stats o1, os_writer o1, os_disk o1)"
    using assms(2) out_close by (simp add: output_inv_def)
  with assms(2) out_close show ?thesis by (simp add: output_inv_def output_run_def)
qed

lemma output_step_io:
  "output_step to_vec o1 a o2 \<Longrightarrow> os_taken o2 = os_taken o1 @ (case a of OutTake l \<Rightarrow> [l] | _ \<Rightarrow> [])
    \<and> os_phase o1 \<noteq> OutClosed \<and> (os_phase o2 = OutClosed \<longleftrightarrow> a = OutFindsClosed)"
  by (induction rule: output_step.induct) simp_all

section \<open>The daemon\<close>

definition pipe_inv ::
  "catalog \<Rightarrow> ('p, 'v) cel \<Rightarrow> (log_record \<Rightarrow> (io_error, u8 list) result) \<Rightarrow> ingest_event list
    \<Rightarrow> 'p engine \<Rightarrow> writer \<Rightarrow> disk \<Rightarrow> 'p pipe \<Rightarrow> bool" where
  "pipe_inv c cel to_vec evs e0 w d p \<longleftrightarrow>
     ingest_inv c evs (p_ingest p) \<and> engine_inv cel e0 (p_engine p) \<and> output_inv to_vec w d (p_output p)
     \<and> is_sent (p_ingest p) = es_taken (p_engine p) @ p_samples p
     \<and> es_sent (p_engine p) = os_taken (p_output p) @ p_records p
     \<and> length (p_samples p) \<le> SAMPLE_QUEUE \<and> length (p_records p) \<le> RECORD_QUEUE
     \<and> (es_phase (p_engine p) = TaskEnded \<longrightarrow> is_end (p_ingest p) \<noteq> Listening \<and> p_samples p = [])
     \<and> (os_phase (p_output p) = OutClosed \<longrightarrow> es_phase (p_engine p) = TaskEnded \<and> p_records p = [])"

lemma pipe_inv_start: "pipe_inv c cel to_vec evs (st_engine st) (st_writer st) d (pipe_start evs st d)"
  by (simp add: pipe_inv_def pipe_start_def ingest_inv_def engine_inv_def output_inv_def engine_trace_def
      pending_def count_records_def engine_stats_default_def)

lemma ingest_step_ended: "ingest_step c i a j \<Longrightarrow> is_end i = Listening"
  by (induction rule: ingest_step.induct) simp_all

lemma pipe_step_inv:
  assumes "pipe_step c cel to_vec p q" and "pipe_inv c cel to_vec evs e0 w d p"
  shows "pipe_inv c cel to_vec evs e0 w d q"
  using assms(1)
proof cases
  case (ingest_local i)
  with assms(2) ingest_step_inv [of c "p_ingest p" IngLocal i evs] ingest_step_sent [of c "p_ingest p" IngLocal i]
    ingest_step_ended [of c "p_ingest p" IngLocal i]
  show ?thesis by (auto simp: pipe_inv_def)
next
  case (ingest_send s i)
  with assms(2) ingest_step_inv [of c "p_ingest p" "IngSend s" i evs] ingest_step_sent [of c "p_ingest p" "IngSend s" i]
  show ?thesis by (auto simp: pipe_inv_def)
next
  case (ingest_send_failed i)
  with assms(2) ingest_step_ended [of c "p_ingest p" IngSendFailed i] show ?thesis by (auto simp: pipe_inv_def)
next
  case (engine_local e)
  with assms(2) engine_step_inv [of cel "p_engine p" EngLocal e e0] engine_step_io [of cel "p_engine p" EngLocal e]
  show ?thesis by (auto simp: pipe_inv_def)
next
  case (engine_take s e ss)
  with assms(2) engine_step_inv [of cel "p_engine p" "EngTake s" e e0] engine_step_io [of cel "p_engine p" "EngTake s" e]
  show ?thesis by (auto simp: pipe_inv_def)
next
  case (engine_send l e)
  with assms(2) engine_step_inv [of cel "p_engine p" "EngSend l" e e0] engine_step_io [of cel "p_engine p" "EngSend l" e]
  show ?thesis by (auto simp: pipe_inv_def)
next
  case (engine_closed e)
  with assms(2) engine_step_inv [of cel "p_engine p" EngClosed e e0] engine_step_io [of cel "p_engine p" EngClosed e]
  show ?thesis by (auto simp: pipe_inv_def)
next
  case (output_take l o1 ls)
  with assms(2) output_step_inv [of to_vec "p_output p" "OutTake l" o1 w d]
    output_step_io [of to_vec "p_output p" "OutTake l" o1]
  show ?thesis by (auto simp: pipe_inv_def)
next
  case (output_empty o1)
  with assms(2) output_step_inv [of to_vec "p_output p" OutFindsEmpty o1 w d]
    output_step_io [of to_vec "p_output p" OutFindsEmpty o1]
  show ?thesis by (auto simp: pipe_inv_def)
next
  case (output_closed o1)
  with assms(2) output_step_inv [of to_vec "p_output p" OutFindsClosed o1 w d]
    output_step_io [of to_vec "p_output p" OutFindsClosed o1]
  show ?thesis by (auto simp: pipe_inv_def)
qed

lemma pipe_reachable_inv:
  assumes "(pipe_step c cel to_vec)\<^sup>*\<^sup>* p q" and "pipe_inv c cel to_vec evs e0 w d p"
  shows "pipe_inv c cel to_vec evs e0 w d q"
  using assms by (induction rule: rtranclp_induct) (auto intro: pipe_step_inv)

section \<open>A drained daemon\<close>

definition session_of :: "'p pipe \<Rightarrow> session" where
  "session_of p =
     \<lparr>ses_ingest = is_past (p_ingest p), ses_rounds = es_rounds (p_engine p), ses_batches = os_batches (p_output p)\<rparr>"

lemma drained_run:
  assumes "pipe_inv (st_catalog st) cel to_vec evs (st_engine st) (st_writer st) d p"
    and "drained p" and "is_end (p_ingest p) = Returned"
  shows "orderly cel (session_of p) st"
    and "daemon_run cel to_vec (session_of p) st d =
      (is_stats (p_ingest p), es_stats (p_engine p), os_stats (p_output p), os_disk (p_output p))"
proof -
  have room: "tx_room channel = None" by (simp add: channel_def)
  have ing: "ingest_inv (st_catalog st) evs (p_ingest p)" and eng: "engine_inv cel (st_engine st) (p_engine p)"
    and outp: "output_inv to_vec (st_writer st) d (p_output p)"
    using assms(1) by (simp_all add: pipe_inv_def)
  have ended: "es_phase (p_engine p) = TaskEnded" "os_phase (p_output p) = OutClosed"
    using assms(2) by (simp_all add: drained_def)
  then have queues: "is_sent (p_ingest p) = es_taken (p_engine p)" "es_sent (p_engine p) = os_taken (p_output p)"
    using assms(1) by (auto simp: pipe_inv_def)
  let ?tr = "rounds_trace (es_rounds (p_engine p)) :: 'a event list"
  have tr: "engine_trace (p_engine p) = ?tr" "pending (p_engine p) = []"
    using ended by (simp_all add: engine_trace_def pending_def)
  have udp: "run_udp (st_catalog st) (is_past (p_ingest p)) (ingest_stats_default, channel)
      = (Returned, is_stats (p_ingest p), channel\<lparr>tx_sent := is_sent (p_ingest p)\<rparr>)"
    using ing assms(3) by (auto simp: ingest_open [OF room] ingest_inv_def) (simp add: channel_def)
  have closed: "\<exists>rd\<in>set (es_rounds (p_engine p)). rd_wake rd = Closed"
    and sent: "concat (map records (snd (run (engine_handle cel) ?tr (st_engine st)))) = es_sent (p_engine p)"
    and taken: "rounds_samples (es_rounds (p_engine p)) = es_taken (p_engine p)"
    and stats: "(fold count_report (snd (run (engine_handle cel) ?tr (st_engine st))) engine_stats_default)
      \<lparr>est_samples := of_nat (length (es_taken (p_engine p)))\<rparr> = es_stats (p_engine p)"
    using eng ended(1) tr by (simp_all add: engine_inv_def count_records_simps)
  have batches: "concat (os_batches (p_output p)) = os_taken (p_output p)"
    and out: "output_run to_vec (os_batches (p_output p)) (st_writer st) d
      = (os_stats (p_output p), os_writer (p_output p), os_disk (p_output p))"
    using outp ended(2) by (auto simp: output_inv_def)
  show "orderly cel (session_of p) st"
    using closed sent taken batches queues udp by (simp add: orderly_def session_of_def forwarded_def emitted_eq)
  obtain sleeps where "engine_task_run cel (es_rounds (p_engine p)) (st_engine st) (engine_stats_default, channel)
      = (True, fst (run (engine_handle cel) ?tr (st_engine st)), (es_stats (p_engine p),
         channel\<lparr>tx_sent := es_sent (p_engine p)\<rparr>), sleeps)"
    using engine_task_open [OF room, of cel "es_rounds (p_engine p)" "st_engine st" engine_stats_default]
      closed sent taken stats
    by (auto simp: channel_def engine_stats_default_def)
  with udp out show "daemon_run cel to_vec (session_of p) st d =
      (is_stats (p_ingest p), es_stats (p_engine p), os_stats (p_output p), os_disk (p_output p))"
    by (simp add: daemon_run_def session_of_def)
qed

lemma session_prefix: "pipe_inv c cel to_vec evs e0 w d p \<Longrightarrow> prefix (ses_ingest (session_of p)) evs"
  by (auto simp: pipe_inv_def ingest_inv_def session_of_def)

section \<open>Draining\<close>

fun phase_rank :: "phase \<Rightarrow> nat" where
  "phase_rank (SendingSample _) = 4"
| "phase_rank AtTop = 3"
| "phase_rank (SendingTick _ _) = 2"
| "phase_rank (Selecting _ _) = 1"
| "phase_rank TaskEnded = 0"

fun out_rank :: "out_phase \<Rightarrow> nat" where
  "out_rank OutWriting = 2"
| "out_rank OutWaiting = 1"
| "out_rank OutClosed = 0"

definition work_left :: "'p pipe \<Rightarrow> nat \<times> nat \<times> nat \<times> nat \<times> nat \<times> nat \<times> nat" where
  "work_left p =
     (length (is_events (p_ingest p)), length (is_unsent (p_ingest p)), length (p_samples p),
      phase_rank (es_phase (p_engine p)), length (pending (p_engine p)), length (p_records p),
      out_rank (os_phase (p_output p)))"

definition less_work :: "('p pipe \<times> 'p pipe) set" where
  "less_work = inv_image (less_than <*lex*> less_than <*lex*> less_than <*lex*> less_than <*lex*> less_than
     <*lex*> less_than <*lex*> less_than) work_left"

lemma wf_less_work: "wf less_work"
  unfolding less_work_def by (intro wf_inv_image wf_lex_prod wf_less_than)

text \<open>The step a scheduler takes that lets the last task run first.\<close>

lemma ingest_moves:
  assumes "ingest_inv c evs i" and "ingest_ends evs \<noteq> Listening" and "is_end i = Listening" and "is_unsent i = []"
  shows "\<exists>j. ingest_step c i IngLocal j \<and> length (is_events j) < length (is_events i)"
proof -
  have "ingest_ends (is_events i) \<noteq> Listening"
    using assms ingest_ends_append [of "is_past i" "is_events i"] by (auto simp: ingest_inv_def)
  then obtain ev evs' where ev: "is_events i = ev # evs'" by (cases "is_events i") auto
  show ?thesis
  proof (cases ev)
    case (Datagram bs)
    obtain alive stats tx where "ingest_datagram c (take RECV_BUFFER_LEN bs) (is_stats i, channel) = (alive, stats, tx)"
      by (cases "ingest_datagram c (take RECV_BUFFER_LEN bs) (is_stats i, channel)")
    from ing_receive [OF assms(3,4) ev [unfolded Datagram] this] ev show ?thesis by fastforce
  next
    case (RecvFailed e)
    from ing_fail [OF assms(3,4) ev [unfolded RecvFailed], of c] ev show ?thesis by fastforce
  next
    case StatsDue
    from ing_report [OF assms(3,4) ev [unfolded StatsDue], of c] ev show ?thesis by fastforce
  next
    case StopChanged
    from ing_stop [OF assms(3,4) ev [unfolded StopChanged], of c] ev show ?thesis by fastforce
  qed
qed

lemma pipe_progress:
  assumes inv: "pipe_inv c cel to_vec evs e0 w d p" and ends: "ingest_ends evs \<noteq> Listening" and "\<not> drained p"
  shows "\<exists>q. pipe_step c cel to_vec p q \<and> (q, p) \<in> less_work"
proof -
  let ?i = "p_ingest p" and ?e = "p_engine p" and ?o = "p_output p"
  have less: "(q, p) \<in> less_work \<longleftrightarrow> (work_left q, work_left p) \<in> less_than <*lex*> less_than <*lex*> less_than
      <*lex*> less_than <*lex*> less_than <*lex*> less_than <*lex*> less_than" for q
    by (simp add: less_work_def)
  note measure = less work_left_def pending_def
  consider (take) l ls where "p_records p = l # ls" "os_phase ?o \<noteq> OutClosed"
    | (idle) "p_records p = []" "es_phase ?e = TaskEnded"
    | (run) "p_records p = []" "es_phase ?e \<noteq> TaskEnded" "os_phase ?o \<noteq> OutClosed"
    using inv by (cases "p_records p") (auto simp: pipe_inv_def)
  then show ?thesis
  proof cases
    case take
    obtain stats w' d' where "write_record to_vec l (os_stats ?o, os_writer ?o, os_disk ?o) = (stats, w', d')"
      by (cases "write_record to_vec l (os_stats ?o, os_writer ?o, os_disk ?o)")
    from output_take [OF out_take [OF take(2) this] take(1)] take(1) show ?thesis
      by (fastforce simp: measure)
  next
    case idle
    then have out: "os_phase ?o = OutWriting \<or> os_phase ?o = OutWaiting"
      using assms(3) inv by (cases "os_phase ?o") (auto simp: drained_def pipe_inv_def)
    obtain res w' d' where f: "writer_flush (os_writer ?o) (os_disk ?o) = (res, w', d')"
      by (cases "writer_flush (os_writer ?o) (os_disk ?o)")
    obtain res2 w2 d2 where y: "writer_sync (os_writer ?o) (os_disk ?o) = (res2, w2, d2)"
      by (cases "writer_sync (os_writer ?o) (os_disk ?o)")
    from out show ?thesis
    proof
      assume o1: "os_phase ?o = OutWriting"
      from output_empty [OF out_flush [OF o1 f] idle(1)] o1 show ?thesis by (fastforce simp: measure)
    next
      assume o1: "os_phase ?o = OutWaiting"
      from output_closed [OF out_close [OF o1 y] idle] o1 show ?thesis by (fastforce simp: measure)
    qed
  next
    case run
    have room: "length (p_records p) < RECORD_QUEUE" using run(1) by (simp add: RECORD_QUEUE_def)
    show ?thesis
    proof (cases "es_phase ?e")
      case AtTop
      obtain en report where "tick cel 0 (es_engine ?e) = (en, report)" by (cases "tick cel 0 (es_engine ?e)")
      from engine_local [OF eng_tick [OF AtTop this]] AtTop show ?thesis by (fastforce simp: measure)
    next
      case (SendingTick t ls)
      show ?thesis
      proof (cases ls)
        case Nil
        from engine_local [OF eng_wait [OF SendingTick [unfolded Nil]]] SendingTick show ?thesis
          by (fastforce simp: measure)
      next
        case (Cons l ls')
        from engine_send [OF eng_send_tick [OF SendingTick [unfolded Cons]] room run(3)] SendingTick Cons show ?thesis
          by (fastforce simp: measure)
      qed
    next
      case (SendingSample ls)
      show ?thesis
      proof (cases ls)
        case Nil
        from engine_local [OF eng_loop [OF SendingSample [unfolded Nil]]] SendingSample show ?thesis
          by (fastforce simp: measure)
      next
        case (Cons l ls')
        from engine_send [OF eng_send_sample [OF SendingSample [unfolded Cons]] room run(3)] SendingSample Cons
        show ?thesis by (fastforce simp: measure)
      qed
    next
      case (Selecting t later)
      show ?thesis
      proof (cases "p_samples p")
        case (Cons s ss)
        obtain en report where "on_sample cel 0 s (es_engine ?e) = (en, report)" by (cases "on_sample cel 0 s (es_engine ?e)")
        from engine_take [OF eng_take [OF Selecting this] Cons] Cons show ?thesis by (fastforce simp: measure)
      next
        case Nil
        show ?thesis
        proof (cases "is_end ?i = Listening")
          case False
          from engine_closed [OF eng_closed [OF Selecting] Nil False] Selecting show ?thesis
            by (fastforce simp: measure)
        next
          case True
          show ?thesis
          proof (cases "is_unsent ?i")
            case unsent: (Cons s ss)
            have "length (p_samples p) < SAMPLE_QUEUE" using Nil by (simp add: SAMPLE_QUEUE_def)
            from ingest_send [OF ing_send [OF True unsent] this run(2)] unsent show ?thesis by (fastforce simp: measure)
          next
            case unsent: Nil
            obtain j where "ingest_step c ?i IngLocal j" and "length (is_events j) < length (is_events ?i)"
              using ingest_moves [OF _ ends True unsent] inv by (auto simp: pipe_inv_def)
            from ingest_local [OF this(1)] this(2) show ?thesis by (fastforce simp: measure)
          qed
        qed
      qed
    next
      case TaskEnded
      with run show ?thesis by simp
    qed
  qed
qed

lemma pipe_drains:
  assumes "pipe_inv c cel to_vec evs e0 w d p" and "ingest_ends evs \<noteq> Listening"
  shows "\<exists>q. (pipe_step c cel to_vec)\<^sup>*\<^sup>* p q \<and> drained q \<and> is_end (p_ingest q) = ingest_ends evs"
  using wf_less_work assms(1)
proof (induction p rule: wf_induct_rule)
  case (less p)
  show ?case
  proof (cases "drained p")
    case True
    have "ingest_inv c evs (p_ingest p)" and "is_end (p_ingest p) \<noteq> Listening"
      using less.prems True by (simp_all add: pipe_inv_def drained_def)
    then have "is_end (p_ingest p) = ingest_ends evs"
      by (auto simp: ingest_inv_def ingest_ends_prefix)
    with True show ?thesis by blast
  next
    case False
    from pipe_progress [OF less.prems assms(2) this] obtain q where q: "pipe_step c cel to_vec p q" "(q, p) \<in> less_work"
      by blast
    from less.IH [OF q(2) pipe_step_inv [OF q(1) less.prems]] q(1) show ?thesis
      by (meson converse_rtranclp_into_rtranclp)
  qed
qed

end
