(* ===== verification/Shutdown_Props.thy ===== *)
theory Shutdown_Props
  imports Shutdown Pipeline_Props Engine_Logs
begin

text \<open>
  What holds however the process ends: the invariant of the engine and the output survives dropped
  tasks, and \<open>main\<close> returns without a time-out only after the tasks have drained.
\<close>

text \<open>The part of the invariant of the pipeline that dropped tasks keep.\<close>

definition core_inv ::
  "('p, 'v) cel \<Rightarrow> (log_record \<Rightarrow> (io_error, u8 list) result) \<Rightarrow> 'p engine \<Rightarrow> writer \<Rightarrow> disk \<Rightarrow> 'p pipe \<Rightarrow> bool" where
  "core_inv cel to_vec e0 w d p \<longleftrightarrow>
     engine_inv cel e0 (p_engine p) \<and> output_inv to_vec w d (p_output p)
     \<and> is_sent (p_ingest p) = es_taken (p_engine p) @ p_samples p
     \<and> es_sent (p_engine p) = os_taken (p_output p) @ p_records p"

lemma pipe_inv_core: "pipe_inv c cel to_vec evs e0 w d p \<Longrightarrow> core_inv cel to_vec e0 w d p"
  by (simp add: pipe_inv_def core_inv_def)

lemma pipe_step_core:
  assumes "pipe_step c cel to_vec p q" and "core_inv cel to_vec e0 w d p"
  shows "core_inv cel to_vec e0 w d q"
  using assms
  by (induction rule: pipe_step.induct)
    (auto simp: core_inv_def dest: ingest_step_sent engine_step_inv engine_step_io output_step_inv output_step_io)

text \<open>An ended task moves no more.\<close>

lemma drained_stuck: "drained p \<Longrightarrow> \<not> pipe_step c cel to_vec p q"
  by (auto simp: drained_def elim!: pipe_step.cases
      dest: ingest_step_ended engine_step_io output_step_io)

definition clean_return :: "'p process \<Rightarrow> bool" where
  "clean_return s \<longleftrightarrow>
     (\<exists>r. pr_main s = MainReturned r \<and> \<not> pr_timed_out s
        \<and> drained (pr_pipe s) \<and> r = main_result (ingest_joined (p_ingest (pr_pipe s))))"

definition process_inv ::
  "catalog \<Rightarrow> ('p, 'v) cel \<Rightarrow> (log_record \<Rightarrow> (io_error, u8 list) result) \<Rightarrow> ingest_event list
    \<Rightarrow> 'p engine \<Rightarrow> writer \<Rightarrow> disk \<Rightarrow> 'p process \<Rightarrow> bool" where
  "process_inv c cel to_vec evs e0 w d s \<longleftrightarrow>
     core_inv cel to_vec e0 w d (pr_pipe s)
     \<and> (\<not> pr_ingest_gone s \<and> \<not> pr_engine_gone s \<longrightarrow> pipe_inv c cel to_vec evs e0 w d (pr_pipe s))
     \<and> (pr_ingest_gone s \<or> pr_engine_gone s \<longrightarrow> (\<exists>r. pr_main s = MainReturned r))
     \<and> (os_phase (p_output (pr_pipe s)) = OutClosed \<longrightarrow> p_records (pr_pipe s) = [])
     \<and> (case pr_main s of
          MainDraining r \<Rightarrow> is_end (p_ingest (pr_pipe s)) \<noteq> Listening \<and> r = ingest_joined (p_ingest (pr_pipe s))
        | MainReturned r \<Rightarrow>
            clean_return s \<and> pipe_inv c cel to_vec evs e0 w d (pr_pipe s)
            \<or> pr_timed_out s \<or> (\<exists>install wake e. shutdown_signal install wake = Err e \<and> r = Err e)
        | _ \<Rightarrow> True)"

lemma process_inv_start:
  "process_inv c cel to_vec evs (st_engine st) (st_writer st) d (process_start info evs st d)"
  using pipe_inv_start [of c cel to_vec evs st d]
  by (auto simp: process_inv_def process_start_def pipe_inv_core) (simp add: pipe_start_def)

lemma pipe_step_ingest_ended: "pipe_step c cel to_vec p q \<Longrightarrow> is_end (p_ingest p) \<noteq> Listening \<Longrightarrow> p_ingest q = p_ingest p"
  by (induction rule: pipe_step.induct) (auto dest: ingest_step_ended)

lemma pipe_step_closed:
  "pipe_step c cel to_vec p q \<Longrightarrow> os_phase (p_output p) = OutClosed \<longrightarrow> p_records p = []
    \<Longrightarrow> os_phase (p_output q) = OutClosed \<longrightarrow> p_records q = []"
  by (induction rule: pipe_step.induct) (auto dest: output_step_io)

lemma process_step_inv:
  assumes "process_step c cel to_vec s s'" and "process_inv c cel to_vec evs e0 w d s"
  shows "process_inv c cel to_vec evs e0 w d s'"
  using assms(1)
proof cases
  case (tasks_step p)
  have core: "core_inv cel to_vec e0 w d p"
    using pipe_step_core [OF tasks_step(2)] assms(2) by (simp add: process_inv_def)
  have stuck: "\<not> clean_return s" unfolding clean_return_def using drained_stuck tasks_step(2) by blast
  show ?thesis
    using assms(2) core stuck pipe_step_inv [OF tasks_step(2)] pipe_step_closed [OF tasks_step(2)]
      pipe_step_ingest_ended [OF tasks_step(2)]
    unfolding process_inv_def tasks_step(1) by (auto split: main_phase.splits)
next
  case (main_joins_others r)
  with assms(2) have "drained (pr_pipe s)" "r = ingest_joined (p_ingest (pr_pipe s))"
    and inv: "pipe_inv c cel to_vec evs e0 w d (pr_pipe s)"
    by (auto simp: process_inv_def drained_def)
  with assms(2) show ?thesis unfolding main_joins_others(1) by (auto simp: process_inv_def clean_return_def)
next
  case (engine_orphaned e)
  have "core_inv cel to_vec e0 w d ((pr_pipe s)\<lparr>p_engine := e\<rparr>)"
    using assms(2) engine_orphaned engine_step_inv [OF engine_orphaned(5)] engine_step_io [OF engine_orphaned(5)]
    by (auto simp: process_inv_def core_inv_def)
  moreover have "\<not> clean_return s"
    using engine_step_io [OF engine_orphaned(5)] by (auto simp: clean_return_def drained_def)
  ultimately show ?thesis
    using assms(2) engine_orphaned unfolding process_inv_def engine_orphaned(1) by (auto split: main_phase.splits)
next
  case (ingest_orphaned i)
  have "core_inv cel to_vec e0 w d ((pr_pipe s)\<lparr>p_ingest := i\<rparr>)"
    using assms(2) ingest_step_sent [OF ingest_orphaned(4)] by (auto simp: process_inv_def core_inv_def)
  moreover have "\<not> clean_return s"
    using ingest_step_ended [OF ingest_orphaned(4)] by (auto simp: clean_return_def drained_def)
  ultimately show ?thesis
    using assms(2) ingest_orphaned unfolding process_inv_def ingest_orphaned(1) by (auto split: main_phase.splits)
next
  case (output_orphaned o1)
  have "core_inv cel to_vec e0 w d ((pr_pipe s)\<lparr>p_output := o1\<rparr>)"
    using assms(2) output_orphaned output_step_inv [OF output_orphaned(4)] output_step_io [OF output_orphaned(4)]
    by (auto simp: process_inv_def core_inv_def)
  moreover have "\<not> clean_return s"
    using output_step_io [OF output_orphaned(4)] by (auto simp: clean_return_def drained_def)
  ultimately show ?thesis
    using assms(2) output_orphaned unfolding process_inv_def output_orphaned(1) by (auto split: main_phase.splits)
qed (use assms(2) in \<open>auto simp: process_inv_def clean_return_def\<close>)

lemma process_reachable_inv:
  assumes "(process_step c cel to_vec)\<^sup>*\<^sup>* (process_start info evs st d) s"
  shows "process_inv c cel to_vec evs (st_engine st) (st_writer st) d s"
  using assms by (induction rule: rtranclp_induct) (auto intro: process_step_inv process_inv_start)

section \<open>The samples of a trace\<close>

lemma trace_samples_append: "trace_samples (evs @ evs') = trace_samples evs @ trace_samples evs'"
  by (induction evs rule: trace_samples.induct) simp_all

lemma trace_samples_rounds: "trace_samples (rounds_trace rds) = rounds_samples rds"
  by (induction rds) (auto split: wake.split)

lemma engine_inv_samples: "engine_inv cel e0 e \<Longrightarrow> trace_samples (engine_trace e) = es_taken e"
  by (simp add: engine_inv_def engine_trace_def trace_samples_append trace_samples_rounds split: phase.split)

section \<open>Runs of the tasks within the process\<close>

lemma tasks_run:
  assumes "(pipe_step c cel to_vec)\<^sup>*\<^sup>* p q" and "pr_pipe s = p" and "pr_stop s" and "\<not> pr_ingest_gone s" and "\<not> pr_engine_gone s"
  shows "(process_step c cel to_vec)\<^sup>*\<^sup>* s (s\<lparr>pr_pipe := q\<rparr>)"
  using assms(1)
proof (induction rule: rtranclp_induct)
  case base
  then show ?case using assms(2) by (cases s) simp
next
  case (step q r)
  have "process_step c cel to_vec (s\<lparr>pr_pipe := q\<rparr>) (s\<lparr>pr_pipe := q\<rparr>\<lparr>pr_pipe := r\<rparr>)"
    by (rule tasks_step) (use step.hyps assms in simp_all)
  with step.IH show ?case by (simp add: rtranclp.rtrancl_into_rtrancl)
qed

text \<open>A daemon that gets a signal can stop: ingest returns, the queues drain, and \<open>main\<close> returns.\<close>

lemma process_can_stop:
  assumes "ingest_ends evs \<noteq> Listening"
  shows "\<exists>s. (process_step (st_catalog st) cel to_vec)\<^sup>*\<^sup>* (process_start info evs st d) s
    \<and> process_over s \<and> \<not> pr_timed_out s \<and> pr_main s = MainReturned (main_result (ingest_joined (p_ingest (pr_pipe s))))
    \<and> is_end (p_ingest (pr_pipe s)) = ingest_ends evs"
proof -
  let ?step = "process_step (st_catalog st) cel to_vec"
  let ?s0 = "process_start info evs st d"
  let ?s1 = "?s0\<lparr>pr_main := MainStopping, pr_stop := True\<rparr>"
  obtain q where q: "(pipe_step (st_catalog st) cel to_vec)\<^sup>*\<^sup>* (pipe_start evs st d) q" "drained q"
    "is_end (p_ingest q) = ingest_ends evs"
    using pipe_drains [OF pipe_inv_start assms] by blast
  let ?s2 = "?s1\<lparr>pr_pipe := q\<rparr>"
  let ?r = "ingest_joined (p_ingest q)"
  let ?s3 = "?s2\<lparr>pr_main := MainDraining ?r\<rparr>"
  let ?s4 = "?s3\<lparr>pr_main := MainReturned (main_result ?r)\<rparr>"
  have "shutdown_signal (Ok ()) Terminate = Ok ''SIGTERM''" by (simp add: shutdown_signal_def with_context_def)
  then have "?step ?s0 ?s1" by (intro main_signal) (simp_all add: process_start_def)
  moreover have "?step\<^sup>*\<^sup>* ?s1 ?s2" by (rule tasks_run [OF q(1)]) (simp_all add: process_start_def)
  moreover have "?step ?s2 ?s3"
    using main_joins_ingest [of ?s2] q(2) by (simp add: drained_def)
  moreover have "?step ?s3 ?s4"
    using main_joins_others [of ?s3 ?r] q(2) by (simp add: drained_def)
  ultimately have "?step\<^sup>*\<^sup>* ?s0 ?s4" by (meson converse_rtranclp_into_rtranclp rtranclp.rtrancl_into_rtrancl)
  moreover have "process_over ?s4" "\<not> pr_timed_out ?s4"
    using q(2) by (simp_all add: process_over_def drained_def process_start_def)
  ultimately show ?thesis using q(3) by (intro exI [of _ ?s4]) simp
qed

end
