(* ===== verification/Pipeline_Properties.thy ===== *)
theory Pipeline_Properties
  imports Shutdown_Props Daemon_Properties
begin

text \<open>
  The properties of the daemon under every interleaving of its tasks: it runs as the sequential
  composition of \<open>Daemon\<close> says, and it never gets stuck.
\<close>

text \<open>However the three tasks interleave and block on the bounded queues, a daemon that was stopped and
  has drained has done exactly what \<open>daemon_run\<close> describes: there is an orderly session, whose ingest
  events are the ones received, with the same statistics of the three tasks and the same disk.\<close>

theorem every_interleaving_is_a_session:
  assumes "(pipe_step (st_catalog st) cel to_vec)\<^sup>*\<^sup>* (pipe_start evs st d) p"
    and "drained p" and "is_end (p_ingest p) = Returned"
  shows "\<exists>ses. prefix (ses_ingest ses) evs \<and> orderly cel ses st
    \<and> daemon_run cel to_vec ses st d =
        (is_stats (p_ingest p), es_stats (p_engine p), os_stats (p_output p), os_disk (p_output p))"
proof -
  have inv: "pipe_inv (st_catalog st) cel to_vec evs (st_engine st) (st_writer st) d p"
    by (rule pipe_reachable_inv [OF assms(1) pipe_inv_start])
  from drained_run [OF inv assms(2,3)] session_prefix [OF inv] show ?thesis by blast
qed

abbreviation "demo_events \<equiv> ses_ingest demo_session"

lemma demo_ends: "ingest_ends demo_events = Returned"
  by (simp add: demo_session_def session_for_def Let_def)

lemma demo_drains:
  "\<exists>p. (pipe_step (st_catalog demo_started) ident_cel to_vec)\<^sup>*\<^sup>* (pipe_start demo_events demo_started empty_disk) p
    \<and> drained p \<and> is_end (p_ingest p) = Returned"
  using pipe_drains [OF pipe_inv_start, of demo_events "st_catalog demo_started" ident_cel to_vec demo_started empty_disk]
  by (simp add: demo_ends)

theorem every_interleaving_is_a_session_witness:
  "\<exists>p ses. (pipe_step (st_catalog demo_started) ident_cel (\<lambda>l. Ok (map of_char (lr_rule_id l))))\<^sup>*\<^sup>*
      (pipe_start demo_events demo_started empty_disk) p
    \<and> drained p \<and> prefix (ses_ingest ses) demo_events \<and> orderly ident_cel ses demo_started
    \<and> daemon_run ident_cel (\<lambda>l. Ok (map of_char (lr_rule_id l))) ses demo_started empty_disk =
        (is_stats (p_ingest p), es_stats (p_engine p), os_stats (p_output p), os_disk (p_output p))"
proof -
  obtain p where steps: "(pipe_step (st_catalog demo_started) ident_cel (\<lambda>l. Ok (map of_char (lr_rule_id l))))\<^sup>*\<^sup>*
      (pipe_start demo_events demo_started empty_disk) p"
    and p: "drained p" "is_end (p_ingest p) = Returned"
    using demo_drains by blast
  from every_interleaving_is_a_session [OF steps p] steps p(1) show ?thesis by blast
qed

text \<open>C14: The daemon never deadlocks on its queues. In every state that any interleaving can reach, the queues
  hold no more than their capacities and pass samples and records on in order, nothing lost and nothing
  twice; and when the input ends at some time, all tasks can still run to their ends from there.\<close>

theorem tasks_never_deadlock:
  assumes "(pipe_step (st_catalog st) cel to_vec)\<^sup>*\<^sup>* (pipe_start evs st d) p" and "ingest_ends evs \<noteq> Listening"
  shows "length (p_samples p) \<le> SAMPLE_QUEUE \<and> length (p_records p) \<le> RECORD_QUEUE
    \<and> is_sent (p_ingest p) = es_taken (p_engine p) @ p_samples p
    \<and> es_sent (p_engine p) = os_taken (p_output p) @ p_records p
    \<and> (\<exists>q. (pipe_step (st_catalog st) cel to_vec)\<^sup>*\<^sup>* p q \<and> drained q \<and> is_end (p_ingest q) = ingest_ends evs)"
proof -
  have inv: "pipe_inv (st_catalog st) cel to_vec evs (st_engine st) (st_writer st) d p"
    by (rule pipe_reachable_inv [OF assms(1) pipe_inv_start])
  with pipe_drains [OF inv assms(2)] show ?thesis by (simp add: pipe_inv_def)
qed

theorem tasks_never_deadlock_witness:
  "\<exists>q. (pipe_step (st_catalog demo_started) ident_cel (\<lambda>l. Err IoError))\<^sup>*\<^sup>*
      (pipe_start demo_events demo_started empty_disk) q
    \<and> drained q \<and> is_end (p_ingest q) = Returned"
  using tasks_never_deadlock [where p = "pipe_start demo_events demo_started empty_disk" and evs = demo_events
      and st = demo_started and d = empty_disk and cel = ident_cel and to_vec = "\<lambda>l. Err IoError"]
  by (simp add: demo_ends)

text \<open>C15: However the process ends - a signal, a failing socket, a signal handler that cannot be
  installed, a time-out of the draining, tasks dropped at any await - once it is over, the output thread has
  taken every record the engine task handed over, once and in order, and the counters, the writer and the
  disk are those of \<open>output_run\<close> on its batches: each record counted once, as written or as a write error.
  The records are the first ones of the engine's run on the trace of its task, whose samples are the
  first ones that ingest sent. Started over an empty directory whose calls do not fail, all of them are written and
  the files are those of the specification of the log.\<close>

theorem every_end_writes_what_was_sent:
  assumes "(process_step (st_catalog st) cel to_vec)\<^sup>*\<^sup>* (process_start info evs st d) s" and "process_over s"
  shows "let i = p_ingest (pr_pipe s); e = p_engine (pr_pipe s); o1 = p_output (pr_pipe s) in
    concat (os_batches o1) = es_sent e
    \<and> output_run to_vec (os_batches o1) (st_writer st) d = (os_stats o1, os_writer o1, os_disk o1)
    \<and> records_written (os_stats o1) + write_errors (os_stats o1) = of_nat (length (es_sent e))
    \<and> prefix (es_sent e) (concat (map records (snd (run (engine_handle cel) (engine_trace e) (st_engine st)))))
    \<and> es_engine e = fst (run (engine_handle cel) (engine_trace e) (st_engine st))
    \<and> prefix (trace_samples (engine_trace e)) (is_sent i)
    \<and> (\<forall>d0 max_bytes max_files line.
         dsk_names d0 = [] \<longrightarrow> dsk_faults d0 = [] \<longrightarrow> writer_open max_bytes max_files d0 = (Ok (st_writer st), d)
         \<longrightarrow> (\<forall>l\<in>set (es_sent e). to_vec l = Ok (line l))
         \<longrightarrow> os_stats o1 = \<lparr>records_written = of_nat (length (es_sent e)), write_errors = 0\<rparr>
           \<and> disk_file (os_disk o1) = fold (log_add max_bytes (max max_files 1)) (map line (es_sent e)) fresh_log)"
proof -
  define e o1 where "e = p_engine (pr_pipe s)" and "o1 = p_output (pr_pipe s)"
  have inv: "process_inv (st_catalog st) cel to_vec evs (st_engine st) (st_writer st) d s"
    by (rule process_reachable_inv [OF assms(1)])
  have closed: "os_phase o1 = OutClosed" using assms(2) by (simp add: process_over_def o1_def)
  with inv have core: "core_inv cel to_vec (st_engine st) (st_writer st) d (pr_pipe s)" and "p_records (pr_pipe s) = []"
    by (simp_all add: process_inv_def o1_def)
  then have io: "engine_inv cel (st_engine st) e" "output_inv to_vec (st_writer st) d o1" "es_sent e = os_taken o1"
    and sent: "prefix (es_taken e) (is_sent (p_ingest (pr_pipe s)))"
    by (auto simp: core_inv_def e_def o1_def)
  then have batches: "concat (os_batches o1) = es_sent e"
    and out: "output_run to_vec (os_batches o1) (st_writer st) d = (os_stats o1, os_writer o1, os_disk o1)"
    using closed by (auto simp: output_inv_def)
  have "records_written (os_stats o1) + write_errors (os_stats o1) = of_nat (length (es_sent e))"
    by (rule output_run_total [OF out, unfolded batches])
  moreover have "prefix (es_sent e) (concat (map records (snd (run (engine_handle cel) (engine_trace e) (st_engine st)))))"
    "es_engine e = fst (run (engine_handle cel) (engine_trace e) (st_engine st))"
    using io(1) by (auto simp: engine_inv_def intro: prefixI [OF sym])
  moreover have "prefix (trace_samples (engine_trace e)) (is_sent (p_ingest (pr_pipe s)))"
    using sent by (simp add: engine_inv_samples [OF io(1)])
  moreover have "os_stats o1 = \<lparr>records_written = of_nat (length (es_sent e)), write_errors = 0\<rparr>
      \<and> disk_file (os_disk o1) = fold (log_add max_bytes (max max_files 1)) (map line (es_sent e)) fresh_log"
    if "dsk_names d0 = []" "dsk_faults d0 = []" "writer_open max_bytes max_files d0 = (Ok (st_writer st), d)"
      "\<forall>l\<in>set (es_sent e). to_vec l = Ok (line l)" for d0 max_bytes max_files line
    using output_run_fresh [OF that(1-3), of "os_batches o1" to_vec line] that(4) by (simp add: batches out)
  ultimately show ?thesis
    unfolding Let_def e_def [symmetric] o1_def [symmetric] using batches out by blast
qed

abbreviation "demo_disk \<equiv> snd (writer_open 2048 3 empty_disk)"

abbreviation "demo_step \<equiv> process_step (st_catalog demo_started) ident_cel (\<lambda>l. Ok (map of_char (lr_rule_id l)))"

lemma demo_stops:
  "\<exists>s. demo_step\<^sup>*\<^sup>* (process_start info demo_events demo_started demo_disk) s \<and> process_over s \<and> \<not> pr_timed_out s
    \<and> pr_main s = MainReturned (Ok ())"
proof -
  obtain s where s: "demo_step\<^sup>*\<^sup>* (process_start info demo_events demo_started demo_disk) s" "process_over s"
    "\<not> pr_timed_out s" "pr_main s = MainReturned (main_result (ingest_joined (p_ingest (pr_pipe s))))"
    "is_end (p_ingest (pr_pipe s)) = Returned"
    using process_can_stop [of demo_events demo_started ident_cel _ info demo_disk] demo_ends by (metis ingest_end.distinct(1))
  then show ?thesis by (auto simp: ingest_joined_def main_result_def with_context_def)
qed

theorem every_end_writes_what_was_sent_witness:
  "\<exists>s. demo_step\<^sup>*\<^sup>* (process_start True demo_events demo_started demo_disk) s \<and> process_over s
    \<and> records_written (os_stats (p_output (pr_pipe s))) = of_nat (length (es_sent (p_engine (pr_pipe s))))
    \<and> disk_file (os_disk (p_output (pr_pipe s)))
        = fold (log_add 2048 3) (map (\<lambda>l. map of_char (lr_rule_id l)) (es_sent (p_engine (pr_pipe s)))) fresh_log"
proof -
  obtain s where s: "demo_step\<^sup>*\<^sup>* (process_start True demo_events demo_started demo_disk) s" "process_over s"
    using demo_stops by blast
  have opened: "writer_open 2048 3 empty_disk = (Ok (st_writer demo_started), demo_disk)"
    by (simp add: demo_started_def writer_open_def os_open_append_def os_call_def next_fault_def empty_disk_def
        open_create_def)
  let ?o = "p_output (pr_pipe s)" and ?e = "p_engine (pr_pipe s)" and ?line = "\<lambda>l. map of_char (lr_rule_id l)"
  have "dsk_names empty_disk = []" "dsk_faults empty_disk = []" by (simp_all add: empty_disk_def)
  note empty = this
  have lines: "\<forall>l\<in>set (es_sent ?e). (Ok (?line l) :: (io_error, u8 list) result) = Ok (?line l)" by simp
  note all = every_end_writes_what_was_sent [OF s, unfolded Let_def]
  from all [THEN conjunct2, THEN conjunct2, THEN conjunct2, THEN conjunct2, THEN conjunct2, THEN conjunct2,
      rule_format, OF empty opened, of ?line]
  have "os_stats ?o = \<lparr>records_written = of_nat (length (es_sent ?e)), write_errors = 0\<rparr>
      \<and> disk_file (os_disk ?o) = fold (log_add 2048 (max 3 1)) (map ?line (es_sent ?e)) fresh_log"
    using lines by blast
  then show ?thesis using s by auto
qed

text \<open>C13: The daemon reports success only for a complete run. When \<open>main\<close> returns \<open>Ok\<close> and the draining
  was not given up, the session was orderly: ingest was stopped, every sample was
  evaluated, every record written; and the statistics and the disk are those of \<open>daemon_run\<close>.\<close>

theorem clean_exit_is_a_session:
  assumes "(process_step (st_catalog st) cel to_vec)\<^sup>*\<^sup>* (process_start info evs st d) s"
    and "pr_main s = MainReturned (Ok ())" and "\<not> pr_timed_out s"
  shows "\<exists>ses. prefix (ses_ingest ses) evs \<and> orderly cel ses st
    \<and> daemon_run cel to_vec ses st d =
        (is_stats (p_ingest (pr_pipe s)), es_stats (p_engine (pr_pipe s)), os_stats (p_output (pr_pipe s)),
         os_disk (p_output (pr_pipe s)))"
proof -
  have "process_inv (st_catalog st) cel to_vec evs (st_engine st) (st_writer st) d s"
    by (rule process_reachable_inv [OF assms(1)])
  with assms(2,3) have inv: "pipe_inv (st_catalog st) cel to_vec evs (st_engine st) (st_writer st) d (pr_pipe s)"
    and ret: "drained (pr_pipe s)" "main_result (ingest_joined (p_ingest (pr_pipe s))) = Ok ()"
    by (auto simp: process_inv_def clean_return_def)
  then have "is_end (p_ingest (pr_pipe s)) = Returned"
    by (cases "is_end (p_ingest (pr_pipe s))")
      (auto simp: main_result_def ingest_joined_def drained_def with_context_def)
  with drained_run [OF inv ret(1)] session_prefix [OF inv] show ?thesis by blast
qed

theorem clean_exit_is_a_session_witness:
  "\<exists>s ses. demo_step\<^sup>*\<^sup>* (process_start True demo_events demo_started demo_disk) s \<and> pr_main s = MainReturned (Ok ())
    \<and> prefix (ses_ingest ses) demo_events \<and> orderly ident_cel ses demo_started"
proof -
  obtain s where s: "demo_step\<^sup>*\<^sup>* (process_start True demo_events demo_started demo_disk) s"
    "pr_main s = MainReturned (Ok ())" "\<not> pr_timed_out s"
    using demo_stops by blast
  from clean_exit_is_a_session [OF s] s(1,2) show ?thesis by blast
qed

end
