(* ===== verification/Rng.thy ===== *)
theory Rng
  imports Float64
begin

text \<open>
  The seeded generator of the simulator (\<open>crates/simulator/src/rng.rs\<close>): splitmix64 for the seed,
  xorshift64* for the stream. Each operation returns its result and the new state. \<open>below\<close> divides by
  its argument, which must not be zero; every call of the simulator passes a positive one.
\<close>

unbundle bit_operations_syntax

section \<open>The generator\<close>

type_synonym rng = u64

definition rng_new :: "u64 \<Rightarrow> rng" where
  "rng_new seed =
     (let z0 = seed + 0x9E3779B97F4A7C15;
          z1 = (z0 XOR drop_bit 30 z0) * 0xBF58476D1CE4E5B9;
          z2 = (z1 XOR drop_bit 27 z1) * 0x94D049BB133111EB;
          z3 = z2 XOR drop_bit 31 z2
      in if z3 = 0 then 1 else z3)"

definition next_u64 :: "rng \<Rightarrow> u64 \<times> rng" where
  "next_u64 r =
     (let x1 = r XOR drop_bit 12 r;
          x2 = x1 XOR push_bit 25 x1;
          x3 = x2 XOR drop_bit 27 x2
      in (x3 * 0x2545F4914F6CDD1D, x3))"

definition rng_f64 :: "rng \<Rightarrow> f64 \<times> rng" where
  "rng_f64 r =
     (case next_u64 r of (x, r') \<Rightarrow> (f64_div (f64_of_int (uint (drop_bit 11 x))) (f64_of_int (2 ^ 53)), r'))"

definition chance :: "f64 \<Rightarrow> rng \<Rightarrow> bool \<times> rng" where
  "chance p r = (case rng_f64 r of (x, r') \<Rightarrow> (f64_lt x p, r'))"

definition below :: "nat \<Rightarrow> rng \<Rightarrow> nat \<times> rng" where
  "below n r = (case next_u64 r of (x, r') \<Rightarrow> (unat (x mod of_nat n), r'))"

definition noise :: "f64 \<Rightarrow> rng \<Rightarrow> f64 \<times> rng" where
  "noise amp r =
     (case rng_f64 r of (x, r') \<Rightarrow> (f64_mul (f64_sub (f64_mul x (f64_lit 2 1)) (f64_lit 1 1)) amp, r'))"

fun rng_bytes :: "nat \<Rightarrow> rng \<Rightarrow> u8 list \<times> rng" where
  "rng_bytes 0 r = ([], r)"
| "rng_bytes (Suc n) r =
     (case next_u64 r of (x, r1) \<Rightarrow> (case rng_bytes n r1 of (bs, r2) \<Rightarrow> (ucast x # bs, r2)))"

definition some_bytes :: "nat \<Rightarrow> rng \<Rightarrow> u8 list \<times> rng" where
  "some_bytes max_len r = (case below max_len r of (k, r') \<Rightarrow> rng_bytes (1 + k) r')"

section \<open>The state is never zero\<close>

text \<open>Zero is the fixed point of the xorshift; the seeding avoids it and no step reaches it.\<close>

lemma xor_zeroD: "x XOR y = (0 :: u64) \<Longrightarrow> x = y"
  by (auto simp: bit_eq_iff bit_xor_iff)

lemma xor_drop_bit_zero:
  assumes "x XOR drop_bit n x = (0 :: u64)" and "0 < n"
  shows "x = 0"
proof -
  have "x = drop_bit n x" using assms(1) by (rule xor_zeroD)
  then have "unat x = unat x div 2 ^ n" by (metis unat_drop_bit_eq drop_bit_eq_div)
  moreover have "1 < (2 :: nat) ^ n" using assms(2) by (intro one_less_power) simp_all
  ultimately have "unat x = 0" by (metis div_eq_dividend_iff bot_nat_0.not_eq_extremum nat_less_le)
  then show ?thesis by (simp add: unat_eq_0)
qed

lemma xor_push_bit_zero:
  assumes "x XOR push_bit n x = (0 :: u64)" and "0 < n"
  shows "x = 0"
proof -
  have x: "x = push_bit n x" using assms(1) by (rule xor_zeroD)
  have "\<not> bit x i" for i
  proof (induction i rule: less_induct)
    case (less i)
    show ?case
    proof
      assume "bit x i"
      then have "bit (push_bit n x) i" using x by simp
      then have "n \<le> i" "bit x (i - n)" by (simp_all add: bit_push_bit_iff)
      with less.IH [of "i - n"] assms(2) show False by simp
    qed
  qed
  then show ?thesis by (simp add: bit_eq_iff)
qed

lemma next_u64_nonzero:
  assumes "r \<noteq> 0"
  shows "snd (next_u64 r) \<noteq> 0"
proof -
  have "r XOR drop_bit 12 r \<noteq> 0" using xor_drop_bit_zero [of r 12] assms by auto
  then have "(r XOR drop_bit 12 r) XOR push_bit 25 (r XOR drop_bit 12 r) \<noteq> 0"
    using xor_push_bit_zero [of "r XOR drop_bit 12 r" 25] by auto
  then show ?thesis
    using xor_drop_bit_zero [of "(r XOR drop_bit 12 r) XOR push_bit 25 (r XOR drop_bit 12 r)" 27]
    by (auto simp: next_u64_def Let_def)
qed

lemma rng_new_nonzero: "rng_new seed \<noteq> 0"
  by (simp add: rng_new_def Let_def)

section \<open>Ranges\<close>

lemma below_less:
  assumes "0 < n" and "n < 2 ^ 64"
  shows "fst (below n r) < n"
proof -
  have "unat (of_nat n :: u64) = n" using assms(2) by (simp add: unat_of_nat)
  then show ?thesis using assms(1) by (simp add: below_def split_beta unat_mod)
qed

lemma below_snd: "snd (below n r) = snd (next_u64 r)"
  by (simp add: below_def split_beta)

lemma length_rng_bytes: "length (fst (rng_bytes n r)) = n"
  by (induction n arbitrary: r) (simp_all add: split_beta)

lemma length_some_bytes:
  assumes "0 < n" and "n < 2 ^ 64"
  shows "1 \<le> length (fst (some_bytes n r)) \<and> length (fst (some_bytes n r)) \<le> n"
  using below_less [OF assms, of r] by (simp add: some_bytes_def split_beta length_rng_bytes)

end
