(* ===== verification/Garbage.thy ===== *)
theory Garbage
  imports Wire_Packet Rng
begin

text \<open>
  Malformed packets (\<open>crates/simulator/src/garbage.rs\<close>): each kind is built from a packet of valid
  frames to drive the decoder down one path, and the lemmas show that it does, for all frames,
  catalogs and states of the generator.
\<close>

section \<open>Kinds\<close>

datatype garbage_kind =
    GBadMagic
  | GBadVersion
  | GZeroFrames
  | GTruncated
  | GLengthMismatch
  | GUnknownSignal
  | GOversize
  | GTrailingBytes
  | GRandomBytes

definition all_kinds :: "garbage_kind list" where
  "all_kinds =
     [GBadMagic, GBadVersion, GZeroFrames, GTruncated, GLengthMismatch, GUnknownSignal, GOversize,
      GTrailingBytes, GRandomBytes]"

section \<open>Packets\<close>

text \<open>\<open>(0xF000..=u16::MAX).find(..).unwrap_or(u16::MAX)\<close>.\<close>

definition unused_id :: "catalog \<Rightarrow> u16" where
  "unused_id c =
     (case find (\<lambda>i. by_id c i = None) (map of_nat [0xF000..<0x10000]) of None \<Rightarrow> 0xFFFF | Some i \<Rightarrow> i)"

text \<open>
  Encoding the frames fails on an empty list, so there is a first and a last frame from then on.
\<close>

definition malformed ::
  "garbage_kind \<Rightarrow> raw_frame list \<Rightarrow> catalog \<Rightarrow> rng \<Rightarrow> (encode_error, u8 list) result \<times> rng" where
  "malformed kind frames c r =
     (case encode_packet frames of
        Err e \<Rightarrow> (Err e, r)
      | Ok bytes \<Rightarrow>
          (case kind of
             GBadMagic \<Rightarrow> (Ok (to_be_bytes (0xDEAD :: u16) @ drop 2 bytes), r)
           | GBadVersion \<Rightarrow> (case below 254 r of (k, r') \<Rightarrow> (Ok (bytes[2 := 2 + of_nat k]), r'))
           | GZeroFrames \<Rightarrow> (Ok [0x54, 0x45, 0x01, 0x00], r)
           | GTruncated \<Rightarrow>
               (let last_len = FRAME_HEADER_LEN + length (rf_payload (last frames))
                in case below last_len r of (k, r') \<Rightarrow> (Ok (take (length bytes - 1 - k) bytes), r'))
           | GLengthMismatch \<Rightarrow>
               (let f = hd frames in
                (encode_packet (f\<lparr>rf_payload := rf_payload f @ [0]\<rparr> # tl frames), r))
           | GUnknownSignal \<Rightarrow>
               (case some_bytes 8 r of (payload, r') \<Rightarrow>
                 (encode_packet (\<lparr>rf_signal_id = unused_id c, rf_timestamp_us = rf_timestamp_us (hd frames),
                    rf_payload = payload\<rparr> # frames), r'))
           | GOversize \<Rightarrow>
               (case below 200 r of (k, r1) \<Rightarrow>
                 (case rng_bytes (MAX_DATAGRAM_LEN + 1 + k - length bytes) r1 of (extra, r2) \<Rightarrow>
                   (Ok (bytes @ extra), r2)))
           | GTrailingBytes \<Rightarrow> (case some_bytes 8 r of (extra, r') \<Rightarrow> (Ok (bytes @ extra), r'))
           | GRandomBytes \<Rightarrow> (case some_bytes 64 r of (bs, r') \<Rightarrow> (Ok bs, r'))))"

definition garbage_packet ::
  "raw_frame list \<Rightarrow> catalog \<Rightarrow> rng \<Rightarrow> (encode_error, garbage_kind option \<times> u8 list) result \<times> rng" where
  "garbage_packet frames c r =
     (case chance (f64_lit 1 2) r of
        (True, r1) \<Rightarrow> (and_then (encode_packet frames) (\<lambda>bytes. Ok (None, bytes)), r1)
      | (False, r1) \<Rightarrow>
          (case below (length all_kinds) r1 of (k, r2) \<Rightarrow>
            (let kind = all_kinds ! k in
             case malformed kind frames c r2 of (res, r3) \<Rightarrow>
               (and_then res (\<lambda>bytes. Ok (Some kind, bytes)), r3))))"

section \<open>The decoder's path\<close>

text \<open>The outcome of frames behind one more frame: every error names the next index.\<close>

definition behind_one :: "decoded_packet \<Rightarrow> decoded_packet" where
  "behind_one d = d\<lparr>dp_errors := map (\<lambda>e. e\<lparr>fe_index := Suc (fe_index e)\<rparr>) (dp_errors d)\<rparr>"

text \<open>
  What the daemon's decoder makes of a packet of each kind. A catalog that uses every id from
  \<open>0xF000\<close> on has no unknown signal to send; a few random bytes may be anything but too long.
\<close>

fun decoder_path ::
  "garbage_kind \<Rightarrow> catalog \<Rightarrow> raw_frame list \<Rightarrow> (packet_error, decoded_packet) result \<Rightarrow> bool" where
  "decoder_path GBadMagic c fs d \<longleftrightarrow> d = Err (BadMagic 0xDEAD)"
| "decoder_path GBadVersion c fs d \<longleftrightarrow> (\<exists>v. v \<noteq> VERSION \<and> d = Err (BadVersion v))"
| "decoder_path GZeroFrames c fs d \<longleftrightarrow> d = Err ZeroFrames"
| "decoder_path GTruncated c fs d \<longleftrightarrow>
     (\<exists>sid. d = Ok (push_error \<lparr>fe_index = length fs - 1, fe_signal_id = sid, fe_kind = Truncated\<rparr>
        (frames_outcome c (butlast fs))))"
| "decoder_path GLengthMismatch c fs d \<longleftrightarrow>
     (case by_id c (rf_signal_id (hd fs)) of
        None \<Rightarrow> d = Ok (frames_outcome c fs)
      | Some s \<Rightarrow>
          length (rf_payload (hd fs)) = type_size (sig_ty s) \<longrightarrow>
          d = Ok (let rest = behind_one (frames_outcome c (tl fs)) in
            rest\<lparr>dp_errors := \<lparr>fe_index = 0, fe_signal_id = Some (rf_signal_id (hd fs)),
                fe_kind = LengthMismatch (type_size (sig_ty s)) (Suc (type_size (sig_ty s)))\<rparr> # dp_errors rest\<rparr>))"
| "decoder_path GUnknownSignal c fs d \<longleftrightarrow>
     ((\<exists>i\<ge>0xF000. by_id c i = None) \<longrightarrow>
      d = Ok (let rest = behind_one (frames_outcome c fs) in rest\<lparr>dp_unknown := Suc (dp_unknown rest)\<rparr>))"
| "decoder_path GOversize c fs d \<longleftrightarrow> (\<exists>n. 1500 < n \<and> n \<le> 1700 \<and> d = Err (Oversize n))"
| "decoder_path GTrailingBytes c fs d \<longleftrightarrow>
     (\<exists>k. 1 \<le> k \<and> k \<le> 8
        \<and> d = (if packet_size fs + k \<le> 1500
               then Ok (push_error \<lparr>fe_index = length fs, fe_signal_id = None, fe_kind = TrailingBytes k\<rparr>
                      (frames_outcome c fs))
               else Err (Oversize (packet_size fs + k))))"
| "decoder_path GRandomBytes c fs d \<longleftrightarrow> (\<forall>n. d \<noteq> Err (Oversize n))"

lemma unat_of_small: "k < 256 \<Longrightarrow> unat (of_nat k :: u8) = k"
  by (simp add: unat_of_nat)

lemma encoded_parts:
  assumes "encode_packet fs = Ok bytes"
  obtains n ys where "bytes = to_be_bytes MAGIC @ [VERSION, n] @ ys"
    and "length ys + PACKET_HEADER_LEN \<le> MAX_DATAGRAM_LEN" and "fs \<noteq> []" and "length bytes = packet_size fs"
proof -
  have "length bytes \<le> MAX_DATAGRAM_LEN"
    using assms length_encoded [OF assms] by (simp add: encode_packet_Ok_iff)
  with assms that length_encoded [OF assms] show ?thesis
    by (auto simp: encode_packet_Ok_iff header_bytes_def be16.length_enc PACKET_HEADER_LEN_def)
qed

lemma packet_size_bounds: "fs \<noteq> [] \<Longrightarrow> 15 \<le> packet_size fs"
  by (cases fs) (simp_all add: packet_size_def PACKET_HEADER_LEN_def FRAME_HEADER_LEN_def)

lemma decode_wrong_magic:
  assumes "length ys + PACKET_HEADER_LEN \<le> MAX_DATAGRAM_LEN" and "m \<noteq> MAGIC"
  shows "decode_packet (to_be_bytes m @ [v, n] @ ys) c = Err (BadMagic m)"
  using decode_packet_header [OF assms(1), of m v n c] assms(2) by auto

lemma decode_wrong_version:
  assumes "length ys + PACKET_HEADER_LEN \<le> MAX_DATAGRAM_LEN" and "v \<noteq> VERSION"
  shows "decode_packet (to_be_bytes MAGIC @ [v, n] @ ys) c = Err (BadVersion v)"
  using decode_packet_header [OF assms(1), of MAGIC v n c] assms(2) by auto

lemma MAGIC_bytes: "to_be_bytes MAGIC = [0x54, 0x45 :: u8]"
proof -
  have digits: "le_digits (Suc (Suc 0)) 0x5445 = [0x45, 0x54 :: u8]"
    by (simp only: le_digits.simps) simp
  have "LENGTH(16) div 8 = Suc (Suc 0)" "unat MAGIC = 0x5445"
    by (simp_all add: MAGIC_def)
  with digits have "to_le_bytes MAGIC = [0x45, 0x54 :: u8]"
    unfolding to_le_bytes_def by metis
  then show ?thesis by (simp add: to_be_bytes_def)
qed

lemma decode_no_frames: "decode_packet [0x54, 0x45, 0x01, 0x00] c = Err ZeroFrames"
proof -
  have "length ([] :: u8 list) + PACKET_HEADER_LEN \<le> MAX_DATAGRAM_LEN"
    by (simp add: PACKET_HEADER_LEN_def MAX_DATAGRAM_LEN_def)
  from decode_packet_header [OF this, of MAGIC VERSION 0 c]
  have "decode_packet (to_be_bytes MAGIC @ [VERSION, 0] @ []) c = Err ZeroFrames" by auto
  then show ?thesis by (simp add: MAGIC_bytes VERSION_def)
qed

lemma decode_oversize: "1500 < length buf \<Longrightarrow> decode_packet buf c = Err (Oversize (length buf))"
  by (simp add: decode_packet_def MAX_DATAGRAM_LEN_def)

section \<open>Every kind takes its path\<close>

lemma path_bad_magic:
  assumes "encode_packet fs = Ok bytes"
  shows "decode_packet (to_be_bytes (0xDEAD :: u16) @ drop 2 bytes) c = Err (BadMagic 0xDEAD)"
proof -
  obtain n ys where "bytes = to_be_bytes MAGIC @ [VERSION, n] @ ys"
    and "length ys + PACKET_HEADER_LEN \<le> MAX_DATAGRAM_LEN"
    using encoded_parts [OF assms] .
  moreover from this have "drop 2 bytes = [VERSION, n] @ ys"
    by (simp add: MAGIC_bytes)
  moreover have "0xDEAD \<noteq> MAGIC" by (simp add: MAGIC_def)
  ultimately show ?thesis using decode_wrong_magic by metis
qed

lemma path_bad_version:
  assumes "encode_packet fs = Ok bytes" and "k < 254"
  shows "\<exists>v. v \<noteq> VERSION \<and> decode_packet (bytes[2 := 2 + of_nat k]) c = Err (BadVersion v)"
proof -
  obtain n ys where bytes: "bytes = to_be_bytes MAGIC @ [VERSION, n] @ ys"
    and len: "length ys + PACKET_HEADER_LEN \<le> MAX_DATAGRAM_LEN"
    using encoded_parts [OF assms(1)] .
  have val: "unat (2 + of_nat k :: u8) = 2 + k"
    using assms(2) by (simp add: unat_word_ariths unat_of_small)
  have "(2 + of_nat k :: u8) \<noteq> VERSION"
  proof
    assume "(2 + of_nat k :: u8) = VERSION"
    then have "unat (2 + of_nat k :: u8) = unat VERSION" by (rule arg_cong)
    then show False unfolding val VERSION_def by simp
  qed
  moreover have "bytes[2 := 2 + of_nat k] = to_be_bytes MAGIC @ [2 + of_nat k, n] @ ys"
    by (simp add: bytes MAGIC_bytes)
  ultimately show ?thesis using decode_wrong_version [OF len] by metis
qed

lemma path_truncated:
  assumes "encode_packet fs = Ok bytes" and "k < FRAME_HEADER_LEN + length (rf_payload (last fs))"
  shows "decoder_path GTruncated c fs (decode_packet (take (length bytes - 1 - k) bytes) c)"
proof -
  have "fs \<noteq> []" and "length bytes = packet_size fs" using encoded_parts [OF assms(1)] by metis+
  then have split: "fs = butlast fs @ last fs # []" by simp
  have "length bytes = PACKET_HEADER_LEN + length (frames_bytes (butlast fs)) + length (frame_bytes (last fs))"
    unfolding \<open>length bytes = packet_size fs\<close> packet_size_def length_frames_bytes length_frame_bytes
    by (subst split) simp
  then have "\<exists>sid. decode_packet (take (length bytes - 1 - k) bytes) c =
      Ok (push_error \<lparr>fe_index = length (butlast fs), fe_signal_id = sid, fe_kind = Truncated\<rparr>
        (frames_outcome c (butlast fs)))"
    using assms(2)
    by (intro decode_inside_frame [where f = "last fs" and hs = "[]"])
      (use assms(1) split in \<open>simp_all add: length_frame_bytes\<close>)
  then show ?thesis by simp
qed

lemma path_oversize:
  assumes "encode_packet fs = Ok bytes" and "k < 200" and "length extra = MAX_DATAGRAM_LEN + 1 + k - length bytes"
  shows "decoder_path GOversize c fs (decode_packet (bytes @ extra) c)"
proof -
  have "length bytes \<le> MAX_DATAGRAM_LEN"
    using assms(1) length_encoded [OF assms(1)] by (simp add: encode_packet_Ok_iff)
  with assms(3) have "length (bytes @ extra) = 1501 + k" by (simp add: MAX_DATAGRAM_LEN_def)
  with assms(2) decode_oversize [of "bytes @ extra" c] show ?thesis by simp
qed

lemma path_trailing:
  assumes "encode_packet fs = Ok bytes" and "1 \<le> length extra" and "length extra \<le> 8"
  shows "decoder_path GTrailingBytes c fs (decode_packet (bytes @ extra) c)"
proof (cases "packet_size fs + length extra \<le> 1500")
  case True
  have fs: "fs \<noteq> []" "length fs \<le> MAX_FRAMES" using assms(1) by (simp_all add: encode_packet_Ok_iff)
  have "decode_packet (bytes @ extra) c
      = Ok (with_trailing (word_of_nat (length fs)) extra (frames_outcome c fs))"
    using True by (intro decode_encoded_whole [OF assms(1)])
      (simp add: length_encoded [OF assms(1)] MAX_DATAGRAM_LEN_def)
  with True assms(2,3) show ?thesis
    by (auto simp: with_trailing_def count_of_length(1) [OF fs])
next
  case False
  with assms(2,3) decode_oversize [of "bytes @ extra" c] show ?thesis
    by (auto simp: length_encoded [OF assms(1)])
qed

lemma decode_encoded:
  assumes "encode_packet fs = Ok bytes"
  shows "decode_packet bytes c = Ok (frames_outcome c fs)"
proof -
  have "length bytes \<le> MAX_DATAGRAM_LEN"
    using assms length_encoded [OF assms] by (simp add: encode_packet_Ok_iff)
  with decode_encoded_whole [OF assms, of "[]" c] show ?thesis by (simp add: with_trailing_def)
qed

lemma failures_behind_one:
  "List.map_filter (frame_failure c) (enumerate (Suc n) fs)
    = map (\<lambda>e. e\<lparr>fe_index := Suc (fe_index e)\<rparr>) (List.map_filter (frame_failure c) (enumerate n fs))"
  by (induction fs arbitrary: n)
    (auto simp: map_filter_simps frame_failure_def split: option.split result.split)

lemma frames_outcome_Cons:
  "frames_outcome c (f # fs) =
     (let rest = behind_one (frames_outcome c fs) in
      \<lparr>dp_samples = (case frame_sample c f of None \<Rightarrow> [] | Some smp \<Rightarrow> [smp]) @ dp_samples rest,
       dp_errors = (case frame_failure c (0, f) of None \<Rightarrow> [] | Some e \<Rightarrow> [e]) @ dp_errors rest,
       dp_unknown = of_bool (frame_unknown c f) + dp_unknown rest\<rparr>)"
  using failures_behind_one [of c 0 fs]
  by (simp add: frames_outcome_def behind_one_def map_filter_simps split: option.split)

lemma path_length_mismatch:
  assumes "fs \<noteq> []" and "encode_packet ((hd fs)\<lparr>rf_payload := rf_payload (hd fs) @ [0]\<rparr> # tl fs) = Ok buf"
  shows "decoder_path GLengthMismatch c fs (decode_packet buf c)"
proof -
  let ?f = "(hd fs)\<lparr>rf_payload := rf_payload (hd fs) @ [0]\<rparr>"
  have d: "decode_packet buf c = Ok (frames_outcome c (?f # tl fs))"
    by (rule decode_encoded [OF assms(2)])
  show ?thesis
  proof (cases "by_id c (rf_signal_id (hd fs))")
    case None
    then have "frames_outcome c (hd fs # tl fs) = frames_outcome c (?f # tl fs)"
      unfolding frames_outcome_Cons
      by (simp add: frame_sample_def frame_failure_def frame_unknown_def)
    with d None assms(1) show ?thesis by simp
  next
    case (Some s)
    then show ?thesis
      by (simp add: d frames_outcome_Cons frame_sample_def frame_failure_def frame_unknown_def decode_value_def Let_def)
  qed
qed

text \<open>The search finds an unused id when there is one.\<close>

lemma unused_id_unused:
  assumes "i \<ge> 0xF000" and "by_id c i = None"
  shows "by_id c (unused_id c) = None"
proof (cases "find (\<lambda>i. by_id c i = None) (map of_nat [0xF000..<0x10000])")
  case None
  have "unat i < 0x10000" using unsigned_less [of i] by simp
  moreover have "0xF000 \<le> unat i" using assms(1) by (simp add: word_le_nat_alt)
  ultimately have "unat i \<in> {0xF000..<0x10000}" by simp
  then have "of_nat (unat i) \<in> set (map (of_nat :: nat \<Rightarrow> u16) [0xF000..<0x10000])"
    unfolding set_map set_upt by (rule imageI)
  moreover have "of_nat (unat i) = i" by simp
  ultimately have "i \<in> set (map (of_nat :: nat \<Rightarrow> u16) [0xF000..<0x10000])" by (simp only:)
  with None assms(2) show ?thesis by (simp only: find_None_iff) blast
next
  case (Some j)
  then have "by_id c j = None" by (simp only: find_Some_iff) blast
  with Some show ?thesis by (simp only: unused_id_def option.case)
qed

lemma path_unknown:
  assumes "encode_packet (\<lparr>rf_signal_id = unused_id c, rf_timestamp_us = t, rf_payload = p\<rparr> # fs) = Ok buf"
  shows "decoder_path GUnknownSignal c fs (decode_packet buf c)"
  using unused_id_unused
  by (auto simp: decode_encoded [OF assms] frames_outcome_Cons frame_sample_def frame_failure_def frame_unknown_def
      Let_def)

lemma path_random:
  assumes "length buf \<le> 64"
  shows "decoder_path GRandomBytes c fs (decode_packet buf c)"
proof -
  have "decode_packet buf c \<noteq> Err (Oversize n)" for n
    using assms by (auto simp: decode_packet_def MAX_DATAGRAM_LEN_def Let_def split: if_splits option.splits prod.splits result.splits)
  then show ?thesis by simp
qed

lemma malformed_takes_its_path:
  assumes "fst (malformed kind fs c r) = Ok buf"
  shows "decoder_path kind c fs (decode_packet buf c)"
proof -
  obtain bytes where enc: "encode_packet fs = Ok bytes"
    using assms by (cases "encode_packet fs") (simp_all add: malformed_def)
  then have ne: "fs \<noteq> []" by (simp add: encode_packet_Ok_iff)
  have b8: "1 \<le> length (fst (some_bytes 8 r)) \<and> length (fst (some_bytes 8 r)) \<le> 8"
    by (rule length_some_bytes) simp_all
  have b200: "fst (below 200 r) < 200" and b254: "fst (below 254 r) < 254"
    by (rule below_less; simp)+
  have "length (rf_payload (last fs)) \<le> 255"
    using enc ne by (simp add: encode_packet_Ok_iff list_all_iff frame_fits_def)
  then have last: "fst (below (FRAME_HEADER_LEN + length (rf_payload (last fs))) r)
      < FRAME_HEADER_LEN + length (rf_payload (last fs))"
    by (intro below_less) (simp_all add: FRAME_HEADER_LEN_def)
  show ?thesis
  proof (cases kind)
    case GBadMagic
    with assms enc path_bad_magic [OF enc] show ?thesis by (auto simp: malformed_def)
  next
    case GBadVersion
    with assms enc path_bad_version [OF enc b254] show ?thesis by (auto simp: malformed_def split_beta)
  next
    case GZeroFrames
    with assms enc decode_no_frames show ?thesis by (auto simp: malformed_def)
  next
    case GTruncated
    with assms enc have "buf = take (length bytes - 1
        - fst (below (FRAME_HEADER_LEN + length (rf_payload (last fs))) r)) bytes"
      by (simp add: malformed_def Let_def split_beta)
    with path_truncated [OF enc last, of c] GTruncated show ?thesis by simp
  next
    case GLengthMismatch
    with assms enc path_length_mismatch [OF ne, of buf c] show ?thesis by (simp add: malformed_def Let_def)
  next
    case GUnknownSignal
    with assms enc path_unknown [of c "rf_timestamp_us (hd fs)" "fst (some_bytes 8 r)" fs buf] show ?thesis
      by (simp add: malformed_def split_beta)
  next
    case GOversize
    with assms enc have "buf = bytes @ fst (rng_bytes (MAX_DATAGRAM_LEN + 1 + fst (below 200 r) - length bytes)
        (snd (below 200 r)))"
      by (simp add: malformed_def split_beta)
    with path_oversize [OF enc b200, of _ c] GOversize show ?thesis by (simp add: length_rng_bytes)
  next
    case GTrailingBytes
    with assms enc path_trailing [OF enc, of "fst (some_bytes 8 r)" c] b8 show ?thesis
      by (simp add: malformed_def split_beta)
  next
    case GRandomBytes
    with assms enc have "buf = fst (some_bytes 64 r)" by (simp add: malformed_def split_beta)
    moreover have "length (fst (some_bytes 64 r)) \<le> 64" using length_some_bytes [of 64 r] by simp
    ultimately show ?thesis using path_random GRandomBytes by metis
  qed
qed

end
