(* ===== verification/Vehicle.thy ===== *)
theory Vehicle
  imports Float64_Real Rng Wire
begin

text \<open>
  The simulated vehicle (\<open>crates/simulator/src/vehicle.rs\<close>). The sine of the standard library is a
  parameter: its precision is left to the platform. Every operation returns the new state of the
  generator beside its result. The lemmas show what holds of every state of a run.
\<close>

section \<open>Data\<close>

datatype gear = GearP | GearD

fun gear_label :: "gear \<Rightarrow> string" where
  "gear_label GearP = ''P''"
| "gear_label GearD = ''D''"

datatype vehicle_behaviour = Drive | Park

record vehicle =
  veh_behaviour :: vehicle_behaviour
  t_s :: f64
  speed_kmh :: f64
  soc_pct :: f64
  motor_temp_c :: f64
  cabin_temp_c :: f64
  veh_gear :: gear
  door_open :: bool

definition DRIVE_CYCLE_S :: f64 where
  "DRIVE_CYCLE_S = f64_lit 60 1"

definition KNOWN_SIGNALS :: "string list" where
  "KNOWN_SIGNALS =
     [''vehicle_speed'', ''battery_soc'', ''motor_temp'', ''gear'', ''door_open'', ''cabin_temp'']"

definition vehicle_new :: "vehicle_behaviour \<Rightarrow> vehicle" where
  "vehicle_new behaviour =
     \<lparr>veh_behaviour = behaviour, t_s = f64_lit 0 1, speed_kmh = f64_lit 0 1, soc_pct = f64_lit 80 1,
      motor_temp_c = f64_lit 25 1, cabin_temp_c = f64_lit 21 1, veh_gear = GearP, door_open = False\<rparr>"

section \<open>Steps\<close>

definition smoothstep :: "f64 \<Rightarrow> f64" where
  "smoothstep x0 =
     (let x = f64_clamp x0 (f64_lit 0 1) (f64_lit 1 1)
      in f64_mul (f64_mul x x) (f64_sub (f64_lit 3 1) (f64_mul (f64_lit 2 1) x)))"

definition envelope :: "f64 \<Rightarrow> f64" where
  "envelope phase =
     f64_min (smoothstep (f64_div (f64_sub phase (f64_lit 5 1)) (f64_lit 10 1)))
             (smoothstep (f64_div (f64_sub (f64_lit 47 1) phase) (f64_lit 10 1)))"

definition gear_at :: "f64 \<Rightarrow> gear" where
  "gear_at phase = (if f64_le (f64_lit 3 1) phase \<and> f64_lt phase (f64_lit 52 1) then GearD else GearP)"

definition step_drive :: "(f64 \<Rightarrow> f64) \<Rightarrow> vehicle \<Rightarrow> rng \<Rightarrow> vehicle \<times> rng" where
  "step_drive sin64 v r =
     (let phase = f64_rem (t_s v) DRIVE_CYCLE_S;
          v1 = v\<lparr>veh_gear := gear_at phase\<rparr>;
          env = envelope phase;
          target = f64_mul env (f64_add (f64_lit 110 1) (f64_mul (f64_lit 8 1) (sin64 (f64_mul phase (f64_lit 1 2)))))
      in if f64_gt env (f64_lit 0 1)
         then (case noise (f64_lit 3 10) r of
             (n, r') \<Rightarrow> (v1\<lparr>speed_kmh := f64_max (f64_add target n) (f64_lit 0 1)\<rparr>, r'))
         else (v1\<lparr>speed_kmh := f64_lit 0 1\<rparr>, r))"

definition step_temps :: "(f64 \<Rightarrow> f64) \<Rightarrow> f64 \<Rightarrow> vehicle \<Rightarrow> rng \<Rightarrow> vehicle \<times> rng" where
  "step_temps sin64 dt v r =
     (let target = f64_add (f64_lit 25 1) (f64_mul (speed_kmh v) (f64_lit 65 100));
          v1 = v\<lparr>motor_temp_c := f64_add (motor_temp_c v)
                 (f64_mul (f64_sub target (motor_temp_c v)) (f64_min (f64_div dt (f64_lit 8 1)) (f64_lit 1 1)))\<rparr>;
          v2 = v1\<lparr>soc_pct := f64_max (f64_sub (soc_pct v1) (f64_mul dt
                 (f64_add (f64_lit 2 10000) (f64_mul (speed_kmh v1) (f64_lit 15 100000))))) (f64_lit 5 1)\<rparr>
      in case noise (f64_lit 5 100) r of
           (n, r') \<Rightarrow>
             (v2\<lparr>cabin_temp_c := f64_add (f64_add (f64_lit 21 1)
                (f64_mul (f64_lit 15 10) (sin64 (f64_div (t_s v2) (f64_lit 40 1))))) n\<rparr>, r'))"

definition step_door :: "f64 \<Rightarrow> vehicle \<Rightarrow> rng \<Rightarrow> vehicle \<times> rng" where
  "step_door dt v r =
     (if veh_gear v = GearP
      then (let toggles = (if veh_behaviour v = Park then f64_lit 15 100 else f64_lit 1 10)
            in case chance (f64_mul toggles dt) r of
                 (True, r') \<Rightarrow> (v\<lparr>door_open := \<not> door_open v\<rparr>, r')
               | (False, r') \<Rightarrow> (v, r'))
      else (v\<lparr>door_open := False\<rparr>, r))"

definition vehicle_step :: "(f64 \<Rightarrow> f64) \<Rightarrow> f64 \<Rightarrow> vehicle \<times> rng \<Rightarrow> vehicle \<times> rng" where
  "vehicle_step sin64 dt s =
     (case s of (v, r) \<Rightarrow>
        (let v1 = v\<lparr>t_s := f64_add (t_s v) dt\<rparr> in
         case (case veh_behaviour v1 of
             Drive \<Rightarrow> step_drive sin64 v1 r
           | Park \<Rightarrow> (v1\<lparr>veh_gear := GearP, speed_kmh := f64_lit 0 1\<rparr>, r)) of
           (v2, r2) \<Rightarrow> (case step_temps sin64 dt v2 r2 of (v3, r3) \<Rightarrow> step_door dt v3 r3)))"

section \<open>Signals\<close>

definition vehicle_value :: "vehicle \<Rightarrow> string \<Rightarrow> signal_value option" where
  "vehicle_value v name =
     (if name = ''vehicle_speed'' then Some (VNum (speed_kmh v))
      else if name = ''battery_soc'' then Some (VNum (soc_pct v))
      else if name = ''motor_temp'' then Some (VNum (motor_temp_c v))
      else if name = ''cabin_temp'' then Some (VNum (cabin_temp_c v))
      else if name = ''gear'' then Some (VEnum (gear_label (veh_gear v)))
      else if name = ''door_open'' then Some (VBool (door_open v))
      else None)"

text \<open>Collecting the frames of the simulated signals; the first error ends it.\<close>

fun collect_frames :: "vehicle \<Rightarrow> u64 \<Rightarrow> signal list \<Rightarrow> (encode_error, raw_frame list) result" where
  "collect_frames v ts [] = Ok []"
| "collect_frames v ts (s # ss) =
     (case vehicle_value v (sig_name s) of
        None \<Rightarrow> collect_frames v ts ss
      | Some x \<Rightarrow> and_then (encode_frame s ts x) (\<lambda>f. and_then (collect_frames v ts ss) (\<lambda>fs. Ok (f # fs))))"

definition vehicle_frames :: "vehicle \<Rightarrow> catalog \<Rightarrow> u64 \<Rightarrow> (encode_error, raw_frame list) result" where
  "vehicle_frames v c ts = collect_frames v ts (cat_signals c)"

section \<open>Standing still\<close>

lemma lit_views:
  "view64 (f64_lit 0 1) = FNum False 0 (- 1074)" "view64 (f64_lit 5 1) = FNum False (5 * 2 ^ 50) (- 50)"
  "view64 (f64_lit 10 1) = FNum False (5 * 2 ^ 50) (- 49)" "view64 (f64_lit 80 1) = FNum False (5 * 2 ^ 50) (- 46)"
  by code_simp+

lemma lit_ranges:
  "view64 (f64_lit 1 1) = FNum False (2 ^ 52) (- 52)" "view64 (f64_lit 3 1) = FNum False (3 * 2 ^ 51) (- 51)"
  "view64 (f64_lit 47 1) = FNum False (47 * 2 ^ 47) (- 47)" "view64 (f64_lit 52 1) = FNum False (13 * 2 ^ 49) (- 47)"
  by code_simp+

text \<open>The smooth ramp of a negative argument is zero.\<close>

definition pos_zero :: f64 where
  "pos_zero = mk64 False 0"

lemma zero_arith:
  "f64_mul (f64_mul (f64_lit 0 1) (f64_lit 0 1)) (f64_sub (f64_lit 3 1) (f64_mul (f64_lit 2 1) (f64_lit 0 1))) = pos_zero"
  "f64_mul pos_zero (f64_sub (f64_lit 3 1) (mk64 True 0)) = pos_zero" "view64 pos_zero = FNum False 0 (- 1074)"
  "view64 (f64_lit 2 1) = FNum False (2 ^ 52) (- 51)"
  by code_simp+

lemma smoothstep_negative:
  assumes "neg_view (view64 x)"
  shows "smoothstep x = pos_zero"
proof (cases "f64_lt x (f64_lit 0 1)")
  case True
  then show ?thesis by (simp add: smoothstep_def f64_clamp_def zero_arith(1))
next
  case False
  then obtain e where v: "view64 x = FNum True 0 e"
    using assms by (auto simp: neg_view_def f64_lt_def lit_views(1) signed_def Let_def mult_less_0_iff
        dest: view64_ok [unfolded fnum_ok_def] split: fview.splits)
  have "\<not> f64_lt (f64_lit 1 1) x"
    by (simp add: f64_lt_def v lit_ranges(1) signed_def Let_def)
  with False have "f64_clamp x (f64_lit 0 1) (f64_lit 1 1) = x" by (simp add: f64_clamp_def)
  moreover have "f64_mul x x = pos_zero"
    by (simp add: f64_mul_def v round_mag_def pos_zero_def)
  moreover have "f64_mul (f64_lit 2 1) x = mk64 True 0"
    by (simp add: f64_mul_def v zero_arith(4) round_mag_def)
  ultimately show ?thesis
    by (simp add: smoothstep_def zero_arith(2))
qed

text \<open>Outside \<open>3 .. 52\<close> the phase is before the ramp up, after the ramp down, or not a number.\<close>

lemma FNum_value: "view64 x = FNum s m e \<Longrightarrow> f64_val x = of_int (signed s m) * 2 powi e"
  by (simp add: f64_val_def fval_def)

lemma lit_values:
  "f64_val (f64_lit 3 1) = 3" "f64_val (f64_lit 5 1) = 5" "f64_val (f64_lit 47 1) = 47" "f64_val (f64_lit 52 1) = 52"
  unfolding FNum_value [OF lit_ranges(2)] FNum_value [OF lit_views(2)] FNum_value [OF lit_ranges(3)]
    FNum_value [OF lit_ranges(4)]
  by (simp_all add: signed_def power_int_minus)

lemma parked_phase:
  assumes "gear_at phase = GearP" and "\<not> f64_is_nan phase"
  shows "f64_lt phase (f64_lit 5 1) \<or> f64_lt (f64_lit 47 1) phase"
proof (cases "view64 phase")
  case FNan
  with assms show ?thesis by (simp add: f64_is_nan_def)
next
  case (FInf s)
  then show ?thesis by (simp add: f64_lt_def lit_views lit_ranges)
next
  case (FNum s m e)
  have "f64_le (f64_lit 3 1) phase \<longleftrightarrow> 3 \<le> f64_val phase" "f64_lt phase (f64_lit 52 1) \<longleftrightarrow> f64_val phase < 52"
    using lt_FNum [OF lit_ranges(2) FNum] eq_FNum [OF lit_ranges(2) FNum] lt_FNum [OF FNum lit_ranges(4)]
    by (auto simp: f64_le_def lit_values)
  with assms(1) have "f64_val phase < 5 \<or> 47 < f64_val phase"
    by (auto simp: gear_at_def split: if_splits)
  then show ?thesis
    using lt_FNum [OF FNum lit_views(2)] lt_FNum [OF lit_ranges(3) FNum] by (simp add: lit_values)
qed

lemma not_positive_min:
  assumes "a = pos_zero \<or> b = pos_zero"
  shows "\<not> f64_lt (f64_lit 0 1) (f64_min a b)"
proof -
  have irr: "\<not> f64_lt (f64_lit 0 1) pos_zero" by code_simp
  have zero: "f64_lt x pos_zero = f64_lt x (f64_lit 0 1)" "f64_lt pos_zero x = f64_lt (f64_lit 0 1) x" for x
    by (simp_all add: f64_lt_def lit_views(1) zero_arith(3))
  have asym: "f64_lt x (f64_lit 0 1) \<Longrightarrow> \<not> f64_lt (f64_lit 0 1) x" for x
    by (auto simp: f64_lt_def lit_views(1) Let_def signed_def min.commute split: fview.splits)
  from assms irr asym show ?thesis
    by (auto simp: f64_min_def zero f64_is_nan_def zero_arith(3))
qed

lemma envelope_parked:
  assumes "gear_at phase = GearP"
  shows "\<not> f64_gt (envelope phase) (f64_lit 0 1)"
proof (cases "f64_is_nan phase")
  case True
  then have nan: "view64 phase = FNan" by (simp add: f64_is_nan_def)
  have view_nan: "view64 f64_nan = FNan" by code_simp
  have sub: "f64_sub phase (f64_lit 5 1) = f64_nan" "f64_sub (f64_lit 47 1) phase = f64_nan"
    by (simp_all add: f64_sub_def f64_add_def nan view64_neg lit_ranges)
  have "envelope phase = f64_nan"
    unfolding envelope_def sub by code_simp
  then show ?thesis by (simp add: f64_gt_def f64_lt_def view_nan lit_views)
next
  case False
  from parked_phase [OF assms False] show ?thesis
  proof
    assume "f64_lt phase (f64_lit 5 1)"
    then have "neg_view (view64 (f64_div (f64_sub phase (f64_lit 5 1)) (f64_lit 10 1)))"
      by (intro div_negative [OF sub_negative lit_views(3)]) simp_all
    then show ?thesis
      by (simp add: f64_gt_def envelope_def smoothstep_negative not_positive_min)
  next
    assume "f64_lt (f64_lit 47 1) phase"
    then have "neg_view (view64 (f64_div (f64_sub (f64_lit 47 1) phase) (f64_lit 10 1)))"
      by (intro div_negative [OF sub_negative lit_views(3)]) simp_all
    then show ?thesis
      by (simp add: f64_gt_def envelope_def smoothstep_negative not_positive_min)
  qed
qed

section \<open>The state of a run\<close>

definition vehicle_ok :: "vehicle \<Rightarrow> bool" where
  "vehicle_ok v \<longleftrightarrow>
     (veh_behaviour v = Park \<longrightarrow> veh_gear v = GearP)
     \<and> (veh_gear v = GearP \<longrightarrow> speed_kmh v = f64_lit 0 1)
     \<and> (door_open v \<longrightarrow> veh_gear v = GearP)
     \<and> \<not> f64_lt (speed_kmh v) (f64_lit 0 1) \<and> \<not> f64_is_nan (speed_kmh v)
     \<and> \<not> f64_lt (soc_pct v) (f64_lit 5 1) \<and> \<not> f64_is_nan (soc_pct v)"

lemma f64_max_ge:
  assumes "view64 b = FNum u k g"
  shows "\<not> f64_lt (f64_max a b) b" and "\<not> f64_is_nan (f64_max a b)"
  using assms by (auto simp: f64_max_def f64_is_nan_def f64_lt_def Let_def split: fview.splits)

lemma vehicle_ok_new: "vehicle_ok (vehicle_new bhv)"
proof -
  have "\<not> f64_lt (f64_lit 0 1) (f64_lit 0 1)" "\<not> f64_is_nan (f64_lit 0 1)"
    "\<not> f64_lt (f64_lit 80 1) (f64_lit 5 1)" "\<not> f64_is_nan (f64_lit 80 1)"
    by code_simp+
  then show ?thesis by (simp add: vehicle_ok_def vehicle_new_def)
qed

lemma vehicle_ok_step: "vehicle_ok (fst (vehicle_step sin64 dt (v, r)))"
proof -
  let ?v1 = "v\<lparr>t_s := f64_add (t_s v) dt\<rparr>"
  define s2 where "s2 = (case veh_behaviour ?v1 of
      Drive \<Rightarrow> step_drive sin64 ?v1 r | Park \<Rightarrow> (?v1\<lparr>veh_gear := GearP, speed_kmh := f64_lit 0 1\<rparr>, r))"
  have lits: "\<not> f64_lt (f64_lit 0 1) (f64_lit 0 1)" "\<not> f64_is_nan (f64_lit 0 1)"
    by code_simp+
  have beh: "veh_behaviour (fst s2) = veh_behaviour v"
    by (simp add: s2_def step_drive_def Let_def split_beta split: vehicle_behaviour.split)
  have park: "veh_behaviour v = Park \<Longrightarrow> veh_gear (fst s2) = GearP"
    by (simp add: s2_def)
  have still: "veh_gear (fst s2) = GearP \<Longrightarrow> speed_kmh (fst s2) = f64_lit 0 1"
    using envelope_parked
    by (auto simp: s2_def step_drive_def Let_def split_beta split: vehicle_behaviour.splits if_splits)
  have speed: "\<not> f64_lt (speed_kmh (fst s2)) (f64_lit 0 1) \<and> \<not> f64_is_nan (speed_kmh (fst s2))"
    using f64_max_ge [OF lit_views(1)] lits
    by (auto simp: s2_def step_drive_def Let_def split_beta split: vehicle_behaviour.splits)
  define s3 where "s3 = step_temps sin64 dt (fst s2) (snd s2)"
  have keep: "veh_behaviour (fst s3) = veh_behaviour v" "veh_gear (fst s3) = veh_gear (fst s2)"
    "speed_kmh (fst s3) = speed_kmh (fst s2)"
    by (simp_all add: s3_def step_temps_def Let_def split_beta beh)
  have soc: "\<not> f64_lt (soc_pct (fst s3)) (f64_lit 5 1) \<and> \<not> f64_is_nan (soc_pct (fst s3))"
    using f64_max_ge [OF lit_views(2)] by (simp add: s3_def step_temps_def Let_def split_beta)
  have step: "vehicle_step sin64 dt (v, r) = step_door dt (fst s3) (snd s3)"
    by (cases "veh_behaviour v") (simp_all add: vehicle_step_def Let_def split_beta s2_def s3_def)
  have "vehicle_ok (fst (step_door dt (fst s3) (snd s3)))"
    using park still speed soc keep
    by (auto simp: step_door_def vehicle_ok_def Let_def split: prod.splits bool.splits)
  with step show ?thesis by simp
qed

end
