(* ===== verification/Simulator.thy ===== *)
theory Simulator
  imports Garbage Vehicle Float64_Bounds Runtime Hash_Map Documents
begin

text \<open>
  The main loop of the simulator (\<open>crates/simulator/src/main.rs\<close>): it steps the vehicle, encodes its
  signals, sends one packet per round and sleeps until the next tick. The loop may run forever, so it
  is a partial function: \<open>None\<close> means that it does not return.

  The world is a parameter: files, the catalog parser, the socket, the sine, the wall clock, and the
  time that passes. Instants and durations are nanoseconds, instants counted from the start of the
  loop. In every round some time passes before each reading of the clock, and a sleep lasts at least
  as long as it was asked to, so an arbitrary lag follows it.
\<close>

section \<open>Durations\<close>

definition NANOS :: nat where
  "NANOS = 10 ^ 9"

text \<open>\<open>Duration::as_secs_f64\<close> and \<open>Duration::from_secs_f64\<close>, which rounds to the nearest nanosecond.\<close>

definition as_secs_f64 :: "nat \<Rightarrow> f64" where
  "as_secs_f64 t = f64_add (f64_of_int (int (t div NANOS))) (f64_div (f64_of_int (int (t mod NANOS))) (f64_lit (10 ^ 9) 1))"

definition from_secs_f64 :: "f64 \<Rightarrow> nat" where
  "from_secs_f64 x =
     (case view64 x of
        FNum s m e \<Rightarrow> nat (if 0 \<le> e then m * 2 ^ nat e * int NANOS else rne (m * int NANOS) (2 ^ nat (- e)))
      | _ \<Rightarrow> 0)"

section \<open>Arguments and world\<close>

datatype send_mode = Udp | Grpc

datatype scenario = SDrive | SPark | SGarbage

record args =
  arg_catalog :: string
  rate_hz :: nat
  arg_mode :: send_mode
  arg_scenario :: scenario
  duration_s :: "f64 option"
  arg_seed :: "u64 option"

record world =
  w_read :: "string \<Rightarrow> (io_error, string) result"
  w_parse :: "string \<Rightarrow> (string, json) result"
  w_bind :: "(io_error, unit) result"
  w_send :: "nat \<Rightarrow> u8 list \<Rightarrow> (io_error, nat) result"
  w_sin :: "f64 \<Rightarrow> f64"
  w_now_us :: "nat \<Rightarrow> u64"
  w_seed_us :: u64
  w_work :: "nat \<Rightarrow> nat"
  w_report :: "nat \<Rightarrow> nat"
  w_tail :: "nat \<Rightarrow> nat"
  w_lag :: "nat \<Rightarrow> nat"

datatype sim_error =
    SimBail string
  | SimRead string io_error
  | SimCatalog string catalog_error
  | SimBind io_error
  | SimEncode encode_error

section \<open>Rounds\<close>

text \<open>
  \<open>sim_sent\<close> lists the packets handed to the socket, whether or not it took them, each with the time
  its round began.
\<close>

record sim =
  sim_vehicle :: vehicle
  sim_rng :: rng
  sim_clock :: nat
  next_tick :: nat
  last_report :: nat
  packets :: u64
  bytes_sent :: u64
  send_errors :: u64
  garbage_counts :: "(string, u64) hmap"
  sim_sent :: "(nat \<times> u8 list) list"

definition behaviour_of :: "scenario \<Rightarrow> vehicle_behaviour" where
  "behaviour_of s = (case s of SPark \<Rightarrow> Park | _ \<Rightarrow> Drive)"

definition sim_new :: "scenario \<Rightarrow> u64 \<Rightarrow> sim" where
  "sim_new s seed =
     \<lparr>sim_vehicle = vehicle_new (behaviour_of s), sim_rng = rng_new seed, sim_clock = 0, next_tick = 0,
      last_report = 0, packets = 0, bytes_sent = 0, send_errors = 0, garbage_counts = [], sim_sent = []\<rparr>"

fun kind_debug :: "garbage_kind \<Rightarrow> string" where
  "kind_debug GBadMagic = ''BadMagic''"
| "kind_debug GBadVersion = ''BadVersion''"
| "kind_debug GZeroFrames = ''ZeroFrames''"
| "kind_debug GTruncated = ''Truncated''"
| "kind_debug GLengthMismatch = ''LengthMismatch''"
| "kind_debug GUnknownSignal = ''UnknownSignal''"
| "kind_debug GOversize = ''Oversize''"
| "kind_debug GTrailingBytes = ''TrailingBytes''"
| "kind_debug GRandomBytes = ''RandomBytes''"

definition count_key :: "garbage_kind option \<Rightarrow> string" where
  "count_key k = (case k of None \<Rightarrow> ''valid'' | Some g \<Rightarrow> kind_debug g)"

text \<open>The packet of a round, and the state with the generator and the garbage counts moved on.\<close>

definition sim_packet :: "scenario \<Rightarrow> catalog \<Rightarrow> raw_frame list \<Rightarrow> sim \<Rightarrow> (encode_error, u8 list) result \<times> sim" where
  "sim_packet s c frames st =
     (case s of
        SGarbage \<Rightarrow>
          (case garbage_packet frames c (sim_rng st) of
             (Err e, r) \<Rightarrow> (Err e, st\<lparr>sim_rng := r\<rparr>)
           | (Ok (kind, bytes), r) \<Rightarrow>
               (Ok bytes, st\<lparr>sim_rng := r, garbage_counts := hm_bump (count_key kind) (garbage_counts st)\<rparr>))
      | _ \<Rightarrow> (encode_packet frames, st))"

definition count_send :: "(io_error, nat) result \<Rightarrow> sim \<Rightarrow> sim" where
  "count_send res st =
     (case res of
        Ok n \<Rightarrow> st\<lparr>packets := packets st + 1, bytes_sent := bytes_sent st + of_nat n\<rparr>
      | Err _ \<Rightarrow> st\<lparr>send_errors := send_errors st + 1\<rparr>)"

text \<open>The progress report at the round's second clock reading; the third is its \<open>Instant::now()\<close>.\<close>

definition sim_report :: "nat \<Rightarrow> nat \<Rightarrow> sim \<Rightarrow> sim" where
  "sim_report work rep st =
     (let st1 = st\<lparr>sim_clock := sim_clock st + work\<rparr>
      in if sim_clock st1 - last_report st1 \<ge> 5 * NANOS
         then (let now = sim_clock st1 + rep in st1\<lparr>sim_clock := now, last_report := now\<rparr>)
         else st1)"

definition sim_pace :: "nat \<Rightarrow> nat \<Rightarrow> nat \<Rightarrow> sim \<Rightarrow> sim" where
  "sim_pace period tail lag st =
     (let due = next_tick st + period;
          now = sim_clock st + tail
      in if due > now then st\<lparr>next_tick := due, sim_clock := due + lag\<rparr>
         else st\<lparr>next_tick := now, sim_clock := now + lag\<rparr>)"

definition sim_round :: "world \<Rightarrow> scenario \<Rightarrow> catalog \<Rightarrow> nat \<Rightarrow> nat \<Rightarrow> sim \<Rightarrow> (encode_error, unit) result \<times> sim" where
  "sim_round w s c period n st =
     (case vehicle_step (w_sin w) (as_secs_f64 period) (sim_vehicle st, sim_rng st) of
        (v, r) \<Rightarrow>
          (let st1 = st\<lparr>sim_vehicle := v, sim_rng := r\<rparr> in
           case vehicle_frames v c (w_now_us w n) of
             Err e \<Rightarrow> (Err e, st1)
           | Ok frames \<Rightarrow>
               (case sim_packet s c frames st1 of
                  (Err e, st2) \<Rightarrow> (Err e, st2)
                | (Ok packet, st2) \<Rightarrow>
                    (Ok (), sim_pace period (w_tail w n) (w_lag w n)
                       (sim_report (w_work w n) (w_report w n)
                         (count_send (w_send w n packet) (st2\<lparr>sim_sent := sim_sent st2 @ [(sim_clock st, packet)]\<rparr>)))))))"

section \<open>The loop\<close>

definition time_is_up :: "f64 option \<Rightarrow> nat \<Rightarrow> bool" where
  "time_is_up d now = (case d of None \<Rightarrow> False | Some x \<Rightarrow> f64_le x (as_secs_f64 now))"

partial_function (option) sim_loop ::
  "world \<Rightarrow> scenario \<Rightarrow> catalog \<Rightarrow> f64 option \<Rightarrow> nat \<Rightarrow> nat \<Rightarrow> sim \<Rightarrow> ((encode_error, unit) result \<times> sim) option" where
  "sim_loop w s c d period n st =
     (if time_is_up d (sim_clock st) then Some (Ok (), st)
      else case sim_round w s c period n st of
             (Err e, st') \<Rightarrow> Some (Err e, st')
           | (Ok _, st') \<Rightarrow> sim_loop w s c d period (Suc n) st')"

definition period_of :: "nat \<Rightarrow> nat" where
  "period_of rate = from_secs_f64 (f64_div (f64_lit 1 1) (f64_of_int (int rate)))"

text \<open>What is known when the loop starts: the signals it will not generate, and the catalog.\<close>

definition sim_start :: "world \<Rightarrow> args \<Rightarrow> (sim_error, catalog \<times> string list) result" where
  "sim_start w a =
     (if arg_mode a = Grpc
      then Err (SimBail ''--mode grpc is not implemented yet (milestone M11); use --mode udp'')
      else and_then (map_err (SimRead (''reading catalog '' @ arg_catalog a)) (w_read w (arg_catalog a))) (\<lambda>json.
           and_then (map_err (SimCatalog (''loading catalog '' @ arg_catalog a)) (catalog_from_json (w_parse w) json)) (\<lambda>c.
           and_then (map_err SimBind (w_bind w)) (\<lambda>_.
             Ok (c, filter (\<lambda>x. x \<notin> set KNOWN_SIGNALS) (map sig_name (cat_signals c)))))))"

definition sim_main :: "world \<Rightarrow> args \<Rightarrow> ((sim_error, unit) result \<times> sim option) option" where
  "sim_main w a =
     (case sim_start w a of
        Err e \<Rightarrow> Some (Err e, None)
      | Ok (c, _) \<Rightarrow>
          map_option (\<lambda>(res, st). (map_err SimEncode res, Some st))
            (sim_loop w (arg_scenario a) c (duration_s a) (period_of (rate_hz a)) 0
               (sim_new (arg_scenario a) (case arg_seed a of None \<Rightarrow> w_seed_us w | Some x \<Rightarrow> x))))"

end
