(* ===== verification/Float64_Ranges.thy ===== *)
theory Float64_Ranges
  imports Float64_Error
begin

text \<open>
  Ranges of floats: rounding never leaves an interval whose bounds are multiples of \<open>2^-20\<close> of moderate
  size, so interval arithmetic with such bounds holds of the rounded operations as it does of the
  reals.
\<close>

section \<open>Bounds that rounding keeps\<close>

definition dyadic :: "real \<Rightarrow> bool" where
  "dyadic b \<longleftrightarrow> b * 2 ^ 20 \<in> \<int> \<and> \<bar>b\<bar> \<le> 2 ^ 30"

lemma dyadic_neg [simp]: "dyadic (- b) \<longleftrightarrow> dyadic b"
  by (simp add: dyadic_def)

lemma dyadic_at:
  assumes "dyadic b" and "u \<le> - 20"
  obtains k :: int where "b = of_int k * 2 powi u"
proof -
  obtain j :: int where j: "b * 2 ^ 20 = of_int j"
    using assms(1) by (auto simp: dyadic_def elim: Ints_cases)
  have "(2 :: real) ^ nat (- 20 - u) * 2 powi u = 2 powi (- 20)"
    using assms(2) by (simp add: pow_nat power_int_add [symmetric])
  then have "of_int (j * 2 ^ nat (- 20 - u)) * 2 powi u = (of_int j * 2 powi (- 20) :: real)"
    by (simp add: mult.assoc)
  also have "\<dots> = b" unfolding j [symmetric] by (simp add: power_int_minus)
  finally show ?thesis by (rule that [OF sym])
qed

lemma rounded_bound:
  assumes "0 \<le> n" and "0 < d" and x: "x = of_int n / of_int d * (2 powi e :: real)"
    and "dyadic b" and "x \<le> b"
  shows "is_finite (mk64 s (round_mag binary64 n d e))"
    and "\<bar>f64_val (mk64 s (round_mag binary64 n d e))\<bar> \<le> b"
    and "dyadic a \<Longrightarrow> a \<le> x \<Longrightarrow> a \<le> \<bar>f64_val (mk64 s (round_mag binary64 n d e))\<bar>"
    and "f64_val (mk64 s (round_mag binary64 n d e))
      = (if s then - 1 else 1) * \<bar>f64_val (mk64 s (round_mag binary64 n d e))\<bar>"
proof -
  let ?y = "mk64 s (round_mag binary64 n d e)"
  have big: "(2 :: real) ^ 30 \<le> 2 powi 1000"
    using power_int_increasing [of 30 1000 "2 :: real"] by simp
  have b: "b \<le> 2 ^ 30" using assms(4) by (auto simp: dyadic_def)
  have "is_finite ?y \<and> \<bar>f64_val ?y\<bar> \<le> b \<and> (dyadic a \<longrightarrow> a \<le> x \<longrightarrow> a \<le> \<bar>f64_val ?y\<bar>)
    \<and> f64_val ?y = (if s then - 1 else 1) * \<bar>f64_val ?y\<bar>"
  proof (cases "n = 0")
    case True
    then have "view64 ?y = FNum s 0 (- 1074)" by (simp add: round_mag_def view_mk64 mag_view_def)
    with True x assms(5) show ?thesis by (simp add: is_finite_def val_FNum)
  next
    case False
    then have n: "0 < n" using assms(1) by simp
    have "x \<le> 2 powi 1000" using assms(5) b big by linarith
    then have fits: "no_overflow n d e" unfolding x by (rule in_range_no_overflow [OF n assms(2)])
    define u where "u = ulp_exp n d e"
    obtain m q where v: "view64 ?y = FNum s m q"
      and val: "of_int m * 2 powi q = (of_int (significand n d e) * 2 powi u :: real)"
      using round_view [OF n assms(2) fits, of s] by (auto simp: u_def)
    have pos: "0 \<le> (of_int m * 2 powi q :: real)"
      unfolding val using significand_range(1) [OF n assms(2), of e] by simp
    have abs: "\<bar>f64_val ?y\<bar> = of_int (significand n d e) * 2 powi u"
      and sign: "f64_val ?y = (if s then - 1 else 1) * \<bar>f64_val ?y\<bar>"
      using abs_of_nonneg [OF pos] by (simp_all only: val_FNum [OF v] abs_mult val [symmetric])
        (simp_all add: abs_mult)
    have "2 powi (ratio_log2 n d + e) \<le> x"
      unfolding x using mult_right_mono [OF ratio_log2_bounds(1) [OF n assms(2)], of "2 powi e"]
      by (simp add: power_int_add)
    with assms(5) b have "(2 :: real) powi (ratio_log2 n d + e) \<le> 2 powi 30" by simp
    then have "ratio_log2 n d + e \<le> 30"
      using power_int_strict_increasing [of 30 "ratio_log2 n d + e" "2 :: real"] by (intro leI) auto
    then have u: "u \<le> - 20" by (simp add: u_def ulp_exp_def)
    obtain n' d' where d': "0 < d'" and sig: "significand n d e = rne n' d'"
      and ratio: "of_int n' / of_int d' = x / (2 powi u :: real)"
      using sig_at_ratio [OF assms(2), of u n e] unfolding as_binary64(2) u_def [symmetric] x by metis
    have P: "0 < (2 :: real) powi u" by simp
    obtain k :: int where k: "b = of_int k * 2 powi u" using dyadic_at [OF assms(4) u] .
    have "x / 2 powi u \<le> of_int k" using assms(5) P by (simp add: k pos_divide_le_eq)
    then have up: "rne n' d' \<le> k"
      using rne_between(2) [OF d', of "\<lfloor>of_int n' / (of_int d' :: real)\<rfloor>" n' k] ratio by simp
    have upper: "\<bar>f64_val ?y\<bar> \<le> b"
      unfolding abs sig k using up by (intro mult_right_mono) simp_all
    have lower: "a \<le> \<bar>f64_val ?y\<bar>" if da: "dyadic a" and ax: "a \<le> x"
    proof -
      obtain j :: int where j: "a = of_int j * 2 powi u" using dyadic_at [OF da u] .
      have "of_int j \<le> x / 2 powi u" using ax P by (simp add: j pos_le_divide_eq)
      then have "j \<le> rne n' d'"
        using rne_between(1) [OF d', of j n' "\<lceil>of_int n' / (of_int d' :: real)\<rceil>"] ratio by simp
      then show ?thesis unfolding abs sig j by (intro mult_right_mono) simp_all
    qed
    from upper lower sign v show ?thesis by (simp add: is_finite_def)
  qed
  then show "is_finite ?y" "\<bar>f64_val ?y\<bar> \<le> b" "dyadic a \<Longrightarrow> a \<le> x \<Longrightarrow> a \<le> \<bar>f64_val ?y\<bar>"
    "f64_val ?y = (if s then - 1 else 1) * \<bar>f64_val ?y\<bar>"
    by blast+
qed

definition between :: "f64 \<Rightarrow> real \<Rightarrow> real \<Rightarrow> bool" where
  "between x a b \<longleftrightarrow> is_finite x \<and> a \<le> f64_val x \<and> f64_val x \<le> b"

lemma between_mono: "between x a b \<Longrightarrow> a' \<le> a \<Longrightarrow> b \<le> b' \<Longrightarrow> between x a' b'"
  by (auto simp: between_def)

text \<open>A rounded number stays within bounds that hold of the exact one.\<close>

lemma rounded_between:
  assumes "0 \<le> n" and "0 < d" and r: "r = (if s then - 1 else 1) * (of_int n / of_int d * (2 powi e :: real))"
    and a: "dyadic a" "a \<le> r" and b: "dyadic b" "r \<le> b"
  shows "between (mk64 s (round_mag binary64 n d e)) a b"
proof -
  define x where "x = of_int n / of_int d * (2 powi e :: real)"
  have x: "0 \<le> x" using assms(1,2) by (simp add: x_def)
  define c where "c = max \<bar>a\<bar> \<bar>b\<bar>"
  have c: "dyadic c" using a(1) b(1) by (auto simp: c_def max_def dyadic_def abs_if)
  have rx: "r = (if s then - x else x)" by (simp add: r x_def)
  have xc: "x \<le> c" using a(2) b(2) by (cases s) (auto simp: rx c_def max_def abs_if)
  note bound = rounded_bound [OF assms(1,2) x_def _ _, where s = s]
  note general = bound(1) [OF c xc] bound(3) [OF c xc] bound(4) [OF c xc]
  show ?thesis
  proof (cases s)
    case True
    then have "r = - x" by (simp add: rx)
    with a b x have "x \<le> - a" "- b \<le> x" "dyadic (- a)" "dyadic (- b)" by simp_all
    with bound(2) [of "- a"] general(1) general(2) [of "- b"] general(3) True show ?thesis
      by (simp add: between_def)
  next
    case False
    then have "r = x" by (simp add: rx)
    with a b bound(2) [of b] general(1) general(2) [of a] general(3) False show ?thesis
      by (simp add: between_def)
  qed
qed

section \<open>The operations\<close>

lemma add_between:
  assumes "is_finite x" and "is_finite y" and "dyadic a" and "a \<le> f64_val x + f64_val y"
    and "dyadic b" and "f64_val x + f64_val y \<le> b"
  shows "between (f64_add x y) a b"
proof -
  obtain k h z where sum: "f64_val x + f64_val y = of_int k * 2 powi h"
    and add: "f64_add x y = (if k = 0 then f64_zero z else mk64 (k < 0) (round_mag binary64 \<bar>k\<bar> 1 h))"
    using add_as_rounding [OF assms(1,2)] .
  show ?thesis
  proof (cases "k = 0")
    case True
    with assms sum show ?thesis by (simp add: add between_def val_zero)
  next
    case False
    have "between (mk64 (k < 0) (round_mag binary64 \<bar>k\<bar> 1 h)) a b"
      by (rule rounded_between [where r = "f64_val x + f64_val y"]) (use assms in \<open>simp_all add: sum\<close>)
    with False show ?thesis by (simp add: add)
  qed
qed

lemma sub_between:
  assumes "is_finite x" and "is_finite y" and "dyadic a" and "a \<le> f64_val x - f64_val y"
    and "dyadic b" and "f64_val x - f64_val y \<le> b"
  shows "between (f64_sub x y) a b"
  unfolding f64_sub_def by (rule add_between) (use assms in \<open>simp_all add: val_neg\<close>)

lemma mul_between:
  assumes "is_finite x" and "is_finite y" and "dyadic a" and "a \<le> f64_val x * f64_val y"
    and "dyadic b" and "f64_val x * f64_val y \<le> b"
  shows "between (f64_mul x y) a b"
proof -
  obtain s n e where v: "f64_val x * f64_val y = (if s then - 1 else 1) * (of_int n / of_int 1 * 2 powi e)" "0 \<le> n"
    and m: "f64_mul x y = mk64 s (round_mag binary64 n 1 e)"
    using mul_as_rounding [OF assms(1,2)] .
  show ?thesis unfolding m by (rule rounded_between [OF v(2) _ v(1)]) (use assms in simp_all)
qed

lemma div_between:
  assumes "is_finite x" and "is_finite y" and "f64_val y \<noteq> 0" and "dyadic a" and "a \<le> f64_val x / f64_val y"
    and "dyadic b" and "f64_val x / f64_val y \<le> b"
  shows "between (f64_div x y) a b"
proof -
  obtain s m e where x: "view64 x = FNum s m e" "0 \<le> m" using finite_view [OF assms(1)] .
  obtain u k g where y: "view64 y = FNum u k g" "0 \<le> k" using finite_view [OF assms(2)] .
  have k: "0 < k" using assms(3) y by (simp add: val_FNum [OF y(1)] split: if_splits)
  have d: "f64_div x y = mk64 (s \<noteq> u) (round_mag binary64 m k (e - g))"
    using k by (simp add: f64_div_def x y)
  have "f64_val x / f64_val y = (if s \<noteq> u then - 1 else 1) * (of_int m / of_int k * 2 powi (e - g))"
    by (simp add: val_FNum [OF x(1)] val_FNum [OF y(1)] power_int_diff)
  from rounded_between [OF x(2) k this] assms show ?thesis by (simp add: d)
qed

lemma of_int_between:
  assumes "dyadic a" and "a \<le> of_int i" and "dyadic b" and "of_int i \<le> b"
  shows "between (f64_of_int i) a b"
  unfolding f64_of_int_def by (rule rounded_between [where r = "of_int i"]) (use assms in simp_all)

text \<open>Literals are their fractions, up to the bounds.\<close>

lemma lit_between:
  assumes "0 < d" and "dyadic a" and "a \<le> of_int n / of_int d" and "dyadic b" and "of_int n / of_int d \<le> b"
  shows "between (f64_lit n d) a b"
  unfolding f64_lit_def by (rule rounded_between [where r = "of_int n / of_int d"]) (use assms in simp_all)

lemma dyadic_numeral [simp]:
  "dyadic (of_int k) \<longleftrightarrow> \<bar>k\<bar> \<le> 2 ^ 30" "dyadic 0" "dyadic 1"
  "dyadic (numeral w) \<longleftrightarrow> numeral w \<le> (2 ^ 30 :: real)"
proof -
  have "of_int k * 2 ^ 20 = (of_int (k * 2 ^ 20) :: real)" by simp
  then have "of_int k * 2 ^ 20 \<in> (\<int> :: real set)" by (simp only: Ints_of_int)
  moreover have "(\<bar>of_int k\<bar> :: real) = of_int \<bar>k\<bar>" "(2 ^ 30 :: real) = of_int (2 ^ 30)" by simp_all
  ultimately show "dyadic (of_int k) \<longleftrightarrow> \<bar>k\<bar> \<le> 2 ^ 30"
    by (simp only: dyadic_def of_int_le_iff simp_thms)
  show "dyadic 0" "dyadic 1" "dyadic (numeral w) \<longleftrightarrow> numeral w \<le> (2 ^ 30 :: real)"
    by (simp_all add: dyadic_def Ints_mult Ints_power)
qed

text \<open>An integer literal is exact.\<close>

lemma lit_exact: "\<bar>n\<bar> \<le> 2 ^ 30 \<Longrightarrow> is_finite (f64_lit n 1) \<and> f64_val (f64_lit n 1) = of_int n"
  using lit_between [of 1 "of_int n" n "of_int n"] by (auto simp: between_def)

section \<open>Comparisons\<close>

lemma lt_finite: "is_finite x \<Longrightarrow> is_finite y \<Longrightarrow> f64_lt x y \<longleftrightarrow> f64_val x < f64_val y"
  by (erule finite_view, erule finite_view) (rule lt_FNum)

lemma finite_not_nan: "is_finite x \<Longrightarrow> \<not> f64_is_nan x"
  by (auto simp: is_finite_def f64_is_nan_def)

lemma max_between:
  assumes "is_finite x" and "is_finite y" and "a \<le> max (f64_val x) (f64_val y)" and "max (f64_val x) (f64_val y) \<le> b"
  shows "between (f64_max x y) a b"
  using assms finite_not_nan by (auto simp: f64_max_def lt_finite between_def)

lemma min_between:
  assumes "is_finite x" and "is_finite y" and "a \<le> min (f64_val x) (f64_val y)" and "min (f64_val x) (f64_val y) \<le> b"
  shows "between (f64_min x y) a b"
  using assms finite_not_nan by (auto simp: f64_min_def lt_finite between_def)

text \<open>NaN in, NaN out.\<close>

lemma nan_view [simp]: "view64 f64_nan = FNan"
  by code_simp

lemma nan_arith:
  assumes "f64_is_nan x"
  shows "f64_is_nan (f64_add x y)" and "f64_is_nan (f64_add y x)" and "f64_is_nan (f64_sub x y)" and "f64_is_nan (f64_sub y x)"
    and "f64_is_nan (f64_mul x y)" and "f64_is_nan (f64_mul y x)" and "f64_is_nan (f64_div x y)" and "f64_is_nan (f64_div y x)"
  using assms
  by (simp_all add: f64_is_nan_def f64_sub_def f64_add_def f64_mul_def f64_div_def view64_neg split: fview.split)

end
