(* ===== verification/Vehicle_Props.thy ===== *)
theory Vehicle_Props
  imports Vehicle Float64_Ranges
begin

text \<open>
  The numbers of the simulated vehicle along a run: whatever the generator yields, and however
  imprecise the sine, they stay in fixed ranges, and the drive cycle follows the time that has passed.
\<close>

section \<open>Noise\<close>

text \<open>A literal is at least as precise as a thousandth here.\<close>

lemma lits_between:
  "between (f64_lit 3 10) 0 1" "between (f64_lit 5 100) 0 1" "between (f64_lit 2 10000) 0 1"
  "between (f64_lit 15 100000) 0 (1 / 1024)" "between (f64_lit 65 100) 0 (21 / 32)" "between (f64_lit 15 10) 0 (3 / 2)"
  by (rule lit_between; simp add: dyadic_def)+

lemma rng_f64_between: "between (fst (rng_f64 r)) 0 1"
proof -
  obtain x r' where x: "next_u64 r = (x, r')" by fastforce
  let ?i = "uint (drop_bit 11 x)"
  have "?i < 2 ^ 53"
  proof -
    have "unat (drop_bit 11 x) = unat x div 2 ^ 11" by (simp only: unat_drop_bit_eq drop_bit_eq_div [of 11 "unat x"])
    moreover have "unat x < 2 ^ 64" using unsigned_less [of x] by simp
    ultimately show ?thesis by (simp add: uint_nat)
  qed
  then have i: "0 \<le> ?i" "?i < 2 ^ 53" by simp_all
  have fin: "is_finite (f64_of_int ?i)" "f64_val (f64_of_int ?i) = of_int ?i"
  proof -
    obtain m q where "view64 (f64_of_int ?i) = FNum False m q" "of_int m * 2 powi q = (of_int ?i * 2 powi 0 :: real)"
      using exact_rounding [OF i, of 0 False] i(1) by (auto simp: f64_of_int_def dest: view_rounded)
    then show "is_finite (f64_of_int ?i)" "f64_val (f64_of_int ?i) = of_int ?i"
      using FNum_finite by (simp_all add: val_FNum [where s = False and m = m and e = q])
  qed
  have two: "is_finite (f64_of_int (2 ^ 53))" "f64_val (f64_of_int (2 ^ 53)) = 2 ^ 53"
  proof -
    have "view64 (f64_of_int (2 ^ 53)) = FNum False (2 ^ 52) 1" by code_simp
    from FNum_finite [OF this] val_FNum [OF this]
    show "is_finite (f64_of_int (2 ^ 53))" "f64_val (f64_of_int (2 ^ 53)) = 2 ^ 53" by simp_all
  qed
  have "(of_int ?i :: real) \<le> of_int (2 ^ 53)" using i(2) by (simp only: of_int_le_iff)
  moreover have "(0 :: real) \<le> of_int ?i" using i(1) by (simp only: of_int_0_le_iff)
  ultimately have "between (f64_div (f64_of_int ?i) (f64_of_int (2 ^ 53))) 0 1"
    by (intro div_between) (simp_all add: fin two [simplified])
  then show ?thesis by (simp add: rng_f64_def x)
qed

lemma noise_between:
  assumes "between amp 0 1"
  shows "between (fst (noise amp r)) (- 1) 1"
proof -
  obtain x r' where r: "rng_f64 r = (x, r')" by fastforce
  have x: "between x 0 1" using rng_f64_between [of r] by (simp add: r)
  note two = lit_exact [of 2] and one = lit_exact [of 1]
  have "between (f64_mul x (f64_lit 2 1)) 0 2"
    by (rule mul_between) (use x two in \<open>simp_all add: between_def\<close>)
  then have "between (f64_sub (f64_mul x (f64_lit 2 1)) (f64_lit 1 1)) (- 1) 1"
    by (intro sub_between) (use one in \<open>simp_all add: between_def\<close>)
  moreover have "- 1 \<le> y * z \<and> y * z \<le> (1 :: real)" if "- 1 \<le> y" "y \<le> 1" "0 \<le> z" "z \<le> 1" for y z
    using that mult_mono [of "\<bar>y\<bar>" 1 z 1] abs_mult [of y z] by (auto simp: abs_le_iff)
  ultimately show ?thesis
    using assms by (simp add: noise_def r) (intro mul_between; simp add: between_def)
qed

section \<open>The ramp\<close>

definition nan_or :: "(f64 \<Rightarrow> bool) \<Rightarrow> f64 \<Rightarrow> bool" where
  "nan_or P x \<longleftrightarrow> f64_is_nan x \<or> P x"

lemma nan_or_op:
  assumes "nan_or P x" and "P x \<Longrightarrow> Q y" and "f64_is_nan x \<Longrightarrow> f64_is_nan y"
  shows "nan_or Q y"
  using assms by (auto simp: nan_or_def)

lemma clamp_unit: "nan_or (\<lambda>y. between y 0 1) (f64_clamp x (f64_lit 0 1) (f64_lit 1 1))"
proof (cases "view64 x")
  case FNan
  then show ?thesis by (simp add: nan_or_def f64_clamp_def f64_lt_def f64_is_nan_def split: fview.split)
next
  case (FInf s)
  then show ?thesis
    using lit_exact [of 0] lit_exact [of 1]
    by (cases s) (simp_all add: nan_or_def f64_clamp_def f64_lt_def lit_views lit_ranges between_def)
next
  case (FNum s m e)
  then have "is_finite x" by (rule FNum_finite)
  then show ?thesis
    using lit_exact [of 0] lit_exact [of 1] by (auto simp: nan_or_def f64_clamp_def lt_finite between_def)
qed

lemma smoothstep_real:
  fixes x :: real
  assumes "0 \<le> x" and "x \<le> 1"
  shows "x * x * (3 - 2 * x) \<le> 1"
proof -
  have "1 - x * x * (3 - 2 * x) = (1 - x) * (1 - x) * (1 + 2 * x)" by (simp add: algebra_simps)
  then show ?thesis using assms by (metis add_nonneg_nonneg diff_ge_0_iff_ge mult_nonneg_nonneg zero_le_numeral zero_le_one)
qed

lemma close_small: "close_to y x \<Longrightarrow> \<bar>x\<bar> \<le> 2 ^ 10 \<Longrightarrow> \<bar>y - x\<bar> \<le> 1 / 2 ^ 40"
proof -
  assume "close_to y x" and x: "\<bar>x\<bar> \<le> 2 ^ 10"
  then have "\<bar>y - x\<bar> \<le> \<bar>x\<bar> * unit_roundoff + unit_roundoff"
    using roundoff_small(2) by (simp add: close_to_def)
  also have "\<dots> \<le> 2 ^ 10 * unit_roundoff + unit_roundoff"
    using x roundoff_pos(1) by (intro add_right_mono mult_right_mono) simp_all
  also have "\<dots> \<le> 1 / 2 ^ 40" by (simp add: roundoff_small(1))
  finally show ?thesis .
qed

lemma near_chain: "\<bar>t - (z - d)\<bar> \<le> e \<Longrightarrow> \<bar>d - c\<bar> \<le> e \<Longrightarrow> \<bar>t - (z - c)\<bar> \<le> 2 * (e :: real)"
  by arith

lemma smoothstep_between: "nan_or (\<lambda>y. between y 0 (1025 / 1024)) (smoothstep x)"
proof -
  define c where "c = f64_clamp x (f64_lit 0 1) (f64_lit 1 1)"
  have s: "smoothstep x = f64_mul (f64_mul c c) (f64_sub (f64_lit 3 1) (f64_mul (f64_lit 2 1) c))"
    by (simp add: smoothstep_def c_def Let_def)
  from clamp_unit [of x] consider "f64_is_nan c" | "between c 0 1" by (auto simp: nan_or_def c_def)
  then show ?thesis
  proof cases
    case 1
    then show ?thesis by (simp add: nan_or_def s nan_arith)
  next
    case 2
    then have c: "is_finite c" "0 \<le> f64_val c" "f64_val c \<le> 1" by (simp_all add: between_def)
    note three = lit_exact [of 3] and two = lit_exact [of 2]
    let ?c = "f64_val c" and ?q = "f64_mul c c" and ?d = "f64_mul (f64_lit 2 1) c"
    have q: "between ?q 0 1" by (rule mul_between) (use c in \<open>simp_all add: mult_le_one\<close>)
    have d: "between ?d 0 2" by (rule mul_between) (use c two in simp_all)
    let ?t = "f64_sub (f64_lit 3 1) ?d"
    have t: "between ?t 1 3" by (rule sub_between) (use d three in \<open>simp_all add: between_def\<close>)
    have eq: "\<bar>f64_val ?q - ?c * ?c\<bar> \<le> 1 / 2 ^ 40"
      by (rule close_small [OF mul_close]) (use c q in \<open>simp_all add: between_def mult_le_one abs_mult order_trans [OF mult_le_one]\<close>)
    have ed: "\<bar>f64_val ?d - 2 * ?c\<bar> \<le> 1 / 2 ^ 40"
      using close_small [OF mul_close, of "f64_lit 2 1" c] c d two by (simp add: between_def)
    have et: "\<bar>f64_val ?t - (3 - f64_val ?d)\<bar> \<le> 1 / 2 ^ 40"
      using close_small [OF add_close, of "f64_lit 3 1" "f64_neg ?d"] d t three
      by (simp add: between_def f64_sub_def val_neg)
    define a b where "a = f64_val ?q - ?c * ?c" and "b = f64_val ?t - (3 - 2 * ?c)"
    have a: "\<bar>a\<bar> \<le> 1 / 2 ^ 40" using eq by (simp add: a_def)
    have b: "\<bar>b\<bar> \<le> 2 / 2 ^ 40"  unfolding b_def using near_chain [OF et ed] by simp
    have "f64_val ?q * f64_val ?t = (?c * ?c + a) * f64_val ?t" by (simp add: a_def)
    also have "\<dots> = ?c * ?c * (3 - 2 * ?c) + ?c * ?c * b + a * f64_val ?t"
      by (simp add: b_def algebra_simps)
    also have "\<dots> \<le> 1 + 1 * (2 / 2 ^ 40) + 1 / 2 ^ 40 * 3"
    proof (intro add_mono)
      show "?c * ?c * (3 - 2 * ?c) \<le> 1" by (rule smoothstep_real [OF c(2,3)])
      have "?c * ?c * b \<le> ?c * ?c * \<bar>b\<bar>" by (intro mult_left_mono) simp_all
      also have "\<dots> \<le> 1 * (2 / 2 ^ 40)" using b c by (intro mult_mono) (simp_all add: mult_le_one)
      finally show "?c * ?c * b \<le> 1 * (2 / 2 ^ 40)" .
      have "a * f64_val ?t \<le> \<bar>a\<bar> * f64_val ?t" using t by (intro mult_right_mono) (simp_all add: between_def)
      also have "\<dots> \<le> 1 / 2 ^ 40 * 3" using a t by (intro mult_mono) (simp_all add: between_def)
      finally show "a * f64_val ?t \<le> 1 / 2 ^ 40 * 3" .
    qed
    also have "\<dots> \<le> 1025 / 1024" by simp
    finally have "f64_val ?q * f64_val ?t \<le> 1025 / 1024" .
    then have "between (f64_mul ?q ?t) 0 (1025 / 1024)"
      by (intro mul_between) (use q t in \<open>simp_all add: between_def dyadic_def\<close>)
    then show ?thesis by (simp add: nan_or_def s)
  qed
qed

lemma envelope_between: "nan_or (\<lambda>y. between y 0 (1025 / 1024)) (envelope phase)"
proof -
  have "nan_or (\<lambda>y. between y 0 (1025 / 1024)) (f64_min a b)"
    if "nan_or (\<lambda>y. between y 0 (1025 / 1024)) a" "nan_or (\<lambda>y. between y 0 (1025 / 1024)) b" for a b
    using that by (auto simp: nan_or_def f64_min_def)
  then show ?thesis using smoothstep_between by (simp add: envelope_def)
qed

section \<open>The numbers of a run\<close>

text \<open>The sine of the platform may be imprecise, but is a number of its range up to one, or NaN.\<close>

definition sine_ok :: "(f64 \<Rightarrow> f64) \<Rightarrow> bool" where
  "sine_ok sin64 \<longleftrightarrow> (\<forall>x. nan_or (\<lambda>y. between y (- 2) 2) (sin64 x))"

definition numbers_ok :: "vehicle \<Rightarrow> bool" where
  "numbers_ok v \<longleftrightarrow>
     between (speed_kmh v) 0 128 \<and> between (soc_pct v) 5 80 \<and> between (motor_temp_c v) 24 110
     \<and> nan_or (\<lambda>x. between x 17 25) (cabin_temp_c v)"

lemma numbers_ok_new: "numbers_ok (vehicle_new b)"
  using lit_exact [of 0] lit_exact [of 80] lit_exact [of 25] lit_exact [of 21]
  by (simp add: numbers_ok_def vehicle_new_def nan_or_def between_def)

lemma speed_of_drive:
  assumes "sine_ok sin64"
  shows "between (speed_kmh (fst (step_drive sin64 v r))) 0 128"
proof -
  let ?phase = "f64_rem (t_s v) DRIVE_CYCLE_S"
  let ?sin = "sin64 (f64_mul ?phase (f64_lit 1 2))"
  let ?sum = "f64_add (f64_lit 110 1) (f64_mul (f64_lit 8 1) ?sin)"
  let ?target = "f64_mul (envelope ?phase) ?sum"
  note zero = lit_exact [of 0] and eight = lit_exact [of 8] and base = lit_exact [of 110]
  have "nan_or (\<lambda>x. between x (- 16) 16) (f64_mul (f64_lit 8 1) ?sin)"
  proof -
    have "nan_or (\<lambda>y. between y (- 2) 2) ?sin" using assms by (simp add: sine_ok_def)
    then show ?thesis
      by (rule nan_or_op) (rule mul_between, use eight in \<open>simp_all add: between_def nan_arith\<close>)
  qed
  then have sum: "nan_or (\<lambda>x. between x 94 126) ?sum"
    by (rule nan_or_op) (rule add_between, use base in \<open>simp_all add: between_def nan_arith\<close>)
  have product: "0 \<le> a * b \<and> a * b \<le> (127 :: real)" if "0 \<le> a" "a \<le> 1025 / 1024" "94 \<le> b" "b \<le> 126" for a b
    using that mult_mono [of a "1025 / 1024" b 126] by simp
  have target: "nan_or (\<lambda>x. between x 0 127) ?target"
  proof (cases "f64_is_nan ?sum \<or> f64_is_nan (envelope ?phase)")
    case True
    then show ?thesis by (auto simp: nan_or_def nan_arith)
  next
    case False
    then have "between ?sum 94 126" "between (envelope ?phase) 0 (1025 / 1024)"
      using sum envelope_between [of ?phase] by (simp_all add: nan_or_def)
    then have "between ?target 0 127" by (intro mul_between) (use product in \<open>simp_all add: between_def\<close>)
    then show ?thesis by (simp add: nan_or_def)
  qed
  have noise: "between (fst (noise (f64_lit 3 10) r)) (- 1) 1" by (rule noise_between [OF lits_between(1)])
  from target have "nan_or (\<lambda>x. between x (- 1) 128) (f64_add ?target (fst (noise (f64_lit 3 10) r)))"
    by (rule nan_or_op) (rule add_between, use noise in \<open>simp_all add: between_def nan_arith\<close>)
  then have "between (f64_max (f64_add ?target (fst (noise (f64_lit 3 10) r))) (f64_lit 0 1)) 0 128"
    using zero unfolding nan_or_def
    by (auto simp: f64_max_def between_def [of "f64_lit 0 1"]) (auto simp: between_def lt_finite finite_not_nan)
  then show ?thesis
    using zero by (auto simp: step_drive_def Let_def split_beta between_def)
qed

lemma lag_real:
  fixes m p t d q e :: real
  assumes "\<bar>d - (t - m)\<bar> \<le> e" and "\<bar>p - q\<bar> \<le> e" and "e \<le> 1 / 2" and "25 \<le> t" and "t \<le> 109"
    and "0 \<le> p \<and> q \<le> d \<and> 24 \<le> m \<or> p \<le> 0 \<and> d \<le> q \<and> m \<le> 110"
  shows "24 \<le> m + p \<and> m + p \<le> 110"
  using assms by arith

text \<open>
  The temperature moves towards its target by a fraction of the distance: away from a bound, or to the
  target up to the rounding.
\<close>

lemma lag_between:
  assumes m: "between m 24 110" and t: "between t 25 109" and k: "between k 0 1"
  shows "between (f64_add m (f64_mul (f64_sub t m) k)) 24 110"
proof -
  let ?d = "f64_sub t m" and ?p = "f64_mul (f64_sub t m) k"
  have fin: "is_finite m" "is_finite t" "is_finite k" using assms by (simp_all add: between_def)
  have d: "between ?d (- 85) 85" by (rule sub_between) (use assms in \<open>simp_all add: between_def\<close>)
  have sign: "f64_val m \<le> f64_val t \<Longrightarrow> 0 \<le> f64_val ?d" "f64_val t \<le> f64_val m \<Longrightarrow> f64_val ?d \<le> 0"
    using sub_between [OF fin(2,1), of 0 85] sub_between [OF fin(2,1), of "- 85" 0] assms by (simp_all add: between_def)
  have near: "\<bar>f64_val ?d - (f64_val t - f64_val m)\<bar> \<le> 1 / 2 ^ 40"
    using close_small [OF add_close, of t "f64_neg m"] d assms
    by (simp add: between_def f64_sub_def val_neg abs_le_iff)
  have part: "\<bar>x * f64_val k\<bar> \<le> \<bar>x\<bar>" for x
    using k mult_left_mono [of "f64_val k" 1 "\<bar>x\<bar>"] by (simp add: between_def abs_mult)
  have p: "between ?p (- 85) 85"
    by (rule mul_between) (use d fin part [of "f64_val ?d"] abs_le_iff [of "f64_val ?d" 85] in \<open>simp_all add: between_def abs_le_iff [of "_ * _"]\<close>)
  have near2: "\<bar>f64_val ?p - f64_val ?d * f64_val k\<bar> \<le> 1 / 2 ^ 40"
    by (rule close_small [OF mul_close]) (use d p fin order_trans [OF part [of "f64_val ?d"], of 1024] in \<open>simp_all add: between_def abs_le_iff [of "f64_val ?d"]\<close>)
  have "24 \<le> f64_val m + f64_val ?p \<and> f64_val m + f64_val ?p \<le> 110"
  proof (cases "f64_val m \<le> f64_val t")
    case True
    have "between ?p 0 85"
      by (rule mul_between) (use sign(1) [OF True] d k part [of "f64_val ?d"] in \<open>simp_all add: between_def abs_le_iff\<close>)
    moreover have "f64_val ?d * f64_val k \<le> f64_val ?d"
      using part [of "f64_val ?d"] sign(1) [OF True] by (simp add: abs_le_iff)
    ultimately show ?thesis
      using near near2 t m unfolding between_def by (intro lag_real [where e = "1 / 2 ^ 40"]) auto
  next
    case False
    then have le: "f64_val t \<le> f64_val m" by simp
    have "between ?p (- 85) 0"
      by (rule mul_between) (use sign(2) [OF le] d k part [of "f64_val ?d"] in \<open>simp_all add: between_def abs_le_iff mult_nonpos_nonneg\<close>)
    moreover have "f64_val ?d \<le> f64_val ?d * f64_val k"
      using part [of "f64_val ?d"] sign(2) [OF le] by (simp add: abs_le_iff)
    ultimately show ?thesis
      using near near2 t m unfolding between_def by (intro lag_real [where e = "1 / 2 ^ 40"]) auto
  qed
  then show ?thesis by (intro add_between) (use fin p in \<open>simp_all add: between_def\<close>)
qed

lemma numbers_ok_temps:
  assumes "sine_ok sin64" and dt: "between dt 0 2"
    and "between (speed_kmh v) 0 128" and "between (soc_pct v) 5 80" and "between (motor_temp_c v) 24 110"
  shows "numbers_ok (fst (step_temps sin64 dt v r))"
proof -
  note one = lit_exact [of 1] and five = lit_exact [of 5] and eight = lit_exact [of 8] and base = lit_exact [of 25]
    and forty = lit_exact [of 40] and mid = lit_exact [of 21]
  have mono: "0 \<le> a * b \<and> a * b \<le> x * y" if "0 \<le> a" "a \<le> x" "0 \<le> b" "b \<le> y" for a b x y :: real
    using that mult_mono [of a x b y] by simp
  let ?heat = "f64_mul (speed_kmh v) (f64_lit 65 100)"
  have "between ?heat 0 84"
    by (rule mul_between)
      (use assms(3) lits_between(5) mono [of "f64_val (speed_kmh v)" 128 "f64_val (f64_lit 65 100)" "21 / 32"] in
        \<open>simp_all add: between_def\<close>)
  then have target: "between (f64_add (f64_lit 25 1) ?heat) 25 109"
    using base by (intro add_between) (simp_all add: between_def)
  have "between (f64_div dt (f64_lit 8 1)) 0 1"
    by (rule div_between) (use dt eight in \<open>simp_all add: between_def\<close>)
  then have "between (f64_min (f64_div dt (f64_lit 8 1)) (f64_lit 1 1)) 0 1"
    using one by (intro min_between) (simp_all add: between_def)
  from lag_between [OF assms(5) target this] have motor: "between (motor_temp_c (fst (step_temps sin64 dt v r))) 24 110"
    by (simp add: step_temps_def Let_def split_beta)
  let ?rate = "f64_mul (speed_kmh v) (f64_lit 15 100000)"
  have "between ?rate 0 1"
    by (rule mul_between)
      (use assms(3) lits_between(4) mono [of "f64_val (speed_kmh v)" 128 "f64_val (f64_lit 15 100000)" "1 / 1024"] in
        \<open>simp_all add: between_def\<close>)
  then have "between (f64_add (f64_lit 2 10000) ?rate) 0 2"
    using lits_between(3) by (intro add_between) (simp_all add: between_def)
  then have used: "between (f64_mul dt (f64_add (f64_lit 2 10000) ?rate)) 0 4"
    using dt mono [of "f64_val dt" 2 "f64_val (f64_add (f64_lit 2 10000) ?rate)" 2]
    by (intro mul_between) (simp_all add: between_def)
  then have "between (f64_sub (soc_pct v) (f64_mul dt (f64_add (f64_lit 2 10000) ?rate))) 1 80"
    using assms(4) by (intro sub_between) (simp_all add: between_def)
  then have "between (f64_max (f64_sub (soc_pct v) (f64_mul dt (f64_add (f64_lit 2 10000) ?rate))) (f64_lit 5 1)) 5 80"
    using five by (intro max_between) (simp_all add: between_def)
  then have soc: "between (soc_pct (fst (step_temps sin64 dt v r))) 5 80"
    by (simp add: step_temps_def Let_def split_beta)
  let ?sin = "sin64 (f64_div (t_s v) (f64_lit 40 1))"
  have "nan_or (\<lambda>x. between x (- 3) 3) (f64_mul (f64_lit 15 10) ?sin)"
  proof -
    have bound: "- 3 \<le> a * b \<and> a * b \<le> 3" if "0 \<le> a" "a \<le> 3 / 2" "- 2 \<le> b" "b \<le> 2" for a b :: real
      using that mult_mono [of a "3 / 2" "\<bar>b\<bar>" 2] abs_mult [of a b] by (auto simp: abs_le_iff)
    have "nan_or (\<lambda>y. between y (- 2) 2) ?sin" using assms(1) by (simp add: sine_ok_def)
    then show ?thesis
      by (rule nan_or_op) (rule mul_between, use lits_between(6) bound in \<open>simp_all add: between_def nan_arith\<close>)
  qed
  then have "nan_or (\<lambda>x. between x 18 24) (f64_add (f64_lit 21 1) (f64_mul (f64_lit 15 10) ?sin))"
    by (rule nan_or_op) (rule add_between, use mid in \<open>simp_all add: between_def nan_arith\<close>)
  note cabin = this
  have noise: "between (fst (noise (f64_lit 5 100) r)) (- 1) 1" by (rule noise_between [OF lits_between(2)])
  from cabin have "nan_or (\<lambda>x. between x 17 25) (f64_add (f64_add (f64_lit 21 1) (f64_mul (f64_lit 15 10) ?sin))
      (fst (noise (f64_lit 5 100) r)))"
    by (rule nan_or_op) (rule add_between, use noise in \<open>simp_all add: between_def nan_arith\<close>)
  then have "nan_or (\<lambda>x. between x 17 25) (cabin_temp_c (fst (step_temps sin64 dt v r)))"
    by (simp add: step_temps_def Let_def split_beta)
  with motor soc assms(3) show ?thesis
    by (simp add: numbers_ok_def) (simp add: step_temps_def Let_def split_beta)
qed

lemma numbers_ok_step:
  assumes "sine_ok sin64" and "between dt 0 2" and "numbers_ok v"
  shows "numbers_ok (fst (vehicle_step sin64 dt (v, r)))"
proof -
  let ?v1 = "v\<lparr>t_s := f64_add (t_s v) dt\<rparr>"
  define s2 where "s2 = (case veh_behaviour ?v1 of
      Drive \<Rightarrow> step_drive sin64 ?v1 r | Park \<Rightarrow> (?v1\<lparr>veh_gear := GearP, speed_kmh := f64_lit 0 1\<rparr>, r))"
  have "between (speed_kmh (fst s2)) 0 128"
    using speed_of_drive [OF assms(1)] lit_exact [of 0]
    by (simp add: s2_def between_def split: vehicle_behaviour.split)
  moreover have "soc_pct (fst s2) = soc_pct v" "motor_temp_c (fst s2) = motor_temp_c v"
    by (simp_all add: s2_def step_drive_def Let_def split_beta split: vehicle_behaviour.split)
  ultimately have "numbers_ok (fst (step_temps sin64 dt (fst s2) (snd s2)))"
    using assms by (intro numbers_ok_temps) (simp_all add: numbers_ok_def)
  moreover have "vehicle_step sin64 dt (v, r)
      = step_door dt (fst (step_temps sin64 dt (fst s2) (snd s2))) (snd (step_temps sin64 dt (fst s2) (snd s2)))"
    by (cases "veh_behaviour v") (simp_all add: vehicle_step_def Let_def split_beta s2_def)
  ultimately show ?thesis
    by (auto simp: step_door_def numbers_ok_def Let_def split: prod.splits bool.splits)
qed

end
