(* ===== verification/Simulator_Props.thy ===== *)
theory Simulator_Props
  imports Simulator Wire_Numeric Vehicle_Props
begin

text \<open>
  The loop of the simulator: an invariant rule for it, the pacing, why a run with a duration ends, and
  what the packets it sends hold.
\<close>

section \<open>Pacing\<close>

text \<open>How late the loop woke up before round \<open>n\<close>.\<close>

fun late :: "world \<Rightarrow> nat \<Rightarrow> nat" where
  "late w 0 = 0"
| "late w (Suc n) = w_lag w n"

text \<open>
  The packets with their times, and the next tick: between the packets \<open>i\<close> and \<open>j\<close> lie \<open>j - i\<close>
  periods, up to how late the loop woke up before packet \<open>i\<close>.
\<close>

definition spaced :: "world \<Rightarrow> nat \<Rightarrow> nat list \<Rightarrow> nat \<Rightarrow> bool" where
  "spaced w period ts due \<longleftrightarrow>
     (\<forall>i<length ts. ts ! i + (length ts - i) * period \<le> due + late w i)
     \<and> (\<forall>j<length ts. \<forall>i<j. ts ! i + (j - i) * period \<le> ts ! j + late w i)"

definition paced :: "world \<Rightarrow> nat \<Rightarrow> nat \<Rightarrow> sim \<Rightarrow> bool" where
  "paced w period n st \<longleftrightarrow>
     n * period \<le> next_tick st \<and> sim_clock st = next_tick st + late w n
     \<and> spaced w period (map fst (sim_sent st)) (next_tick st)"

lemma spaced_send:
  assumes "spaced w period ts due" and "now = due + late w (length ts)" and "due + period \<le> due'"
  shows "spaced w period (ts @ [now]) due'"
proof -
  have "ts ! i + (Suc (length ts) - i) * period \<le> due' + late w i" if "i < length ts" for i
  proof -
    have "ts ! i + (length ts - i) * period \<le> due + late w i" using assms(1) that by (simp add: spaced_def)
    then show ?thesis using assms(3) that by (simp add: Suc_diff_le)
  qed
  then show ?thesis
    using assms by (fastforce simp: spaced_def nth_append less_Suc_eq)
qed

lemma sim_pace_paced:
  assumes "paced w period n st0" and "length (sim_sent st0) = n" and "next_tick st = next_tick st0"
    and "sim_sent st = sim_sent st0 @ [(sim_clock st0, p)]"
  shows "paced w period (Suc n) (sim_pace period tail (w_lag w n) st)"
proof -
  let ?st = "sim_pace period tail (w_lag w n) st"
  have due: "next_tick st0 + period \<le> next_tick ?st" and sent: "sim_sent ?st = sim_sent st"
    and clock: "sim_clock ?st = next_tick ?st + w_lag w n"
    using assms(3) by (auto simp: sim_pace_def Let_def)
  have "spaced w period (map fst (sim_sent st0) @ [sim_clock st0]) (next_tick ?st)"
    by (rule spaced_send [OF _ _ due]) (use assms(1,2) in \<open>simp_all add: paced_def\<close>)
  with due clock sent assms(1,4) show ?thesis by (simp add: paced_def)
qed

lemma sim_report_keeps:
  "next_tick (sim_report work rep st) = next_tick st" "sim_sent (sim_report work rep st) = sim_sent st"
  "sim_vehicle (sim_report work rep st) = sim_vehicle st" "packets (sim_report work rep st) = packets st"
  "send_errors (sim_report work rep st) = send_errors st" "sim_rng (sim_report work rep st) = sim_rng st"
  by (simp_all add: sim_report_def Let_def)

lemma sim_pace_keeps:
  "sim_sent (sim_pace period tail lag st) = sim_sent st" "sim_vehicle (sim_pace period tail lag st) = sim_vehicle st"
  "packets (sim_pace period tail lag st) = packets st" "send_errors (sim_pace period tail lag st) = send_errors st" "sim_rng (sim_pace period tail lag st) = sim_rng st"
  by (simp_all add: sim_pace_def Let_def)

lemma count_send_keeps:
  "next_tick (count_send res st) = next_tick st" "sim_sent (count_send res st) = sim_sent st"
  "sim_vehicle (count_send res st) = sim_vehicle st" "sim_rng (count_send res st) = sim_rng st"
  "packets (count_send res st) = packets st + of_bool (is_ok res)"
  "send_errors (count_send res st) = send_errors st + of_bool (\<not> is_ok res)"
  by (simp_all add: count_send_def split: result.split)

lemma sim_packet_keeps:
  "next_tick (snd (sim_packet s c fs st)) = next_tick st" "sim_sent (snd (sim_packet s c fs st)) = sim_sent st"
  "sim_clock (snd (sim_packet s c fs st)) = sim_clock st"
  "sim_vehicle (snd (sim_packet s c fs st)) = sim_vehicle st" "packets (snd (sim_packet s c fs st)) = packets st"
  "send_errors (snd (sim_packet s c fs st)) = send_errors st"
  by (auto simp: sim_packet_def split: scenario.split prod.split result.split)

lemmas sim_keeps = sim_report_keeps sim_pace_keeps count_send_keeps sim_packet_keeps

section \<open>What one round does\<close>

text \<open>
  The vehicle and the generator after \<open>k\<close> rounds of the drive or the park scenario, where nothing else
  draws from the generator, and the packet of a round: it shows the vehicle after the step of the round.
\<close>

definition vehicle_after :: "world \<Rightarrow> scenario \<Rightarrow> nat \<Rightarrow> u64 \<Rightarrow> nat \<Rightarrow> vehicle \<times> rng" where
  "vehicle_after w s period seed k =
     (vehicle_step (w_sin w) (as_secs_f64 period) ^^ k) (vehicle_new (behaviour_of s), rng_new seed)"

abbreviation "round_vehicle w s period seed i \<equiv> fst (vehicle_after w s period seed (Suc i))"

lemma vehicle_after_Suc:
  "vehicle_after w s period seed (Suc k) = vehicle_step (w_sin w) (as_secs_f64 period) (vehicle_after w s period seed k)"
  by (simp add: vehicle_after_def)

definition packet_of_round :: "world \<Rightarrow> scenario \<Rightarrow> catalog \<Rightarrow> nat \<Rightarrow> u64 \<Rightarrow> nat \<Rightarrow> u8 list \<Rightarrow> bool" where
  "packet_of_round w s c period seed i p \<longleftrightarrow>
     s = SGarbage
     \<or> (\<exists>fs. vehicle_frames (round_vehicle w s period seed i) c (w_now_us w i) = Ok fs \<and> encode_packet fs = Ok p)"

text \<open>How many of the first packets the socket took.\<close>

definition taken :: "world \<Rightarrow> sim \<Rightarrow> nat" where
  "taken w st = length (filter (\<lambda>i. is_ok (w_send w i (snd (sim_sent st ! i)))) [0..<length (sim_sent st)])"

definition sim_inv :: "world \<Rightarrow> scenario \<Rightarrow> catalog \<Rightarrow> nat \<Rightarrow> u64 \<Rightarrow> nat \<Rightarrow> sim \<Rightarrow> bool" where
  "sim_inv w s c period seed n st \<longleftrightarrow>
     paced w period n st \<and> length (sim_sent st) = n
     \<and> packets st = of_nat (taken w st) \<and> packets st + send_errors st = of_nat n
     \<and> (\<forall>i<n. packet_of_round w s c period seed i (snd (sim_sent st ! i)))"

text \<open>The state at the top of the loop.\<close>

definition on_track :: "world \<Rightarrow> scenario \<Rightarrow> nat \<Rightarrow> u64 \<Rightarrow> nat \<Rightarrow> sim \<Rightarrow> bool" where
  "on_track w s period seed n st \<longleftrightarrow> s = SGarbage \<or> (sim_vehicle st, sim_rng st) = vehicle_after w s period seed n"

lemma sim_inv_new: "sim_inv w s c period seed 0 (sim_new s seed)" "on_track w s period seed 0 (sim_new s seed)"
  by (simp_all add: sim_inv_def on_track_def paced_def spaced_def taken_def vehicle_after_def sim_new_def)

lemma taken_cong: "sim_sent st' = sim_sent st \<Longrightarrow> taken w st' = taken w st"
  by (simp add: taken_def)

lemma taken_send:
  assumes "sim_sent st' = sim_sent st @ [(t, p)]"
  shows "taken w st' = taken w st + of_bool (is_ok (w_send w (length (sim_sent st)) p))"
proof -
  have "filter (\<lambda>i. is_ok (w_send w i (snd (sim_sent st' ! i)))) [0..<length (sim_sent st)]
      = filter (\<lambda>i. is_ok (w_send w i (snd (sim_sent st ! i)))) [0..<length (sim_sent st)]"
    by (rule filter_cong) (simp_all add: assms nth_append)
  then show ?thesis by (simp add: taken_def assms nth_append)
qed

lemma sim_packet_plain: "s \<noteq> SGarbage \<Longrightarrow> sim_packet s c fs st = (encode_packet fs, st)"
  by (cases s) (simp_all add: sim_packet_def)

lemma sim_round_inv:
  assumes "sim_inv w s c period seed n st" and "on_track w s period seed n st"
    and "sim_round w s c period n st = (res, st')"
  shows "sim_inv w s c period seed (if is_ok res then Suc n else n) st'"
    and "is_ok res \<Longrightarrow> on_track w s period seed (Suc n) st'"
proof -
  obtain v r where v: "vehicle_step (w_sin w) (as_secs_f64 period) (sim_vehicle st, sim_rng st) = (v, r)" by fastforce
  define st1 where "st1 = st\<lparr>sim_vehicle := v, sim_rng := r\<rparr>"
  have track: "(v, r) = vehicle_after w s period seed (Suc n)" if "s \<noteq> SGarbage"
    using assms(2) that by (simp add: on_track_def vehicle_after_Suc v [symmetric])
  have len: "length (sim_sent st) = n" using assms(1) by (simp add: sim_inv_def)
  have "sim_inv w s c period seed (if is_ok res then Suc n else n) st'
    \<and> (is_ok res \<longrightarrow> on_track w s period seed (Suc n) st')"
  proof (cases "vehicle_frames v c (w_now_us w n)")
    case (Err e)
    with assms v show ?thesis by (auto simp: sim_round_def sim_inv_def paced_def taken_def)
  next
    case fs: (Ok fs)
    define st2 where "st2 = snd (sim_packet s c fs st1)"
    have st2: "next_tick st2 = next_tick st" "sim_sent st2 = sim_sent st" "sim_clock st2 = sim_clock st"
      "packets st2 = packets st" "send_errors st2 = send_errors st"
      by (simp_all add: st2_def sim_keeps st1_def)
    show ?thesis
    proof (cases "fst (sim_packet s c fs st1)")
      case (Err e)
      with assms(3) v fs have "st' = st2" "res = Err e"
        by (auto simp: sim_round_def st1_def [symmetric] st2_def split: prod.splits)
      with assms(1) show ?thesis
        using taken_cong [OF st2(2), of w] by (auto simp: sim_inv_def paced_def st2)
    next
      case (Ok p)
      with assms(3) v fs have st': "st' = sim_pace period (w_tail w n) (w_lag w n)
            (sim_report (w_work w n) (w_report w n)
              (count_send (w_send w n p) (st2\<lparr>sim_sent := sim_sent st2 @ [(sim_clock st, p)]\<rparr>)))"
        and res: "res = Ok ()"
        by (auto simp: sim_round_def st1_def [symmetric] st2_def split: prod.splits)
      have "paced w period (Suc n) st'"
        unfolding st' by (rule sim_pace_paced [where ?st0.0 = st]) (use assms(1) in \<open>simp_all add: sim_inv_def sim_keeps st2\<close>)
      moreover have "packet_of_round w s c period seed n p"
        using Ok fs track by (cases "s = SGarbage") (auto simp: packet_of_round_def sim_packet_plain dest: arg_cong [where f = fst])
      moreover have sent: "sim_sent st' = sim_sent st @ [(sim_clock st, p)]" by (simp add: st' sim_keeps st2)
      moreover have "packets st' = of_nat (taken w st')" "packets st' + send_errors st' = of_nat (Suc n)"
        using assms(1) by (auto simp: taken_send [OF sent] sim_inv_def) (auto simp: st' sim_keeps st2 algebra_simps)
      ultimately have inv: "sim_inv w s c period seed (Suc n) st'"
        using assms(1) by (simp add: sim_inv_def nth_append less_Suc_eq)
      have "on_track w s period seed (Suc n) st'"
        using track by (cases "s = SGarbage") (auto simp: on_track_def st' sim_keeps st2_def sim_packet_plain st1_def)
      with inv show ?thesis by (simp add: res)
    qed
  qed
  then show "sim_inv w s c period seed (if is_ok res then Suc n else n) st'"
    "is_ok res \<Longrightarrow> on_track w s period seed (Suc n) st'"
    by blast+
qed

section \<open>The whole run\<close>

lemma sim_loop_inv:
  assumes "sim_loop w s c d period n st = Some out" and "sim_inv w s c period seed n st" and "on_track w s period seed n st"
  shows "(\<exists>m\<ge>n. sim_inv w s c period seed m (snd out)) \<and> (is_ok (fst out) \<longrightarrow> time_is_up d (sim_clock (snd out)))"
proof -
  let ?P = "\<lambda>w s c d period n st out. sim_inv w s c period seed n st \<longrightarrow> on_track w s period seed n st \<longrightarrow>
    (\<exists>m\<ge>n. sim_inv w s c period seed m (snd out)) \<and> (is_ok (fst out) \<longrightarrow> time_is_up d (sim_clock (snd out)))"
  have "?P w s c d period n st out"
  proof (rule sim_loop.raw_induct [where P = ?P, OF _ assms(1)])
    fix loop w s c d period n st out
    assume IH: "\<And>w s c d period n st out. loop w s c d period n st = Some out \<Longrightarrow> ?P w s c d period n st out"
      and out: "(if time_is_up d (sim_clock st) then Some (Ok (), st)
        else case sim_round w s c period n st of (Err e, st') \<Rightarrow> Some (Err e, st')
          | (Ok x, st') \<Rightarrow> loop w s c d period (Suc n) st') = Some out"
    show "?P w s c d period n st out"
    proof (cases "time_is_up d (sim_clock st)")
      case True
      with out show ?thesis by auto
    next
      case False
      obtain res st' where r: "sim_round w s c period n st = (res, st')" by fastforce
      note inv = sim_round_inv [OF _ _ r]
      show ?thesis
      proof (cases res)
        case (Err e)
        with False out r have "out = (Err e, st')" by simp
        with inv(1) Err show ?thesis by fastforce
      next
        case (Ok u)
        with False out r have "loop w s c d period (Suc n) st' = Some out" by simp
        from IH [OF this] inv Ok show ?thesis by (auto dest: Suc_leD)
      qed
    qed
  qed
  with assms(2,3) show ?thesis by blast
qed

text \<open>Every round moves the clock by a period at least, so a time limit ends the run.\<close>

lemma sim_loop_returns:
  assumes "0 < period" and "\<And>t. T \<le> t \<Longrightarrow> time_is_up d t" and "sim_inv w s c period seed n st"
    and "on_track w s period seed n st"
  shows "\<exists>out. sim_loop w s c d period n st = Some out"
  using assms(3,4)
proof (induction "T - n" arbitrary: n st rule: less_induct)
  case less
  show ?case
  proof (cases "time_is_up d (sim_clock st)")
    case True
    then show ?thesis by (simp add: sim_loop.simps)
  next
    case False
    then have "sim_clock st < T" using assms(2) not_le_imp_less by blast
    moreover have "n * period \<le> sim_clock st" using less.prems(1) by (auto simp: sim_inv_def paced_def)
    moreover have "n * 1 \<le> n * period" using assms(1) by (intro mult_le_mono) simp_all
    ultimately have n: "T - Suc n < T - n" by linarith
    obtain res st' where r: "sim_round w s c period n st = (res, st')" by fastforce
    show ?thesis
    proof (cases res)
      case (Err e)
      with False r show ?thesis by (simp add: sim_loop.simps)
    next
      case (Ok u)
      with sim_round_inv [OF less.prems r] have "sim_inv w s c period seed (Suc n) st'"
        "on_track w s period seed (Suc n) st'" by simp_all
      from less.hyps [OF n this] Ok False r show ?thesis by (simp add: sim_loop.simps)
    qed
  qed
qed

section \<open>Durations\<close>

lemma as_secs_above:
  assumes "2 \<le> k" and "k * NANOS \<le> t"
  shows "f64_above (as_secs_f64 t) (of_nat k / 4)"
proof -
  have "k = k * NANOS div NANOS" by (simp add: NANOS_def)
  also have "\<dots> \<le> t div NANOS" by (rule div_le_mono [OF assms(2)])
  finally have k: "k \<le> t div NANOS" .
  have secs: "f64_above (f64_of_int (int (t div NANOS))) (of_int (int (t div NANOS)) / 2)"
    using k assms(1) by (intro of_int_above_half) simp
  have "f64_above (f64_div (f64_of_int (int (t mod NANOS))) (f64_lit (10 ^ 9) 1)) 0"
  proof -
    have lit: "view64 (f64_lit (10 ^ 9) 1) = FNum False 8388608000000000 (- 23)" by code_simp
    show ?thesis by (rule div_above_zero [OF of_int_above_zero lit]) simp_all
  qed
  from add_above_half [OF secs this] k assms(1)
  have "f64_above (as_secs_f64 t) (of_int (int (t div NANOS)) / 2 / 2)"
    unfolding as_secs_f64_def by simp
  then show ?thesis by (rule f64_above_mono) (use k in simp)
qed

lemma time_limit:
  assumes "view64 d = FNum s m e"
  shows "\<exists>T. \<forall>t. T \<le> t \<longrightarrow> time_is_up (Some d) t"
proof -
  obtain k :: nat where k: "4 * f64_val d \<le> of_nat k" using real_arch_simple by blast
  have "time_is_up (Some d) t" if "(k + 2) * NANOS \<le> t" for t
  proof -
    have "f64_above (as_secs_f64 t) (of_nat (k + 2) / 4)" by (rule as_secs_above [OF _ that]) simp
    then have "f64_le d (as_secs_f64 t)" by (rule f64_above_le [OF _ assms]) (use k in simp)
    then show ?thesis by (simp add: time_is_up_def)
  qed
  then show ?thesis by blast
qed

text \<open>The period of a rate from 1 to 10,000 is not zero, and a second at most.\<close>

lemma period_positive:
  assumes "1 \<le> rate" and "rate \<le> 10000"
  shows "0 < period_of rate"
proof -
  obtain k g where k: "view64 (f64_of_int (int rate)) = FNum False k g"
    and low: "of_int (int rate) / 2 \<le> of_int k * (2 powi g :: real)"
    and high: "of_int k * 2 powi g \<le> 2 * (of_int (int rate) :: real)"
    using of_int_bounds [of "int rate"] assms by force
  define y :: real where "y = of_int k * 2 powi g"
  have y: "1 / 2 \<le> y" "y \<le> 20000" using low high assms by (simp_all add: y_def)
  then have "0 < of_int k * (2 powi g :: real)" by (simp add: y_def)
  then have kpos: "0 < k" by (metis of_int_0_less_iff zero_less_mult_pos2 zero_less_numeral zero_less_power_int)
  define x :: real where "x = of_int (2 ^ 52) / of_int k * 2 powi (- 52 - g)"
  have "x = 1 / y" by (simp add: x_def y_def power_int_diff power_int_minus field_simps)
  with y have x: "1 / 20000 \<le> x" "x \<le> 2"
    by (simp_all add: le_divide_eq divide_le_eq)
  have tiny: "(2 :: real) powi (- 1000) \<le> 1 / 20000"
    using power_int_increasing [of "- 1000" "- 20" "2 :: real"] by (simp add: power_int_minus)
  have large: "(2 :: real) \<le> 2 powi 1000"
    using power_int_increasing [of 1 1000 "2 :: real"] by simp
  have fin: "no_overflow (2 ^ 52) k (- 52 - g)"
    using x large kpos by (intro in_range_no_overflow) (simp_all add: x_def)
  then obtain m q where v: "view64 (mk64 False (round_mag binary64 (2 ^ 52) k (- 52 - g))) = FNum False m q"
    and half: "x / 2 \<le> of_int m * 2 powi q"
    using rounded_bounds [of "2 ^ 52" k "- 52 - g" False] x tiny kpos by (auto simp: x_def)
  have div: "view64 (f64_div (f64_lit 1 1) (f64_of_int (int rate))) = FNum False m q"
    using v kpos by (simp add: f64_div_def lit_ranges(1) k)
  have pos: "1 / 40000 \<le> of_int m * (2 powi q :: real)" using half x by simp
  then have "0 < of_int m * (2 powi q :: real)" by (rule less_le_trans [rotated]) simp
  then have m: "0 < m" by (metis of_int_0_less_iff zero_less_mult_pos2 zero_less_numeral zero_less_power_int)
  show ?thesis
  proof (cases "0 \<le> q")
    case True
    with m show ?thesis by (simp add: period_of_def from_secs_f64_def div NANOS_def)
  next
    case False
    have "(2 :: real) ^ nat (- q) * 2 powi q = 1"
      using False by (simp add: power_int_def power_mult_distrib [symmetric])
    then have "of_int (m * int NANOS) / (of_int (2 ^ nat (- q)) :: real) = of_int m * 2 powi q * of_int (int NANOS)"
      by (simp add: field_simps)
    also have "\<dots> \<ge> 1" using pos by (simp add: NANOS_def)
    finally have "1 \<le> rne (m * int NANOS) (2 ^ nat (- q))"
      by (intro rne_between(1) [where b = "\<lceil>of_int (m * int NANOS) / (of_int (2 ^ nat (- q)) :: real)\<rceil>"])
        simp_all
    with False show ?thesis by (simp add: period_of_def from_secs_f64_def div)
  qed
qed

lemma period_at_most:
  assumes "1 \<le> rate" and "rate \<le> 10000"
  shows "period_of rate \<le> NANOS"
proof -
  note one = lit_exact [of 1]
  have rate: "between (f64_of_int (int rate)) (of_nat rate) (of_nat rate)"
    by (rule of_int_between) (use assms dyadic_numeral(1) [of "int rate"] in simp_all)
  then have "between (f64_div (f64_lit 1 1) (f64_of_int (int rate))) 0 1"
    by (intro div_between) (use one assms in \<open>simp_all add: between_def\<close>)
  then obtain s m q where v: "view64 (f64_div (f64_lit 1 1) (f64_of_int (int rate))) = FNum s m q" "0 \<le> m"
    and val: "f64_val (f64_div (f64_lit 1 1) (f64_of_int (int rate))) \<le> 1"
      "0 \<le> f64_val (f64_div (f64_lit 1 1) (f64_of_int (int rate)))"
    by (auto simp: between_def elim: finite_view)
  have pos: "\<not> (2 :: real) powi q \<le> 0" by (simp add: not_le)
  from val v(2) have x: "of_int m * (2 powi q :: real) \<le> 1"
    by (cases "s \<and> m \<noteq> 0") (auto simp: val_FNum [OF v(1)] zero_le_mult_iff mult_le_0_iff pos)
  show ?thesis
  proof (cases "0 \<le> q")
    case True
    have "of_int (m * 2 ^ nat q) = of_int m * (2 powi q :: real)" using True by (simp add: power_int_def)
    with x have "of_int (m * 2 ^ nat q) \<le> (of_int 1 :: real)" by (simp only: of_int_1)
    then have "m * 2 ^ nat q * int NANOS \<le> 1 * int NANOS" unfolding of_int_le_iff by (intro mult_right_mono) simp_all
    with True show ?thesis by (simp add: period_of_def from_secs_f64_def v(1) NANOS_def)
  next
    case False
    have "(2 :: real) ^ nat (- q) * 2 powi q = 1"
      using False by (simp add: power_int_def power_mult_distrib [symmetric])
    then have "of_int (m * int NANOS) / (of_int (2 ^ nat (- q)) :: real) = of_int m * 2 powi q * of_int (int NANOS)"
      by (simp add: field_simps)
    also have "\<dots> \<le> 1 * of_int (int NANOS)" by (rule mult_right_mono [OF x]) simp
    finally have "rne (m * int NANOS) (2 ^ nat (- q)) \<le> int NANOS"
      by (intro rne_between(2) [where a = "\<lfloor>of_int (m * int NANOS) / (of_int (2 ^ nat (- q)) :: real)\<rfloor>"])
        simp_all
    with False show ?thesis by (simp add: period_of_def from_secs_f64_def v(1) nat_le_iff)
  qed
qed

lemma as_secs_between:
  assumes "t \<le> NANOS"
  shows "between (as_secs_f64 t) 0 2"
proof -
  note nanos = lit_exact [of "10 ^ 9"]
  have q: "t div NANOS \<le> 1" using div_le_mono [OF assms, of NANOS] by (simp add: NANOS_def)
  have r: "t mod NANOS < 10 ^ 9" by (simp add: NANOS_def)
  have whole: "between (f64_of_int (int (t div NANOS))) 0 1"
    by (rule of_int_between) (use q in simp_all)
  have rest: "between (f64_of_int (int (t mod NANOS))) 0 (10 ^ 9)"
    by (rule of_int_between) (use r in \<open>simp_all add: less_imp_le\<close>)
  have "between (f64_div (f64_of_int (int (t mod NANOS))) (f64_lit (10 ^ 9) 1)) 0 1"
    by (rule div_between) (use rest nanos in \<open>simp_all add: between_def\<close>)
  with whole show ?thesis
    unfolding as_secs_f64_def by (intro add_between) (simp_all add: between_def)
qed

section \<open>The vehicle of a run\<close>

text \<open>
  The phase of the drive cycle decides the gear: \<open>D\<close> from the third to the 52nd second of each minute
  of the drive scenario. The time of the vehicle is the sum of the periods.
\<close>

definition follows_cycle :: "scenario \<Rightarrow> f64 \<Rightarrow> nat \<Rightarrow> vehicle \<Rightarrow> bool" where
  "follows_cycle s dt k v \<longleftrightarrow>
     t_s v = ((\<lambda>t. f64_add t dt) ^^ k) (f64_lit 0 1)
     \<and> (veh_gear v = GearD \<longleftrightarrow>
          s \<noteq> SPark \<and> f64_le (f64_lit 3 1) (f64_rem (t_s v) (f64_lit 60 1))
          \<and> f64_lt (f64_rem (t_s v) (f64_lit 60 1)) (f64_lit 52 1))"

lemma step_parts_keep:
  "t_s (fst (step_drive sin64 v r)) = t_s v" "t_s (fst (step_temps sin64 dt v r)) = t_s v"
  "t_s (fst (step_door dt v r)) = t_s v"
  "veh_behaviour (fst (step_drive sin64 v r)) = veh_behaviour v"
  "veh_behaviour (fst (step_temps sin64 dt v r)) = veh_behaviour v"
  "veh_behaviour (fst (step_door dt v r)) = veh_behaviour v"
  "veh_gear (fst (step_drive sin64 v r)) = gear_at (f64_rem (t_s v) DRIVE_CYCLE_S)"
  "veh_gear (fst (step_temps sin64 dt v r)) = veh_gear v" "veh_gear (fst (step_door dt v r)) = veh_gear v"
  by (simp_all add: step_drive_def step_temps_def step_door_def Let_def split_beta split: bool.split)

lemma vehicle_step_parts:
  "vehicle_step sin64 dt (v, r) =
     (let s2 = (case veh_behaviour v of
          Drive \<Rightarrow> step_drive sin64 (v\<lparr>t_s := f64_add (t_s v) dt\<rparr>) r
        | Park \<Rightarrow> (v\<lparr>t_s := f64_add (t_s v) dt, veh_gear := GearP, speed_kmh := f64_lit 0 1\<rparr>, r));
        s3 = step_temps sin64 dt (fst s2) (snd s2)
      in step_door dt (fst s3) (snd s3))"
  by (cases "veh_behaviour v") (simp_all add: vehicle_step_def Let_def split_beta)

lemma step_time_and_gear:
  "t_s (fst (vehicle_step sin64 dt (v, r))) = f64_add (t_s v) dt"
  "veh_behaviour (fst (vehicle_step sin64 dt (v, r))) = veh_behaviour v"
  "veh_gear (fst (vehicle_step sin64 dt (v, r)))
    = (if veh_behaviour v = Park then GearP else gear_at (f64_rem (f64_add (t_s v) dt) DRIVE_CYCLE_S))"
  unfolding vehicle_step_parts Let_def by (cases "veh_behaviour v"; simp only: step_parts_keep vehicle_behaviour.case; simp)+

lemma vehicle_after_behaviour:
  "veh_behaviour (fst (vehicle_after w s period seed k)) = behaviour_of s
    \<and> t_s (fst (vehicle_after w s period seed k)) = ((\<lambda>t. f64_add t (as_secs_f64 period)) ^^ k) (f64_lit 0 1)"
proof (induction k)
  case 0
  then show ?case by (simp add: vehicle_after_def vehicle_new_def)
next
  case (Suc k)
  then show ?case
    by (cases "vehicle_after w s period seed k") (simp add: vehicle_after_Suc step_time_and_gear)
qed

lemma round_vehicle_cycle: "follows_cycle s (as_secs_f64 period) (Suc i) (round_vehicle w s period seed i)"
proof -
  obtain v r where v: "vehicle_after w s period seed i = (v, r)" by fastforce
  have "veh_behaviour v = behaviour_of s" "t_s v = ((\<lambda>t. f64_add t (as_secs_f64 period)) ^^ i) (f64_lit 0 1)"
    using vehicle_after_behaviour [of w s period seed i] by (simp_all add: v)
  then show ?thesis
    by (simp add: follows_cycle_def vehicle_after_Suc v step_time_and_gear gear_at_def DRIVE_CYCLE_S_def
        behaviour_of_def split: scenario.split)
qed

lemma vehicle_after_numbers:
  assumes "sine_ok (w_sin w)" and "period \<le> NANOS"
  shows "numbers_ok (fst (vehicle_after w s period seed k))"
proof (induction k)
  case 0
  then show ?case by (simp add: vehicle_after_def numbers_ok_new)
next
  case (Suc k)
  then show ?case
    using numbers_ok_step [OF assms(1) as_secs_between [OF assms(2)]]
    by (cases "vehicle_after w s period seed k") (simp add: vehicle_after_Suc)
qed

lemma round_vehicle_ok: "vehicle_ok (round_vehicle w s period seed i)"
  using vehicle_ok_step by (cases "vehicle_after w s period seed i") (simp add: vehicle_after_Suc)

section \<open>The vehicle in the packets\<close>

lemma collect_frames_signals:
  assumes "collect_frames v ts ss = Ok fs"
  shows "map rf_signal_id fs = map sig_id (filter (\<lambda>s. vehicle_value v (sig_name s) \<noteq> None) ss)"
    and "f \<in> set fs \<Longrightarrow> \<exists>s\<in>set ss. \<exists>x. vehicle_value v (sig_name s) = Some x \<and> encode_frame s ts x = Ok f"
  using assms
proof (induction ss arbitrary: fs)
  case Nil
  { case 1 then show ?case by simp }
  { case 2 then show ?case by simp }
next
  case (Cons s ss)
  { case 1
    then show ?case using Cons.IH(1)
      by (auto simp: and_then_Ok_iff encode_frame_def split: option.splits) }
  { case 2
    then show ?case using Cons.IH(2)
      by (auto simp: and_then_Ok_iff split: option.splits) blast+ }
qed

text \<open>A frame of the simulator as the daemon reads it.\<close>

lemma vehicle_frame_read:
  assumes "catalog_wf c" and "s \<in> set (cat_signals c)" and "encode_frame s ts x = Ok f"
  shows "by_id c (rf_signal_id f) = Some s" and "rf_timestamp_us f = ts"
    and "decode_value s (rf_payload f) = Err k \<Longrightarrow> k = InvalidValue"
    and "(sig_kind s = KEnum \<Longrightarrow> codes_distinct (sig_def s)) \<Longrightarrow> moderate s x \<Longrightarrow>
      \<exists>y. decode_value s (rf_payload f) = Ok y \<and> value_near s x y"
proof -
  from assms(3) obtain p where p: "encode_value s x = Ok p"
    and f: "f = \<lparr>rf_signal_id = sig_id s, rf_timestamp_us = ts, rf_payload = p\<rparr>"
    by (auto simp: encode_frame_def and_then_Ok_iff)
  show "by_id c (rf_signal_id f) = Some s" "rf_timestamp_us f = ts"
    using assms(1,2) by (simp_all add: f cat.find_id_total)
  have "length p = type_size (sig_ty s)"
    using p by (auto simp: encode_value_def and_then_Ok_iff dest: write_raw_length)
  then show "decode_value s (rf_payload f) = Err k \<Longrightarrow> k = InvalidValue"
    using decode_value_errors [of s p k] decode_value_error_length [of s p] by (auto simp: f)
  assume "sig_kind s = KEnum \<Longrightarrow> codes_distinct (sig_def s)" and "moderate s x"
  from sent_value_near [OF catalog_wf_signals(2) [OF assms(1,2)] this(1) p this(2)]
  show "\<exists>y. decode_value s (rf_payload f) = Ok y \<and> value_near s x y" by (simp add: f)
qed

text \<open>What the dashboard shows under each name.\<close>

definition dashboard :: "vehicle \<Rightarrow> (string \<times> signal_value) list" where
  "dashboard v =
     [(''vehicle_speed'', VNum (speed_kmh v)), (''battery_soc'', VNum (soc_pct v)),
      (''motor_temp'', VNum (motor_temp_c v)), (''cabin_temp'', VNum (cabin_temp_c v)),
      (''gear'', VEnum (if veh_gear v = GearD then ''D'' else ''P'')), (''door_open'', VBool (door_open v))]"

lemma vehicle_value_dashboard: "vehicle_value v name = map_of (dashboard v) name"
  by (cases "veh_gear v") (simp_all add: vehicle_value_def dashboard_def)

lemma known_signals: "vehicle_value v name \<noteq> None \<longleftrightarrow> name \<in> set KNOWN_SIGNALS"
  by (auto simp: vehicle_value_def KNOWN_SIGNALS_def)

text \<open>
  A value received for a signal, and a value the vehicle has: the same, for a finite number up to the
  error of its signal.
\<close>

definition value_shows :: "catalog \<Rightarrow> vehicle \<Rightarrow> string \<Rightarrow> signal_value \<Rightarrow> bool" where
  "value_shows c v name y \<longleftrightarrow>
     (case (by_name c name, map_of (dashboard v) name) of
        (Some s, Some x) \<Rightarrow> value_near s x y \<and> (case x of VNum z \<Rightarrow> is_finite z | _ \<Rightarrow> True)
      | _ \<Rightarrow> False)"

definition sample_shows :: "catalog \<Rightarrow> vehicle \<Rightarrow> u64 \<Rightarrow> sample \<Rightarrow> bool" where
  "sample_shows c v ts smp \<longleftrightarrow> smp_timestamp_us smp = ts \<and> value_shows c v (smp_name smp) (smp_value smp)"

text \<open>Scales and offsets that leave the conversions far from overflow.\<close>

definition scales_ok :: "catalog \<Rightarrow> bool" where
  "scales_ok c \<longleftrightarrow> list_all (\<lambda>s. \<bar>sig_offset_val s\<bar> + \<bar>sig_scale_val s\<bar> \<le> 2 ^ 899) (cat_signals c)"

lemma numbers_moderate:
  assumes "scales_ok c" and "s \<in> set (cat_signals c)" and "numbers_ok v" and "vehicle_value v name = Some x"
  shows "moderate s x"
proof -
  have "\<bar>f64_val z\<bar> \<le> 128" if "x = VNum z" for z
    using assms(3,4) that
    by (auto simp: vehicle_value_def numbers_ok_def nan_or_def between_def f64_is_nan_def f64_val_def fval_def
        split: if_splits)
  moreover have "\<bar>sig_offset_val s\<bar> + \<bar>sig_scale_val s\<bar> \<le> 2 ^ 899"
    using assms(1,2) by (simp add: scales_ok_def list_all_iff)
  moreover have "(128 :: real) + 2 ^ 899 \<le> 2 ^ 900" by simp
  ultimately have "magnitude s (f64_val z) \<le> 2 ^ 900" if "x = VNum z" for z
    using that unfolding magnitude_def by fastforce
  then show ?thesis by (simp add: moderate_def split: signal_value.split)
qed

lemma encoded_finite: "encode_value s (VNum x) = Ok p \<Longrightarrow> signal_new (sig_def s) = Ok s \<Longrightarrow> is_finite x"
proof -
  assume enc: "encode_value s (VNum x) = Ok p" and new: "signal_new (sig_def s) = Ok s"
  from enc have "is_finite (f64_div (f64_sub x (sd_offset (sig_def s))) (sd_scale (sig_def s)))"
    by (auto simp: encode_value_def encode_raw_def and_then_Ok_iff Let_def split: value_kind.splits if_splits)
  from div_finite_args [OF this scale_nonzero(1) [OF new]] show "is_finite x"
    unfolding f64_sub_def by (rule add_finite_args) (simp add: val_neg scale_nonzero(2) [OF new])
qed

definition enums_distinct :: "catalog \<Rightarrow> bool" where
  "enums_distinct c \<longleftrightarrow> list_all (\<lambda>s. sig_kind s = KEnum \<longrightarrow> codes_distinct (sig_def s)) (cat_signals c)"

definition simulated :: "catalog \<Rightarrow> signal list" where
  "simulated c = filter (\<lambda>s. sig_name s \<in> set KNOWN_SIGNALS) (cat_signals c)"

text \<open>A packet of the vehicle decodes to one sample for each simulated signal, in the order of the catalog.\<close>

lemma vehicle_frame_sample:
  assumes "catalog_wf c" and "enums_distinct c" and "scales_ok c" and "numbers_ok v"
    and "s \<in> set (cat_signals c)" and "vehicle_value v (sig_name s) = Some x" and "encode_frame s ts x = Ok f"
  shows "\<exists>smp. frame_sample c f = Some smp \<and> smp_name smp = sig_name s \<and> sample_shows c v ts smp"
    and "\<not> frame_unknown c f" and "frame_failure c (i, f) = None"
proof -
  have "sig_kind s = KEnum \<Longrightarrow> codes_distinct (sig_def s)"
    using assms(2,5) by (simp add: enums_distinct_def list_all_iff)
  from vehicle_frame_read [OF assms(1,5,7)] vehicle_frame_read(4) [OF assms(1,5,7) this numbers_moderate [OF assms(3,5,4,6)]]
  obtain y where read: "by_id c (rf_signal_id f) = Some s" "rf_timestamp_us f = ts"
    "decode_value s (rf_payload f) = Ok y" "value_near s x y"
    by blast
  have "case x of VNum z \<Rightarrow> is_finite z | _ \<Rightarrow> True"
    using encoded_finite [OF _ catalog_wf_signals(2) [OF assms(1,5)]] assms(7)
    by (auto simp: encode_frame_def and_then_Ok_iff split: signal_value.split)
  moreover have "by_name c (sig_name s) = Some s" using assms(1,5) by (simp add: cat.find_name_total)
  ultimately show "\<exists>smp. frame_sample c f = Some smp \<and> smp_name smp = sig_name s \<and> sample_shows c v ts smp"
    using read assms(6)
    by (simp add: frame_sample_def sample_shows_def value_shows_def vehicle_value_dashboard)
  show "\<not> frame_unknown c f" "frame_failure c (i, f) = None"
    using read by (simp_all add: frame_unknown_def frame_failure_def)
qed

lemma collected_samples:
  assumes "catalog_wf c" and "enums_distinct c" and "scales_ok c" and "numbers_ok v" and "set ss \<subseteq> set (cat_signals c)"
    and "collect_frames v ts ss = Ok fs"
  shows "map smp_name (List.map_filter (frame_sample c) fs)
      = map sig_name (filter (\<lambda>s. sig_name s \<in> set KNOWN_SIGNALS) ss)
    \<and> list_all (sample_shows c v ts) (List.map_filter (frame_sample c) fs)
    \<and> list_all (\<lambda>f. \<not> frame_unknown c f \<and> (\<forall>i. frame_failure c (i, f) = None)) fs"
  using assms(5,6)
proof (induction ss arbitrary: fs)
  case Nil
  then show ?case by (simp add: map_filter_simps)
next
  case (Cons s ss)
  show ?case
  proof (cases "vehicle_value v (sig_name s)")
    case None
    with Cons show ?thesis using known_signals [of v "sig_name s"] by simp
  next
    case (Some x)
    with Cons.prems obtain f fs' where f: "encode_frame s ts x = Ok f" and fs': "collect_frames v ts ss = Ok fs'"
      and fs: "fs = f # fs'"
      by (auto simp: and_then_Ok_iff)
    note one = vehicle_frame_sample [OF assms(1-4) _ Some f]
    have "sig_name s \<in> set KNOWN_SIGNALS" using Some known_signals [of v "sig_name s"] by simp
    then show ?thesis
      using Cons.IH [OF _ fs'] Cons.prems(1) one by (auto simp: fs map_filter_simps)
  qed
qed

lemma vehicle_frames_outcome:
  assumes "catalog_wf c" and "enums_distinct c" and "scales_ok c" and "numbers_ok v" and "vehicle_frames v c ts = Ok fs"
  shows "dp_unknown (frames_outcome c fs) = 0" and "dp_errors (frames_outcome c fs) = []"
    and "map smp_name (dp_samples (frames_outcome c fs)) = map sig_name (simulated c)"
    and "list_all (sample_shows c v ts) (dp_samples (frames_outcome c fs))"
proof -
  note all = collected_samples [OF assms(1-4) subset_refl assms(5) [unfolded vehicle_frames_def]]
  then have known: "\<not> frame_unknown c f" and fine: "frame_failure c (i, f) = None" if "f \<in> set fs" for f i
    using that by (simp_all add: list_all_iff)
  show "dp_unknown (frames_outcome c fs) = 0" using known by (simp add: frames_outcome_def filter_empty_conv)
  have "List.map_filter (frame_failure c) xs = []" if "snd ` set xs \<subseteq> set fs" for xs
    using that by (induction xs) (auto simp: map_filter_simps fine)
  moreover have "snd ` set (enumerate 0 fs) \<subseteq> set fs" by (auto simp: in_set_enumerate_eq)
  ultimately show "dp_errors (frames_outcome c fs) = []" by (simp add: frames_outcome_def)
  show "map smp_name (dp_samples (frames_outcome c fs)) = map sig_name (simulated c)"
    "list_all (sample_shows c v ts) (dp_samples (frames_outcome c fs))"
    using all by (simp_all add: frames_outcome_def simulated_def)
qed

end
