(* ===== verification/Simulator_Properties.thy ===== *)
theory Simulator_Properties
  imports Simulator_Props Examples
begin

text \<open>
  The properties of the simulator: the malformed packets take the paths they are meant to take, a run
  with a duration ends, keeps its rate and accounts for its packets, and its packets show the vehicle.
\<close>

section \<open>A world\<close>

text \<open>
  A catalog with the charge, the gear and the door, and a quiet world: the socket takes every packet, a
  round takes a millisecond, and a sleep lasts as long as asked for.
\<close>

definition body_spec :: catalog_spec where
  "body_spec = r1s_spec\<lparr>cs_signals := cs_signals r1s_spec ! 1 # drop 3 (cs_signals r1s_spec)\<rparr>"

definition body :: catalog where
  "body = get_ok (catalog_new body_spec)"

lemma body_new: "catalog_new body_spec = Ok body"
proof -
  have "valid_spec body_spec" by code_simp
  then have "\<exists>c. catalog_new body_spec = Ok c" by (simp add: catalog_new_Ok_iff)
  then show ?thesis by (auto simp: body_def)
qed

lemma body_wf: "catalog_wf body"
  using body_new by (rule catalog_wf_new)

lemma body_names: "sig_name sig_soc = ''battery_soc''" "sig_name sig_gear = ''gear''" "sig_name sig_door = ''door_open''"
  by code_simp+

lemma body_signals: "cat_signals body = [sig_soc, sig_gear, sig_door]"
  by code_simp

definition quiet_world :: world where
  "quiet_world =
     \<lparr>w_read = (\<lambda>_. Ok ''body''), w_parse = (\<lambda>_. Ok (spec_json body_spec)), w_bind = Ok (), w_send = (\<lambda>n p. Ok (length p)),
      w_sin = (\<lambda>x. f64_lit 0 1), w_now_us = of_nat, w_seed_us = 7, w_work = (\<lambda>n. 10 ^ 6),
      w_report = (\<lambda>n. 0), w_tail = (\<lambda>n. 0), w_lag = (\<lambda>n. 0)\<rparr>"

definition quiet_args :: args where
  "quiet_args =
     \<lparr>arg_catalog = ''catalogs/body.json'', rate_hz = 50, arg_mode = Udp, arg_scenario = SDrive,
      duration_s = Some (f64_lit 1 1), arg_seed = Some 42\<rparr>"

text \<open>The charge of a vehicle fits its byte.\<close>

lemma soc_encodes:
  assumes "numbers_ok v"
  shows "\<exists>p. encode_value sig_soc (VNum (soc_pct v)) = Ok p"
proof -
  have sig: "sig_kind sig_soc = KNum" "sig_ty sig_soc = TU8" "sd_offset (sig_def sig_soc) = f64_lit 0 1"
    "sd_scale (sig_def sig_soc) = f64_lit 1 2"
    by code_simp+
  have half: "is_finite (f64_lit 1 2)" "f64_val (f64_lit 1 2) = 1 / 2"
    using lit_between [of 2 "1 / 2" 1 "1 / 2"] by (simp_all add: between_def dyadic_def)
  let ?d = "f64_sub (soc_pct v) (f64_lit 0 1)" and ?x = "f64_div (f64_sub (soc_pct v) (f64_lit 0 1)) (f64_lit 1 2)"
  have "between ?d 5 80"
    using assms lit_exact [of 0] by (intro sub_between) (simp_all add: numbers_ok_def between_def)
  then have x: "between ?x 10 160"
    by (intro div_between) (simp_all add: half between_def)
  then obtain i where i: "f64_to_i128 (f64_round ?x) = max i128_min (min i128_max i)" "\<bar>of_int i - f64_val ?x\<bar> \<le> 1 / 2"
    using round_near [of ?x] by (auto simp: between_def)
  then have "(of_int i :: real) < of_int 161" "of_int 9 < (of_int i :: real)"
    using x unfolding between_def by (simp_all only: of_int_numeral) linarith+
  then have range: "9 < i" "i < 161" by (simp_all only: of_int_less_iff)
  then have "f64_to_i128 (f64_round ?x) = i" using i(1) by (simp add: i128_min_def i128_max_def)
  with range x show ?thesis
    by (simp add: encode_value_def encode_raw_def sig is_float_def Let_def between_def unsigned_bytes_def del: One_nat_def)
qed

lemma body_encodes:
  assumes "numbers_ok v"
  shows "\<exists>fs p. vehicle_frames v body ts = Ok fs \<and> encode_packet fs = Ok p"
proof -
  have vals: "vehicle_value v (sig_name sig_soc) = Some (VNum (soc_pct v))"
    "vehicle_value v (sig_name sig_gear) = Some (VEnum (gear_label (veh_gear v)))"
    "vehicle_value v (sig_name sig_door) = Some (VBool (door_open v))"
    by (simp_all add: body_names vehicle_value_def del: One_nat_def)
  have "is_ok (encode_value sig_gear (VEnum ''P''))" "is_ok (encode_value sig_gear (VEnum ''D''))"
    "is_ok (encode_value sig_door (VBool True))" "is_ok (encode_value sig_door (VBool False))"
    by code_simp+
  then obtain p q where p: "encode_value sig_gear (VEnum (gear_label (veh_gear v))) = Ok p"
    and q: "encode_value sig_door (VBool (door_open v)) = Ok q"
    by (cases "veh_gear v"; cases "door_open v") (auto simp: is_ok_iff)
  obtain o' where o: "encode_value sig_soc (VNum (soc_pct v)) = Ok o'" using soc_encodes [OF assms] by blast
  have "sig_ty sig_soc = TU8" "sig_ty sig_gear = TU8" "sig_ty sig_door = TBool" by code_simp+
  then have len: "length o' = 1" "length p = 1" "length q = 1"
    using o p q write_raw_length [of "sig_ty sig_soc"] write_raw_length [of "sig_ty sig_gear"]
      write_raw_length [of "sig_ty sig_door"]
    by (auto simp: encode_value_def and_then_Ok_iff)
  show ?thesis
    by (simp add: vehicle_frames_def body_signals vals encode_frame_def o p q encode_packet_Ok_iff packet_size_def
        frame_fits_def len MAX_FRAMES_def MAX_DATAGRAM_LEN_def PACKET_HEADER_LEN_def FRAME_HEADER_LEN_def
        del: One_nat_def)
qed

definition quiet_run :: "((encode_error, unit) result \<times> sim) option" where
  "quiet_run = sim_loop quiet_world SDrive body (Some (f64_lit 1 1)) (period_of 50) 0 (sim_new SDrive 42)"

lemma quiet_sine: "sine_ok (w_sin quiet_world)"
  using lit_exact [of 0] by (simp add: sine_ok_def quiet_world_def nan_or_def between_def)

lemma body_scales: "scales_ok body"
proof -
  have "sd_offset (sig_def s) = f64_lit 0 1" "sd_scale (sig_def s) \<in> {f64_lit 1 2, f64_lit 1 1}"
    if "s \<in> set (cat_signals body)" for s
  proof -
    have "sd_offset (sig_def sig_soc) = f64_lit 0 1" "sd_scale (sig_def sig_soc) = f64_lit 1 2"
      "sd_offset (sig_def sig_gear) = f64_lit 0 1" "sd_scale (sig_def sig_gear) = f64_lit 1 1"
      "sd_offset (sig_def sig_door) = f64_lit 0 1" "sd_scale (sig_def sig_door) = f64_lit 1 1"
      by code_simp+
    then show "sd_offset (sig_def s) = f64_lit 0 1" "sd_scale (sig_def s) \<in> {f64_lit 1 2, f64_lit 1 1}"
      using that by (auto simp: body_signals simp del: One_nat_def)
  qed
  moreover have vals: "f64_val (f64_lit 0 1) = 0" "f64_val (f64_lit 1 1) = 1" "f64_val (f64_lit 1 2) \<in> {0..1}"
    using lit_exact [of 0] lit_exact [of 1] lit_between [of 2 0 1 1] by (simp_all add: between_def)
  ultimately have "\<bar>sig_offset_val s\<bar> + \<bar>sig_scale_val s\<bar> \<le> 1" if "s \<in> set (cat_signals body)" for s
    using that by (fastforce simp: sig_offset_val_def sig_scale_val_def)
  moreover have "1 \<le> (2 :: real) ^ 899" by (rule one_le_power) simp
  ultimately show ?thesis unfolding scales_ok_def list_all_iff by (meson order_trans)
qed

lemma body_distinct: "enums_distinct body"
  by code_simp

text \<open>The first round sends a packet.\<close>

lemma quiet_sends: "\<exists>res st. quiet_run = Some (res, st) \<and> sim_sent st \<noteq> []"
proof -
  let ?st = "sim_new SDrive 42"
  obtain res st1 where r: "sim_round quiet_world SDrive body (period_of 50) 0 ?st = (res, st1)" by fastforce
  obtain v rn where step: "vehicle_step (w_sin quiet_world) (as_secs_f64 (period_of 50)) (sim_vehicle ?st, sim_rng ?st)
      = (v, rn)" by fastforce
  have "vehicle_after quiet_world SDrive (period_of 50) 42 1 = (v, rn)"
    using step by (simp add: vehicle_after_def sim_new_def)
  then have "numbers_ok v"
    using vehicle_after_numbers [OF quiet_sine period_at_most, of 50 SDrive 42 1] by simp
  then obtain fs p where "vehicle_frames v body (w_now_us quiet_world 0) = Ok fs" "encode_packet fs = Ok p"
    using body_encodes by blast
  with r step have "res = Ok ()"
    by (simp add: sim_round_def sim_packet_def Let_def)
  moreover have "\<not> time_is_up (Some (f64_lit 1 1)) (sim_clock ?st)"
  proof -
    have "\<not> f64_le (f64_lit 1 1) (f64_add (f64_of_int 0) (f64_div (f64_of_int 0) (f64_lit (10 ^ 9) 1)))"
      by code_simp
    then show ?thesis by (simp add: sim_new_def time_is_up_def as_secs_f64_def)
  qed
  ultimately have run: "quiet_run = sim_loop quiet_world SDrive body (Some (f64_lit 1 1)) (period_of 50) 1 st1"
    and inv: "sim_inv quiet_world SDrive body (period_of 50) 42 1 st1" "on_track quiet_world SDrive (period_of 50) 42 1 st1"
    using sim_round_inv [OF sim_inv_new r] r by (simp_all add: quiet_run_def sim_loop.simps)
  have "view64 (f64_lit 1 1) = FNum False (2 ^ 52) (- 52)" by (rule lit_ranges)
  from time_limit [OF this] obtain T where T: "\<And>t. T \<le> t \<Longrightarrow> time_is_up (Some (f64_lit 1 1)) t" by blast
  have "\<exists>out. quiet_run = Some out"
    unfolding run by (rule sim_loop_returns [OF period_positive T inv]) simp_all
  then obtain res st where out: "quiet_run = Some (res, st)" by fastforce
  from sim_loop_inv [OF out [unfolded run] inv] have "sim_sent st \<noteq> []" by (auto simp: sim_inv_def)
  with out show ?thesis by blast
qed

section \<open>Properties\<close>

text \<open>C29: A run of the simulator with a duration that is a number returns, whatever the socket answers
  and however long the work of each round takes: every round moves the clock by a period, and the
  period of an accepted rate is positive.\<close>

theorem simulator_stops:
  assumes "1 \<le> rate_hz a" and "rate_hz a \<le> 10000"
    and "duration_s a = Some d" and "is_finite d"
  shows "\<exists>out. sim_main w a = Some out"
proof (cases "sim_start w a")
  case (Err e)
  then show ?thesis by (simp add: sim_main_def)
next
  case (Ok x)
  obtain s m e where "view64 d = FNum s m e"
    using assms(4) by (auto simp: is_finite_def split: fview.splits)
  from time_limit [OF this] obtain T where T: "\<And>t. T \<le> t \<Longrightarrow> time_is_up (Some d) t" by blast
  have "\<exists>out. sim_loop w (arg_scenario a) c (Some d) (period_of (rate_hz a)) 0 (sim_new (arg_scenario a) seed)
      = Some out" for c seed
    by (rule sim_loop_returns [OF period_positive [OF assms(1,2)] T sim_inv_new])
  with Ok assms(3) show ?thesis
    by (auto simp: sim_main_def split: prod.splits)
qed

theorem simulator_stops_witness: "\<exists>out. sim_main quiet_world quiet_args = Some out"
proof (rule simulator_stops)
  show "duration_s quiet_args = Some (f64_lit 1 1)" "1 \<le> rate_hz quiet_args" "rate_hz quiet_args \<le> 10000"
    by (simp_all add: quiet_args_def)
  show "is_finite (f64_lit 1 1)" by code_simp
qed

text \<open>C30: The simulator never sends faster than its rate, also after it fell behind: when it has handed
  \<open>n\<close> packets to the socket, at least \<open>n\<close> periods have passed, and between the rounds of packets \<open>i\<close> and
  \<open>j\<close> lie \<open>j - i\<close> periods, up to how late the loop woke up for packet \<open>i\<close>. Every packet is counted
  once: as sent when the socket took it, as failed otherwise. A run that ends without an error ends
  because its time is up.\<close>

theorem simulator_keeps_its_rate:
  assumes "sim_loop w s c d period 0 (sim_new s seed) = Some (res, st)"
  shows "length (sim_sent st) * period \<le> sim_clock st
    \<and> (\<forall>j<length (sim_sent st). \<forall>i<j.
         fst (sim_sent st ! i) + (j - i) * period \<le> fst (sim_sent st ! j) + late w i)
    \<and> packets st = of_nat (taken w st)
    \<and> packets st + send_errors st = of_nat (length (sim_sent st))
    \<and> (res = Ok () \<longrightarrow> time_is_up d (sim_clock st))"
  using sim_loop_inv [OF assms sim_inv_new] by (auto simp: sim_inv_def paced_def spaced_def)

theorem simulator_keeps_its_rate_witness:
  "\<exists>res st. quiet_run = Some (res, st) \<and> length (sim_sent st) * period_of 50 \<le> sim_clock st
    \<and> packets st = of_nat (taken quiet_world st)
    \<and> packets st + send_errors st = of_nat (length (sim_sent st))"
proof -
  obtain res st where run: "quiet_run = Some (res, st)" using quiet_sends by blast
  from simulator_keeps_its_rate [OF run [unfolded quiet_run_def]] run show ?thesis by blast
qed

text \<open>What packet \<open>i\<close> of a run decodes to.\<close>

lemma sent_packet_shows:
  assumes "catalog_wf c" and "enums_distinct c" and "scales_ok c" and "sine_ok (w_sin w)"
    and "1 \<le> rate" and "rate \<le> 10000" and "s \<noteq> SGarbage"
    and "sim_loop w s c d (period_of rate) 0 (sim_new s seed) = Some (res, st)" and "i < length (sim_sent st)"
  shows "\<exists>out. decode_packet (snd (sim_sent st ! i)) c = Ok out \<and> dp_unknown out = 0 \<and> dp_errors out = []
    \<and> map smp_name (dp_samples out) = map sig_name (simulated c)
    \<and> list_all (sample_shows c (round_vehicle w s (period_of rate) seed i) (w_now_us w i)) (dp_samples out)"
    and "numbers_ok (round_vehicle w s (period_of rate) seed i)"
proof -
  show numbers: "numbers_ok (round_vehicle w s (period_of rate) seed i)"
    by (rule vehicle_after_numbers [OF assms(4) period_at_most [OF assms(5,6)]])
  have "packet_of_round w s c (period_of rate) seed i (snd (sim_sent st ! i))"
    using sim_loop_inv [OF assms(8) sim_inv_new] assms(9) by (auto simp: sim_inv_def)
  with assms(7) obtain fs where fs: "vehicle_frames (round_vehicle w s (period_of rate) seed i) c (w_now_us w i) = Ok fs"
    and p: "encode_packet fs = Ok (snd (sim_sent st ! i))"
    by (auto simp: packet_of_round_def)
  from vehicle_frames_outcome [OF assms(1-3) numbers fs] decode_encoded [OF p, of c]
  show "\<exists>out. decode_packet (snd (sim_sent st ! i)) c = Ok out \<and> dp_unknown out = 0 \<and> dp_errors out = []
    \<and> map smp_name (dp_samples out) = map sig_name (simulated c)
    \<and> list_all (sample_shows c (round_vehicle w s (period_of rate) seed i) (w_now_us w i)) (dp_samples out)"
    by blast
qed

text \<open>C18: Packet \<open>i\<close> of a run of the drive or the park scenario decodes, under the catalog it was made
  with, to the state of the simulated vehicle after \<open>i + 1\<close> steps of the run: without an error or an
  unknown frame, one sample for each simulated signal of the catalog in its order, bool and enum
  signals exactly, numbers up to half a step of their scale and the rounding of the conversions, with the
  clock's reading of the round as their time. That state follows the drive cycle and its own time; its
  door is open only in park, it stands still in park, and its numbers stay in their ranges, so that
  none is near the limits of \<open>f64\<close>. The catalog has distinct enum codes and scales below \<open>2^899\<close>, and
  the platform's sine is a number within 2 or NaN.\<close>

theorem simulated_packets_show_the_vehicle:
  assumes "catalog_wf c" and "enums_distinct c" and "scales_ok c" and "sine_ok (w_sin w)"
    and "1 \<le> rate" and "rate \<le> 10000" and "s \<noteq> SGarbage"
    and "sim_loop w s c d (period_of rate) 0 (sim_new s seed) = Some (res, st)" and "i < length (sim_sent st)"
  shows "let v = round_vehicle w s (period_of rate) seed i in
    (\<exists>out. decode_packet (snd (sim_sent st ! i)) c = Ok out \<and> dp_unknown out = 0 \<and> dp_errors out = []
      \<and> map smp_name (dp_samples out) = map sig_name (simulated c)
      \<and> list_all (sample_shows c v (w_now_us w i)) (dp_samples out))
    \<and> vehicle_ok v \<and> numbers_ok v \<and> follows_cycle s (as_secs_f64 (period_of rate)) (Suc i) v"
  unfolding Let_def
  by (intro conjI sent_packet_shows [OF assms] round_vehicle_ok round_vehicle_cycle)

theorem simulated_packets_show_the_vehicle_witness:
  "\<exists>res st out. quiet_run = Some (res, st) \<and> decode_packet (snd (sim_sent st ! 0)) body = Ok out
    \<and> map smp_name (dp_samples out) = [''battery_soc'', ''gear'', ''door_open'']
    \<and> list_all (sample_shows body (round_vehicle quiet_world SDrive (period_of 50) 42 0) 0) (dp_samples out)"
proof -
  obtain res st where run: "quiet_run = Some (res, st)" and sent: "0 < length (sim_sent st)"
    using quiet_sends by auto
  have "map sig_name (simulated body) = [''battery_soc'', ''gear'', ''door_open'']"
    by (simp add: simulated_def body_signals body_names KNOWN_SIGNALS_def del: One_nat_def)
  moreover have "w_now_us quiet_world 0 = 0" by (simp add: quiet_world_def)
  moreover obtain out where "decode_packet (snd (sim_sent st ! 0)) body = Ok out"
    "map smp_name (dp_samples out) = map sig_name (simulated body)"
    "list_all (sample_shows body (round_vehicle quiet_world SDrive (period_of 50) 42 0) (w_now_us quiet_world 0))
       (dp_samples out)"
    using simulated_packets_show_the_vehicle
        [OF body_wf body_distinct body_scales quiet_sine _ _ _ run [unfolded quiet_run_def] sent]
    unfolding Let_def by auto
  ultimately show ?thesis using run by metis
qed

text \<open>C6: Every kind of malformed packet takes the path of the decoder it is made for, for all frames,
  catalogs and states of the generator: the packet errors of its header, the truncated last frame
  after the frames before it, the mismatched length of the first frame and the outcome of the others
  behind it, the unknown frame in front of the outcome of the valid ones whenever the catalog leaves an
  id from \<open>0xF000\<close> on unused, and the trailing bytes after all frames. Random bytes may meet any
  error but the one for a packet that is too long.\<close>

theorem garbage_takes_its_decoder_path:
  assumes "fst (malformed kind fs c r) = Ok buf"
  shows "decoder_path kind c fs (decode_packet buf c)"
  using assms by (rule malformed_takes_its_path)

theorem garbage_takes_its_decoder_path_witness:
  "\<exists>buf d. fst (malformed GUnknownSignal demo_frames r1s 1) = Ok buf \<and> decode_packet buf r1s = Ok d \<and> dp_unknown d = 2"
proof -
  have "length (fst (some_bytes 8 1)) \<le> 8" using length_some_bytes [of 8 1] by simp
  then have "\<exists>buf. fst (malformed GUnknownSignal demo_frames r1s 1) = Ok buf"
    by (simp add: malformed_def demo_encoded split_beta)
      (simp add: encode_packet_Ok_iff packet_size_def frame_fits_def
        demo_frames_def MAX_FRAMES_def MAX_DATAGRAM_LEN_def PACKET_HEADER_LEN_def FRAME_HEADER_LEN_def)
  then obtain buf where buf: "fst (malformed GUnknownSignal demo_frames r1s 1) = Ok buf" by blast
  have "by_id r1s 0xF000 = None" "dp_unknown (frames_outcome r1s demo_frames) = 1" by code_simp+
  moreover have "(0xF000 :: u16) \<le> 0xF000" by simp
  ultimately show ?thesis
    using garbage_takes_its_decoder_path [OF buf] buf by (auto simp: behind_one_def Let_def)
qed

end
