(* ===== verification/Document_Properties.thy ===== *)
theory Document_Properties
  imports Examples Documents
begin

text \<open>
  Documents that the program accepts and writes out again: the JSON form of a validated catalog and of
  a rule set that compiles holds everything the program read.
\<close>

section \<open>Accepted documents can be written\<close>

lemma catalog_from_json_Ok_iff:
  "catalog_from_json parse text = Ok c \<longleftrightarrow>
    (\<exists>j spec. parse text = Ok j \<and> spec_from_json j = Some spec \<and> catalog_new spec = Ok c)"
  by (auto simp: catalog_from_json_def from_str_def and_then_Ok_iff map_err_def ok_or_def
      split: result.splits option.splits)

lemma ruleset_from_json_Ok_iff:
  "ruleset_from_json parse text = Ok rs \<longleftrightarrow> (\<exists>j. parse text = Ok j \<and> rules_from_json j = Some rs)"
  by (auto simp: ruleset_from_json_def from_str_def and_then_Ok_iff map_err_def ok_or_def
      split: result.splits option.splits)

lemma loaded_writable:
  assumes "spec_from_json j = Some spec" and "catalog_new spec = Ok c"
  shows "spec_writable (to_spec c)"
proof -
  have "valid_spec spec" using assms(2) by (simp only: catalog_new_Ok_iff)
  then show ?thesis
    using spec_from_json_map [OF assms(1)]
    by (auto simp: to_spec_new [OF assms(2)] spec_writable_def def_writable_def valid_spec_def valid_def_def
        list_all_iff split: option.split)
qed

lemma rule_wf_writable: "rule_wf cel c cr \<Longrightarrow> rule_writable (cr_def cr)"
  by (cases "cr_behaviour cr") (auto simp: rule_wf_def rule_writable_def deadband_of_def split: option.splits)

lemma compiled_writable:
  assumes "compile_ruleset cel thread rs c vehicle active = Ok crs"
  shows "rules_writable rs"
proof -
  have "rs_rules rs = map cr_def (crs_rules crs)" "list_all (rule_wf cel c) (crs_rules crs)"
    using assms by (auto simp: ruleset_Ok_iff rules_wf_def)
  then show ?thesis by (auto simp: rules_writable_def list_all_iff intro: rule_wf_writable)
qed

lemma reread_valid:
  assumes "valid_spec spec"
    and "\<And>d. d \<in> set (cs_signals spec) \<Longrightarrow>
      is_finite (g (sd_scale d)) \<and> \<not> f64_eq (g (sd_scale d)) (f64_lit 0 1) \<and> is_finite (g (sd_offset d))"
  shows "valid_spec (reread_spec g spec)"
proof -
  have enum: "enum_ok (reread_def g d) = enum_ok d" for d
    by (cases "sd_enum_map d") (simp_all add: enum_ok_def reread_def_def)
  have "valid_def (reread_def g d)" if "d \<in> set (cs_signals spec)" for d
    using assms(1) assms(2) [OF that] that unfolding valid_spec_def list_all_iff valid_def_def enum
    by (simp add: reread_def_def)
  moreover have "map sd_id (map (reread_def g) ds) = map sd_id ds" "map sd_name (map (reread_def g) ds) = map sd_name ds" for ds
    by (simp_all add: reread_def_def)
  ultimately show ?thesis
    using assms(1) unfolding valid_spec_def reread_spec_def
    by (simp add: list_all_iff del: map_map)
qed

text \<open>C39: Accepted documents survive being written. When the JSON form of a validated catalog and of a rule set
  that compiles is printed and parsed again by a library that may read other numbers than it printed, the rule
  set is accepted with every field as it was but for the numbers of its deadbands, and the catalog is checked
  with every field as it was but for the numbers of its scales and offsets: it is accepted unless a
  scale came back as zero or a number as infinite. Where the library reads the numbers as they were
  printed, the catalog and the rule set are exactly those that were read: omitted options, defaults, byte
  orders, enum labels and numbers. (\<open>serde_json\<close> without \<open>float_roundtrip\<close> does not promise exact numbers.)\<close>

theorem accepted_documents_can_be_written:
  assumes "catalog_from_json parse text1 = Ok c" and "ruleset_from_json parse text2 = Ok rs"
    and "compile_ruleset cel thread rs c vehicle active = Ok crs"
    and "parse (print (spec_json (to_spec c))) = Ok (json_reread g (spec_json (to_spec c)))"
    and "parse (print (rules_json rs)) = Ok (json_reread g (rules_json rs))"
  shows "catalog_from_json parse (print (spec_json (to_spec c))) = catalog_new (reread_spec g (to_spec c))
    \<and> ((\<forall>d\<in>set (cs_signals (to_spec c)). is_finite (g (sd_scale d)) \<and> \<not> f64_eq (g (sd_scale d)) (f64_lit 0 1)
          \<and> is_finite (g (sd_offset d)))
       \<longrightarrow> (\<exists>c'. catalog_from_json parse (print (spec_json (to_spec c))) = Ok c' \<and> to_spec c' = reread_spec g (to_spec c)))
    \<and> ((\<forall>d\<in>set (cs_signals (to_spec c)). g (sd_scale d) = sd_scale d \<and> g (sd_offset d) = sd_offset d)
       \<longrightarrow> catalog_from_json parse (print (spec_json (to_spec c))) = Ok c)
    \<and> ruleset_from_json parse (print (rules_json rs)) = Ok (reread_rules g rs)
    \<and> ((\<forall>r\<in>set (rs_rules rs). map_option g (deadband r) = deadband r)
       \<longrightarrow> ruleset_from_json parse (print (rules_json rs)) = Ok rs)"
proof -
  obtain j spec where j: "spec_from_json j = Some spec" and new: "catalog_new spec = Ok c"
    using assms(1) by (auto simp: catalog_from_json_Ok_iff)
  have same: "to_spec c = spec" by (rule to_spec_new [OF new])
  have "spec_from_json (json_reread g (spec_json (to_spec c))) = Some (reread_spec g (to_spec c))"
    by (rule spec.de_reread [OF loaded_writable [OF j new]])
  with assms(4) have cat: "catalog_from_json parse (print (spec_json (to_spec c))) = catalog_new (reread_spec g (to_spec c))"
    by (simp add: catalog_from_json_def from_str_def map_err_def and_then_def)
  have "valid_spec (to_spec c)" unfolding same using new by (simp only: catalog_new_Ok_iff)
  then have "\<exists>c'. catalog_new (reread_spec g (to_spec c)) = Ok c' \<and> to_spec c' = reread_spec g (to_spec c)"
    if "\<forall>d\<in>set (cs_signals (to_spec c)). is_finite (g (sd_scale d)) \<and> \<not> f64_eq (g (sd_scale d)) (f64_lit 0 1)
      \<and> is_finite (g (sd_offset d))"
    using reread_valid [of "to_spec c" g] that catalog_new_Ok_iff to_spec_new by blast
  moreover have "catalog_new (reread_spec g (to_spec c)) = Ok c"
    if "\<forall>d\<in>set (cs_signals (to_spec c)). g (sd_scale d) = sd_scale d \<and> g (sd_offset d) = sd_offset d"
    using that new by (simp add: reread_spec_same same)
  moreover have "ruleset_from_json parse (print (rules_json rs)) = Ok (reread_rules g rs)"
    using assms(5) rules.de_reread [OF compiled_writable [OF assms(3)], of g] by (simp add: ruleset_from_json_Ok_iff)
  ultimately show ?thesis using cat by (auto simp: reread_rules_same)
qed

definition demo_parse :: "string \<Rightarrow> (string, json) result" where
  "demo_parse text = Ok (if text = ''r1s.json'' then spec_json r1s_spec else rules_json demo_ruleset)"

definition demo_print :: "json \<Rightarrow> string" where
  "demo_print j = (if j = spec_json r1s_spec then ''r1s.json'' else ''default.json'')"

theorem accepted_documents_can_be_written_witness:
  "catalog_from_json demo_parse (demo_print (spec_json (to_spec r1s))) = Ok r1s
    \<and> ruleset_from_json demo_parse (demo_print (rules_json demo_ruleset)) = Ok demo_ruleset"
proof -
  have "spec_from_json (spec_json r1s_spec) = Some r1s_spec"
    by (rule spec_de_ser) code_simp
  then have cat: "catalog_from_json demo_parse ''r1s.json'' = Ok r1s"
    by (simp add: catalog_from_json_Ok_iff demo_parse_def r1s_new)
  have "rules_from_json (rules_json demo_ruleset) = Some demo_ruleset"
    by (rule rules_de_ser) code_simp
  then have rules: "ruleset_from_json demo_parse ''default.json'' = Ok demo_ruleset"
    by (simp add: ruleset_from_json_Ok_iff demo_parse_def)
  have "rules_json demo_ruleset \<noteq> spec_json r1s_spec" by (simp add: rules_json_def spec_json_def)
  then have "demo_parse (demo_print (spec_json (to_spec r1s))) = Ok (json_reread (\<lambda>x. x) (spec_json (to_spec r1s)))"
    "demo_parse (demo_print (rules_json demo_ruleset)) = Ok (json_reread (\<lambda>x. x) (rules_json demo_ruleset))"
    by (simp_all add: demo_parse_def demo_print_def to_spec_new [OF r1s_new] json_reread_same)
  note all = accepted_documents_can_be_written [OF cat rules demo_compiled this]
  have "\<forall>r. map_option (\<lambda>x. x) (deadband r) = deadband r" by (simp add: option.map_ident)
  with all show ?thesis by blast
qed

end
