(* ===== verification/Logged_Values.thy ===== *)
theory Logged_Values
  imports Daemon_Properties
begin

text \<open>
  What holds of all samples holds of all records: a property of a signal's name, time stamp and value
  that every sample has is one that every logged record has, over runs of the engine and over the
  session of a daemon.
\<close>

section \<open>Runs of the engine\<close>

definition latest_all :: "(string \<Rightarrow> u64 \<Rightarrow> signal_value \<Rightarrow> bool) \<Rightarrow> 'p engine \<Rightarrow> bool" where
  "latest_all P e \<longleftrightarrow>
     (\<forall>k lat. hm_get (eng_latest e) k = Some lat \<longrightarrow> P k (lat_timestamp_us lat) (lat_value lat))"

definition sample_has :: "(string \<Rightarrow> u64 \<Rightarrow> signal_value \<Rightarrow> bool) \<Rightarrow> sample \<Rightarrow> bool" where
  "sample_has P s \<longleftrightarrow> P (smp_name s) (smp_timestamp_us s) (smp_value s)"

definition record_has :: "(string \<Rightarrow> u64 \<Rightarrow> signal_value \<Rightarrow> bool) \<Rightarrow> log_record \<Rightarrow> bool" where
  "record_has P l \<longleftrightarrow> P (lr_signal l) (lr_ts_us l) (lr_value l)"

fun event_has :: "(string \<Rightarrow> u64 \<Rightarrow> signal_value \<Rightarrow> bool) \<Rightarrow> 'p event \<Rightarrow> bool" where
  "event_has P (Sampled now smp) \<longleftrightarrow> sample_has P smp"
| "event_has P _ \<longleftrightarrow> True"

lemma latest_all_handle:
  assumes "engine_wf cel c e" and "latest_all P e" and "event_has P ev"
  shows "latest_all P (fst (engine_handle cel ev e))"
  using assms
  by (cases ev) (auto simp: latest_all_def sample_has_def on_sample_fst [OF assms(1)] observe_def)

interpretation valued: handler_system "engine_handle cel" "\<lambda>e. engine_wf cel c e \<and> latest_all P e"
  "\<lambda>ev. event_ok cel c ev \<and> event_has P ev" for cel c P
  by unfold_locales (auto intro: eng.inv_handle latest_all_handle)

lemma event_records_have:
  assumes "engine_wf cel c e" and "latest_all P e" and "event_has P ev"
    and "l \<in> set (records (snd (engine_handle cel ev e)))"
  shows "record_has P l"
proof -
  have all: "latest_all P (fst (engine_handle cel ev e))"
    using assms(1-3) by (rule latest_all_handle)
  have "genuine_record (fst (engine_handle cel ev e)) l"
    using assms(1,4) by (rule event_records_genuine)
  then obtain lat where "hm_get (eng_latest (fst (engine_handle cel ev e))) (lr_signal l) = Some lat"
    and "lr_ts_us l = lat_timestamp_us lat" and "lr_value l = lat_value lat"
    by (auto simp: genuine_record_def)
  with all show ?thesis by (simp add: latest_all_def record_has_def)
qed

lemma run_records_have:
  assumes "engine_wf cel c e" and "latest_all P e" and "list_all (\<lambda>ev. event_ok cel c ev \<and> event_has P ev) evs"
  shows "list_all (\<lambda>rep. list_all (record_has P) (records rep)) (snd (run (engine_handle cel) evs e))"
  by (rule valued.outputs_hold [OF _ _ assms(3)])
    (use assms(1,2) in \<open>auto simp: list_all_iff intro: event_records_have\<close>)

section \<open>Sessions\<close>

lemma rounds_have:
  "list_all (sample_has P) (rounds_samples rds)
    \<Longrightarrow> list_all (\<lambda>ev. event_ok cel c ev \<and> event_has P ev) (rounds_trace rds :: 'p event list)"
  by (induction rds) (auto split: wake.splits)

lemma session_records_have:
  fixes cel :: "('p, 'v) cel"
  assumes "boot pf cel thread now path d = (Ok st, d1)" and "orderly cel ses st"
    and "\<And>bs. bs \<in> set (datagrams_of (ses_ingest ses)) \<Longrightarrow> list_all (sample_has P) (received_samples (st_catalog st) bs)"
    and "l \<in> set (concat (ses_batches ses))"
  shows "record_has P l"
proof -
  let ?tr = "rounds_trace (ses_rounds ses) :: 'p event list"
  have "latest_all P (st_engine st)"
    by (simp add: boot_Ok(6) [OF assms(1)] latest_all_def engine_new_def)
  moreover have "list_all (sample_has P) (rounds_samples (ses_rounds ses))"
    using assms(2,3) by (auto simp: orderly_def forwarded_eq list_all_iff)
  ultimately have "list_all (\<lambda>rep. list_all (record_has P) (records rep))
      (snd (run (engine_handle cel) ?tr (st_engine st)))"
    by (intro run_records_have [OF boot_engine_wf(1) [OF assms(1)]] rounds_have)
  moreover have recs: "concat (ses_batches ses) = concat (map records (snd (run (engine_handle cel) ?tr (st_engine st))))"
    using assms(2) by (simp add: orderly_def emitted_eq)
  ultimately show ?thesis using assms(4) unfolding recs by (auto simp: list_all_iff)
qed

end
