(* ===== verification/Record_Json.thy ===== *)
theory Record_Json
  imports Engine Documents
begin

text \<open>
  The lines of the log: the derived \<open>Serialize\<close> and \<open>Deserialize\<close> of \<open>LogRecord\<close>
  (\<open>crates/rules/src/engine.rs\<close>) and of the untagged \<open>SignalValue\<close> (\<open>crates/protocol/src/value.rs\<close>).
\<close>

fun value_json :: "signal_value \<Rightarrow> json" where
  "value_json (VBool b) = JBool b"
| "value_json (VNum x) = f64_json x"
| "value_json (VEnum l) = JStr l"

text \<open>Untagged: the first variant that reads the value.\<close>

definition value_from_json :: "json \<Rightarrow> signal_value option" where
  "value_from_json j =
     (case json_bool j of
        Some b \<Rightarrow> Some (VBool b)
      | None \<Rightarrow> (case json_f64 j of
          Some x \<Rightarrow> Some (VNum x)
        | None \<Rightarrow> map_option VEnum (json_str j)))"

definition record_fields :: "string list" where
  "record_fields =
     [''ts_us'', ''vin'', ''model'', ''rule_id'', ''ruleset_version'', ''signal'', ''value'', ''unit'']"

definition record_json :: "log_record \<Rightarrow> json" where
  "record_json l =
     JObj ([(''ts_us'', uint_json (lr_ts_us l)), (''vin'', JStr (lr_vin l)), (''model'', JStr (lr_model l)),
            (''rule_id'', JStr (lr_rule_id l)), (''ruleset_version'', uint_json (lr_ruleset_version l)),
            (''signal'', JStr (lr_signal l)), (''value'', value_json (lr_value l))]
       @ optional_field ''unit'' JStr (lr_unit l))"

definition record_from_json :: "json \<Rightarrow> log_record option" where
  "record_from_json j = do {
     t \<leftarrow> struct_table False record_fields j;
     ts \<leftarrow> required json_uint ''ts_us'' t;
     vin \<leftarrow> required json_str ''vin'' t;
     model \<leftarrow> required json_str ''model'' t;
     i \<leftarrow> required json_str ''rule_id'' t;
     v \<leftarrow> required json_uint ''ruleset_version'' t;
     s \<leftarrow> required json_str ''signal'' t;
     x \<leftarrow> required value_from_json ''value'' t;
     unit \<leftarrow> defaulted (json_nullable json_str) None ''unit'' t;
     Some \<lparr>lr_ts_us = ts, lr_vin = vin, lr_model = model, lr_rule_id = i, lr_ruleset_version = v,
           lr_signal = s, lr_value = x, lr_unit = unit\<rparr>
   }"

section \<open>Reading records back\<close>

definition value_writable :: "signal_value \<Rightarrow> bool" where
  "value_writable v \<longleftrightarrow> (case v of VNum x \<Rightarrow> is_finite x | _ \<Rightarrow> True)"

definition reread_value :: "(f64 \<Rightarrow> f64) \<Rightarrow> signal_value \<Rightarrow> signal_value" where
  "reread_value g v = (case v of VNum x \<Rightarrow> VNum (g x) | _ \<Rightarrow> v)"

interpretation signal_value: json_codec value_json value_from_json value_writable reread_value
  by unfold_locales
    (auto simp: value_writable_def value_from_json_def json_bool_def json_f64_def json_str_def f64_json_def
      reread_value_def split: signal_value.splits)

definition reread_record :: "(f64 \<Rightarrow> f64) \<Rightarrow> log_record \<Rightarrow> log_record" where
  "reread_record g l = l\<lparr>lr_value := reread_value g (lr_value l)\<rparr>"

interpretation log_line: json_codec record_json record_from_json "\<lambda>l. value_writable (lr_value l)" reread_record
proof
  fix l :: log_record and g assume ok: "value_writable (lr_value l)"
  show "record_from_json (json_reread g (record_json l)) = Some (reread_record g l)"
    using ok signal_value.de_reread [OF ok, of g]
    by (cases "lr_unit l")
      (simp_all add: record_from_json_def record_json_def struct_table_def record_fields_def required_def
        defaulted_def optional_field_def n64_de string_de
        string_nullable reread_record_def)
qed (simp add: record_json_def)

lemma reread_record_same: "(\<And>x. lr_value l = VNum x \<Longrightarrow> g x = x) \<Longrightarrow> reread_record g l = l"
  by (cases l; cases "lr_value l") (simp_all add: reread_record_def reread_value_def)

section \<open>Log files\<close>

text \<open>The lines of a text that ends every line with a newline byte.\<close>

fun split_lines :: "u8 list \<Rightarrow> u8 list list" where
  "split_lines [] = []"
| "split_lines (b # bs) =
     (if b = 10 then [] # split_lines bs
      else case split_lines bs of [] \<Rightarrow> [[b]] | l # ls \<Rightarrow> (b # l) # ls)"

definition read_log :: "(u8 list \<Rightarrow> json option) \<Rightarrow> u8 list \<Rightarrow> log_record option list" where
  "read_log read bs = map (\<lambda>l. Option.bind (read l) record_from_json) (split_lines bs)"

lemma split_lines_line: "10 \<notin> set l \<Longrightarrow> split_lines (l @ 10 # bs) = l # split_lines bs"
  by (induction l) auto

end
