(* ===== verification/Log_Properties.thy ===== *)
theory Log_Properties
  imports Logged_Values Record_Json
begin

text \<open>
  The log as a reader sees it: the lines on disk, parsed as JSON, are records of the engine. For this
  every value that is logged must be a finite number, a bool or a label, which decoding ensures.
\<close>

section \<open>Values that are logged\<close>

text \<open>Decoding yields finite numbers.\<close>

lemma apply_frame_values:
  "list_all (\<lambda>s. value_writable (smp_value s)) (dp_samples out)
    \<Longrightarrow> list_all (\<lambda>s. value_writable (smp_value s)) (dp_samples (apply_frame c i f out))"
  by (auto simp: apply_frame_def push_sample_def push_error_def value_writable_def kind_matches_def
      dest!: decode_value_kind split: option.splits result.splits signal_value.splits value_kind.splits)

lemma decode_frames_values:
  "list_all (\<lambda>s. value_writable (smp_value s)) (dp_samples out)
    \<Longrightarrow> list_all (\<lambda>s. value_writable (smp_value s))
      (dp_samples (case decode_frames c i n r out of Err o' \<Rightarrow> o' | Ok (o', _) \<Rightarrow> o'))"
proof (induction n arbitrary: i r out)
  case (Suc n)
  show ?case
  proof (cases "read_frame r")
    case (Err sid)
    with Suc.prems show ?thesis by (simp add: push_error_def)
  next
    case (Ok fr)
    with Suc.IH [OF apply_frame_values [OF Suc.prems]] show ?thesis by (cases fr) simp
  qed
qed simp

lemma received_values: "list_all (\<lambda>s. value_writable (smp_value s)) (received_samples c bs)"
  using decode_frames_values [of decoded_default c 0]
  by (fastforce simp: received_samples_def decode_packet_def decoded_default_def Let_def push_error_def
      split: result.splits option.splits if_splits prod.splits)

section \<open>Lines\<close>

lemma split_line_end: "split_lines (l @ [10]) \<noteq> []"
  by (induction l) (auto split: list.split)

lemma split_unlines: "split_lines (unlines ls @ bs) = split_lines (unlines ls) @ split_lines bs"
proof -
  have one: "split_lines ((l @ [10]) @ bs) = split_lines (l @ [10]) @ split_lines bs" for l :: "u8 list" and bs
  proof (induction l)
    case (Cons b l)
    with split_line_end [of l] show ?case by (auto simp: neq_Nil_conv)
  qed simp
  show ?thesis
  proof (induction ls)
    case (Cons l ls)
    with one [of l "unlines ls @ bs"] one [of l "unlines ls"] show ?case by simp
  qed simp
qed

lemma split_clean: "list_all (\<lambda>l. 10 \<notin> set l) ls \<Longrightarrow> split_lines (unlines ls) = ls"
  by (induction ls) (simp_all add: split_lines_line)

lemma lines_kept:
  assumes "line_suffix t (unlines ls)" and "list_all (\<lambda>l. 10 \<notin> set l) ls"
  shows "suffix (split_lines t) ls"
  using assms split_unlines [of _ t] split_clean [OF assms(2)]
  by (auto simp: line_suffix_def suffix_def)

text \<open>C17: The log can be read back. After an orderly shutdown of a daemon that was started on an empty
  directory, the text of the log files, split at the newlines and parsed line by line as JSON, is the
  sequence of the last records of the engine, each with every field as it was emitted but for a number as its
  value, which is what the JSON library reads of the number it printed (\<open>serde_json\<close> without
  \<open>float_roundtrip\<close> does not promise the same one); only a prefix of the records may have been rotated
  away. Where the library reads the logged numbers as they were printed, the records are read back
  exactly. This needs of the JSON library that it parses what it has printed, up to numbers, and prints
  no raw newline, for the records of the run.\<close>

theorem log_reads_back:
  fixes cel :: "('p, 'v) cel"
  assumes "boot pf cel thread now path d = (Ok st, d1)" and "dsk_names d = []" and "dsk_faults d = []"
    and "orderly cel ses st"
    and "\<forall>l\<in>set (concat (ses_batches ses)). parse (text (record_json l)) = Some (json_reread g (record_json l))
      \<and> 10 \<notin> set (text (record_json l))"
  shows "case daemon_run cel (\<lambda>l. Ok (text (record_json l))) ses st d1 of (_, _, _, d2) \<Rightarrow>
    \<exists>ls. suffix ls (concat (ses_batches ses))
      \<and> read_log parse (disk_log (wr_max_files (st_writer st)) d2) = map (\<lambda>l. Some (reread_record g l)) ls
      \<and> ((\<forall>l\<in>set ls. \<forall>x. lr_value l = VNum x \<longrightarrow> g x = x)
         \<longrightarrow> read_log parse (disk_log (wr_max_files (st_writer st)) d2) = map Some ls)"
proof -
  let ?recs = "concat (ses_batches ses)" and ?line = "\<lambda>l. text (record_json l)"
  let ?n = "max (cfg_max_files (cfg_output (st_config st))) 1"
  have limits: "wr_max_files (st_writer st) = ?n"
    using writer_open_limits [OF boot_Ok(4) [OF assms(1)]] by simp
  have fine: "value_writable (lr_value l)" if "l \<in> set ?recs" for l
    using session_records_have [where P = "\<lambda>_ _. value_writable", OF assms(1,4) _ that] received_values
    by (simp add: record_has_def sample_has_def list_all_iff)
  have "case output_run (\<lambda>l. Ok (?line l)) (ses_batches ses) (st_writer st) d1 of (ostats, _, d2) \<Rightarrow>
    ostats = \<lparr>records_written = of_nat (length ?recs), write_errors = 0\<rparr>
    \<and> disk_file d2 = fold (log_add (max_file_bytes (cfg_output (st_config st))) ?n) (map ?line ?recs) fresh_log"
    by (rule output_run_fresh [OF assms(2,3) boot_Ok(4) [OF assms(1)]]) simp
  then obtain ostats w d2 where out: "output_run (\<lambda>l. Ok (?line l)) (ses_batches ses) (st_writer st) d1 = (ostats, w, d2)"
    and "line_suffix (disk_log ?n d2) (unlines (map ?line ?recs))"
    using log_adds_fresh [of "cfg_max_files (cfg_output (st_config st))"
        "max_file_bytes (cfg_output (st_config st))" "map ?line ?recs"]
    by (auto simp: disk_log_def split: prod.splits)
  from lines_kept [OF this(2)] assms(5) have "suffix (split_lines (disk_log ?n d2)) (map ?line ?recs)"
    by (simp add: list_all_iff)
  then obtain k where split: "split_lines (disk_log ?n d2) = map ?line (drop k ?recs)"
    by (auto simp: suffix_def) (metis append_eq_conv_conj drop_map)
  have "Option.bind (parse (?line l)) record_from_json = Some (reread_record g l)" if "l \<in> set (drop k ?recs)" for l
  proof -
    have mem: "l \<in> set ?recs" using that by (rule in_set_dropD)
    show ?thesis using log_line.de_reread [OF fine [OF mem], of g] bspec [OF assms(5) mem] by simp
  qed
  then have read: "read_log parse (disk_log ?n d2) = map (\<lambda>l. Some (reread_record g l)) (drop k ?recs)"
    unfolding read_log_def split map_map comp_def by (intro map_cong refl)
  have "map (\<lambda>l. Some (reread_record g l)) (drop k ?recs) = map Some (drop k ?recs)"
    if "\<forall>l\<in>set (drop k ?recs). \<forall>x. lr_value l = VNum x \<longrightarrow> g x = x"
    using that by (intro map_cong refl arg_cong [where f = Some]) (auto intro: reread_record_same)
  with read have "suffix (drop k ?recs) ?recs
      \<and> read_log parse (disk_log ?n d2) = map (\<lambda>l. Some (reread_record g l)) (drop k ?recs)
      \<and> ((\<forall>l\<in>set (drop k ?recs). \<forall>x. lr_value l = VNum x \<longrightarrow> g x = x)
         \<longrightarrow> read_log parse (disk_log ?n d2) = map Some (drop k ?recs))"
    using suffix_drop [of k ?recs] by simp
  moreover have "\<exists>istats estats. daemon_run cel (\<lambda>l. Ok (?line l)) ses st d1 = (istats, estats, ostats, d2)"
    using out by (auto simp: daemon_run_def split: prod.splits)
  ultimately show ?thesis unfolding limits by auto
qed

text \<open>The session of the demonstration logs one record: the battery at 50 percent.\<close>

abbreviation "soc_frame \<equiv> \<lparr>rf_signal_id = 258, rf_timestamp_us = 9, rf_payload = [100]\<rparr> :: raw_frame"

lemma soc_decoded: "decode_value sig_soc [100] = Ok (VNum (f64_lit 50 1))"
proof -
  have "f64_add (f64_mul (f64_of_int 100) (f64_lit 1 2)) (f64_lit 0 1) = f64_lit 50 1" "is_finite (f64_lit 50 1)"
    by code_simp+
  moreover have "sig_ty sig_soc = TU8" "sig_endian sig_soc = Little" "sig_kind sig_soc = KNum"
    "sd_scale (sig_def sig_soc) = f64_lit 1 2" "sd_offset (sig_def sig_soc) = f64_lit 0 1"
    by code_simp+
  moreover have "from_le_bytes [100] = Some (100 :: u8)" by (simp add: from_le_bytes_def)
  ultimately show ?thesis by (simp add: decode_value_def word_from_bytes_def raw_to_f64_def Let_def)
qed

lemma soc_frame_sample: "frame_sample r1s soc_frame = Some soc_sample"
proof -
  have "by_id r1s 258 = Some sig_soc" "sig_name sig_soc = ''battery_soc''" by code_simp+
  with soc_decoded show ?thesis by (simp add: frame_sample_def soc_sample_def)
qed

lemma soc_received: "received_samples r1s soc_bytes = [soc_sample]"
proof -
  have enc: "encode_packet [soc_frame] = Ok soc_bytes"
    by (simp add: encode_packet_Ok_iff soc_bytes_def packet_size_def frame_fits_def
        MAX_FRAMES_def MAX_DATAGRAM_LEN_def PACKET_HEADER_LEN_def FRAME_HEADER_LEN_def)
  have "length soc_bytes \<le> MAX_DATAGRAM_LEN"
    by (simp add: soc_bytes_def length_header_bytes length_frame_bytes MAX_DATAGRAM_LEN_def
        PACKET_HEADER_LEN_def FRAME_HEADER_LEN_def)
  with decode_encoded_whole [OF enc, of "[]" r1s] show ?thesis
    by (simp add: received_samples_def with_trailing_def frames_outcome_def map_filter_simps soc_frame_sample
        RECV_BUFFER_LEN_def MAX_DATAGRAM_LEN_def)
qed

lemma cut_received: "received_samples r1s (take 10 soc_bytes) = []"
proof -
  let ?zs = "take 6 (frame_bytes soc_frame)"
  have "?zs \<noteq> frame_bytes f @ us" for f us
    by (rule notI, drule arg_cong [where f = length]) (simp add: length_frame_bytes FRAME_HEADER_LEN_def)
  then have "decode_packet (header_bytes 1 @ frames_bytes [] @ ?zs) r1s = Ok (with_truncated 0 ?zs (frames_outcome r1s []))"
    using decode_packet_cut [of 1 "[]" ?zs r1s]
    by (simp add: count_ok_def MAX_FRAMES_def MAX_DATAGRAM_LEN_def length_header_bytes length_frame_bytes
        PACKET_HEADER_LEN_def FRAME_HEADER_LEN_def)
  moreover have "take RECV_BUFFER_LEN (take 10 soc_bytes) = header_bytes 1 @ ?zs"
    by (simp add: soc_bytes_def length_header_bytes PACKET_HEADER_LEN_def RECV_BUFFER_LEN_def MAX_DATAGRAM_LEN_def)
  ultimately show ?thesis
    by (simp add: received_samples_def with_truncated_def push_error_def frames_outcome_def map_filter_simps)
qed

lemma tick_silent:
  assumes "engine_wf cel c e"
    and "\<And>r. r \<in> set (crs_rules (eng_rules e)) \<Longrightarrow> is_periodic r
      \<Longrightarrow> hm_get (eng_latest e) (rule_signal (cr_def r)) = None"
  shows "records (snd (tick cel now e)) = []"
proof -
  have "l \<notin> set (records (snd (tick cel now e)))" for l
    using assms(2)
    by (auto simp: tick_report [OF assms(1)] periodic_step_def is_periodic_def dest!: records_of_rules
        split: behaviour.splits option.splits if_splits)
  then show ?thesis by (metis list.set_intros(1) neq_Nil_conv)
qed

lemma demo_recorded: "concat (ses_batches demo_session) = [soc_record]"
proof -
  let ?e1 = "fst (tick ident_cel 1 demo_engine)"
  let ?e2 = "fst (on_sample ident_cel 3 soc_sample ?e1)"
  have wf: "engine_wf ident_cel r1s ?e1" "engine_wf ident_cel r1s ?e2"
    using eng.inv_handle [OF demo_engine_wf, of "Ticked 1"] eng.inv_handle [of ident_cel r1s ?e1 "Sampled 3 soc_sample"]
    by simp_all
  have empty: "eng_latest demo_engine = []" by (simp add: demo_engine_def engine_new_def)
  have speed: "rule_signal (cr_def r) \<noteq> smp_name soc_sample" if "r \<in> set (crs_rules demo_rules)" "is_periodic r" for r
    using that by (auto simp: demo_rules_def demo_rule_defs is_periodic_def soc_sample_def)
  have quiet: "records (snd (tick ident_cel 1 demo_engine)) = []" "records (snd (tick ident_cel 4 ?e2)) = []"
    using tick_silent [OF demo_engine_wf] tick_silent [OF wf(2)] speed empty
    by (simp_all add: on_sample_fst [OF wf(1)] observe_def)
  have "log_record_of (observe 3 soc_sample ?e1) = log_record_of demo_engine"
    by (simp add: log_record_of_def fun_eq_iff)
  moreover have "listeners ?e1 (smp_name soc_sample) = [soc_rule]"
    using demo_listeners by (simp add: listeners_def soc_sample_def)
  moreover have behaviour: "cr_behaviour soc_rule = OnChange (f64_lit 1 1)" by (simp add: soc_rule_def)
  moreover have "hm_get (eng_state ?e1) (cr_id soc_rule) = Some (fresh_state 0 soc_rule)"
    using tick_state [OF demo_engine_wf _ demo_engine_state, of soc_rule 1] behaviour by (simp add: periodic_step_def)
  ultimately have logged: "records (snd (on_sample ident_cel 3 soc_sample ?e1)) = [soc_record]"
    by (simp add: on_sample_report [OF wf(1)] keyed_out_def on_change_step_def fresh_state_def changed_by_def
        log_if_def condition_verdict_def soc_record_def)
      (simp add: soc_rule_def soc_sample_def changed_by_def log_if_def condition_verdict_def)
  have "forwarded r1s [Datagram soc_bytes, StatsDue, Datagram (take 10 soc_bytes), StopChanged] = [soc_sample]"
    by (simp add: forwarded_eq soc_received cut_received)
  with quiet logged show ?thesis
    by (simp add: demo_session_def session_for_def demo_started_def Let_def emitted_eq split_beta)
qed

text \<open>The JSON text of the record.\<close>

definition json_member :: "string \<Rightarrow> string \<Rightarrow> string" where
  "json_member k v = CHR 0x22 # k @ [CHR 0x22, CHR '':''] @ v"

definition json_quoted :: "string \<Rightarrow> string" where
  "json_quoted s = CHR 0x22 # s @ [CHR 0x22]"

definition soc_line :: "u8 list" where
  "soc_line = map of_char
     (''{'' @ json_member ''ts_us'' ''9,'' @ json_member ''vin'' (json_quoted ''DEV0000001'' @ '','')
      @ json_member ''model'' (json_quoted ''R1S'' @ '','') @ json_member ''rule_id'' (json_quoted ''soc_change'' @ '','')
      @ json_member ''ruleset_version'' ''12,'' @ json_member ''signal'' (json_quoted ''battery_soc'' @ '','')
      @ json_member ''value'' ''50.0,'' @ json_member ''unit'' (json_quoted ''%'') @ ''}'')"

lemma soc_line_clean: "10 \<notin> set soc_line"
  by (simp add: soc_line_def json_member_def json_quoted_def)

theorem log_reads_back_witness:
  "case daemon_run ident_cel (\<lambda>l. Ok (if record_json l = record_json soc_record then soc_line else []))
      demo_session demo_started (snd (writer_open 2048 3 empty_disk)) of (_, _, _, d2) \<Rightarrow>
    \<exists>ls. suffix ls (concat (ses_batches demo_session))
      \<and> read_log (\<lambda>bs. if bs = soc_line then Some (record_json soc_record) else None)
          (disk_log (wr_max_files (st_writer demo_started)) d2) = map Some ls"
proof -
  have "record_json soc_record = json_reread (\<lambda>x. x) (record_json soc_record)" by (simp add: json_reread_same)
  then have "\<forall>l\<in>set (concat (ses_batches demo_session)).
      (\<lambda>bs. if bs = soc_line then Some (record_json soc_record) else None)
        ((\<lambda>j. if j = record_json soc_record then soc_line else []) (record_json l))
        = Some (json_reread (\<lambda>x. x) (record_json l))
      \<and> 10 \<notin> set ((\<lambda>j. if j = record_json soc_record then soc_line else []) (record_json l))"
    by (simp add: demo_recorded soc_line_clean)
  from log_reads_back [OF demo_boot _ _ demo_orderly this] show ?thesis
    by (auto simp: empty_disk_def split: prod.splits)
qed

end
