(* ===== verification/System_Properties.thy ===== *)
theory System_Properties
  imports Logged_Values Simulator_Properties
begin

text \<open>
  The simulator and the daemon together: the daemon receives the packets of a run of the simulator,
  over a network that may lose, repeat and reorder them, and logs what its rules select.
\<close>

section \<open>The packets of the simulator in the daemon\<close>

text \<open>A value received for a signal in a round of the run.\<close>

definition shown_by :: "world \<Rightarrow> catalog \<Rightarrow> (nat \<Rightarrow> vehicle) \<Rightarrow> nat \<Rightarrow> string \<Rightarrow> u64 \<Rightarrow> signal_value \<Rightarrow> bool" where
  "shown_by w c v n name ts x \<longleftrightarrow> (\<exists>i<n. ts = w_now_us w i \<and> value_shows c (v i) name x)"

lemma fed_datagram:
  assumes "catalog_wf c" and "enums_distinct c" and "scales_ok c" and "sine_ok (w_sin w)"
    and "1 \<le> rate" and "rate \<le> 10000" and "s \<noteq> SGarbage"
    and "sim_loop w s c d (period_of rate) 0 (sim_new s seed) = Some (res, st)" and "bs \<in> snd ` set (sim_sent st)"
  shows "received_unknown c bs = 0" and "received_errors c bs = []"
    and "list_all (sample_has (shown_by w c (round_vehicle w s (period_of rate) seed) (length (sim_sent st))))
      (received_samples c bs)"
proof -
  from assms(9) obtain i where i: "i < length (sim_sent st)" "bs = snd (sim_sent st ! i)"
    by (auto simp: in_set_conv_nth)
  let ?v = "round_vehicle w s (period_of rate) seed"
  from sent_packet_shows(1) [OF assms(1-8) i(1)] obtain out
    where out: "decode_packet bs c = Ok out" and unknown: "dp_unknown out = 0" and errors: "dp_errors out = []"
      and samples: "list_all (sample_shows c (?v i) (w_now_us w i)) (dp_samples out)"
    unfolding i(2) by blast
  have "length bs \<le> RECV_BUFFER_LEN"
    using out by (simp add: decode_packet_def RECV_BUFFER_LEN_def split: if_splits)
  with out have received: "decode_packet (take RECV_BUFFER_LEN bs) c = Ok out" by simp
  show "received_unknown c bs = 0" "received_errors c bs = []"
    by (simp_all add: received_unknown_def received_errors_def received unknown errors)
  have "sample_has (shown_by w c ?v (length (sim_sent st))) smp" if "sample_shows c (?v i) (w_now_us w i) smp" for smp
    using that i(1) by (auto simp: sample_has_def shown_by_def sample_shows_def)
  with samples show "list_all (sample_has (shown_by w c ?v (length (sim_sent st)))) (received_samples c bs)"
    by (simp add: received_samples_def received list_all_iff)
qed

section \<open>Properties\<close>

text \<open>C12: The daemon logs the vehicle. When everything the daemon receives was sent by one run of the
  simulator's drive or park scenario with the same catalog, in any order and with any losses and
  repetitions, then no packet is rejected, no frame fails and no signal is unknown; and after an
  orderly shutdown every record that was logged, whatever the rules and their conditions, holds the
  value that the vehicle of that run had after a round the simulator sent, with the time of that round:
  exactly for a bool or a label, up to the conversions for a number.\<close>

theorem simulated_vehicle_is_logged:
  fixes cel :: "('p, 'v) cel"
  assumes "boot pf cel thread now path d = (Ok st, d1)" and "orderly cel ses st"
    and "enums_distinct (st_catalog st)" and "scales_ok (st_catalog st)" and "sine_ok (w_sin w)"
    and "1 \<le> rate" and "rate \<le> 10000" and "s \<noteq> SGarbage"
    and "sim_loop w s (st_catalog st) dur (period_of rate) 0 (sim_new s seed) = Some (res, sim)"
    and "set (datagrams_of (ses_ingest ses)) \<subseteq> snd ` set (sim_sent sim)"
  shows "(case daemon_run cel to_vec ses st d1 of (istats, _, _, _) \<Rightarrow>
      ing_unknown_signals istats = 0 \<and> (\<forall>reason. hm_count (ing_decode_errors istats) reason = 0))
    \<and> list_all (\<lambda>l. \<exists>i<length (sim_sent sim). lr_ts_us l = w_now_us w i
        \<and> value_shows (st_catalog st) (round_vehicle w s (period_of rate) seed i) (lr_signal l) (lr_value l))
        (concat (ses_batches ses))"
proof
  let ?c = "st_catalog st" and ?ds = "datagrams_of (ses_ingest ses)"
  have wf: "catalog_wf ?c" using load_catalog_wf [OF boot_Ok(2) [OF assms(1)]] by simp
  note fed = fed_datagram [OF wf assms(3-9) subsetD [OF assms(10)]]
  let ?stats = "fold (add_datagram ?c) ?ds ingest_stats_default"
  have istats: "run_udp ?c (ses_ingest ses) (ingest_stats_default, channel)
      = (ingest_ends (ses_ingest ses), ?stats, channel\<lparr>tx_sent := concat (map (received_samples ?c) ?ds)\<rparr>)"
    using ingest_open [of channel ?c "ses_ingest ses" ingest_stats_default] by (simp add: channel_def)
  have "sum_list (map (received_unknown ?c) ?ds) = 0" using fed(1) by simp
  then have unknown: "ing_unknown_signals ?stats = 0"
    by (simp only: fold_add_datagram) (simp add: ingest_stats_default_def)
  have "concat (map (received_errors ?c) ?ds) = []" using fed(2) by simp
  then have errors: "hm_count (ing_decode_errors ?stats) reason = 0" for reason
    by (simp only: fold_add_datagram) (simp add: hm_count_bumps ingest_stats_default_def)
  show "case daemon_run cel to_vec ses st d1 of (istats, _, _, _) \<Rightarrow>
      ing_unknown_signals istats = 0 \<and> (\<forall>reason. hm_count (ing_decode_errors istats) reason = 0)"
    using unknown errors by (auto simp: daemon_run_def istats split: prod.split)
  have "record_has (shown_by w ?c (round_vehicle w s (period_of rate) seed) (length (sim_sent sim))) l"
    if "l \<in> set (concat (ses_batches ses))" for l
    by (rule session_records_have [OF assms(1,2) fed(3) that])
  then show "list_all (\<lambda>l. \<exists>i<length (sim_sent sim). lr_ts_us l = w_now_us w i
      \<and> value_shows ?c (round_vehicle w s (period_of rate) seed i) (lr_signal l) (lr_value l)) (concat (ses_batches ses))"
    by (auto simp: list_all_iff record_has_def shown_by_def)
qed

section \<open>A small system\<close>

text \<open>The catalog with the charge, the gear and the door, a rule for each, and a packet of the quiet run.\<close>

definition body_rule :: "string \<Rightarrow> cel_expr compiled_rule" where
  "body_rule name =
     \<lparr>cr_def = \<lparr>rule_ident = name, rule_signal = name, rule_mode = ModeOnChange, interval_ms = None,
        max_age_ms = None, deadband = None, rule_condition = None\<rparr>,
      cr_condition = None, cr_unit = (if name = ''battery_soc'' then Some ''%'' else None),
      cr_behaviour = OnChange (f64_lit 0 1)\<rparr>"

definition body_rules :: "cel_expr compiled_ruleset" where
  "body_rules = \<lparr>crs_version = 1, crs_model = any_model, 
     crs_rules = [body_rule ''battery_soc'', body_rule ''gear'', body_rule ''door_open'']\<rparr>"

definition body_ruleset :: ruleset where
  "body_ruleset = \<lparr>ruleset_version = 1, rs_model = any_model, rs_rules = map cr_def (crs_rules body_rules)\<rparr>"

lemma body_compiled: "compile_ruleset ident_cel Joined body_ruleset body ''R1S'' None = Ok body_rules"
proof -
  have sigs: "by_name body ''battery_soc'' = Some sig_soc" "by_name body ''gear'' = Some sig_gear"
    "by_name body ''door_open'' = Some sig_door"
    "sig_unit sig_soc = Some ''%''" "sig_unit sig_gear = None" "sig_unit sig_door = None"
    by code_simp+
  have ids: "is_valid_rule_id ''battery_soc''" "is_valid_rule_id ''gear''" "is_valid_rule_id ''door_open''"
    by code_simp+
  have "rule_wf ident_cel body (body_rule name)"
    if "name = ''battery_soc'' \<or> name = ''gear'' \<or> name = ''door_open''" for name
    using that by (auto simp: rule_wf_def body_rule_def cr_id_def sigs ids deadband_of_def demo_literals simp del: One_nat_def)
  then have "rules_wf ident_cel body body_rules"
    by (simp add: rules_wf_def body_rules_def max_rules_def cr_id_def) (simp add: body_rule_def)
  then show ?thesis
    by (simp add: ruleset_Ok_iff header_errors_empty_iff body_ruleset_def) (simp add: body_rules_def)
qed

abbreviation "body_started \<equiv> started_of body body_rules"

lemma body_boot:
  "boot (platform_of body_spec body_ruleset) ident_cel Joined 0 ''c.toml'' empty_disk
    = (Ok body_started, snd (writer_open 2048 3 empty_disk))"
proof (rule platform_boot [OF _ body_new _ _ body_compiled])
  show "spec_writable body_spec" "cat_model body = ''R1S''" by code_simp+
  show "rules_writable body_ruleset"
    by (simp add: rules_writable_def rule_writable_def body_ruleset_def body_rules_def body_rule_def)
qed

text \<open>The first packet is read, and its samples are logged.\<close>

lemma body_received:
  assumes "quiet_run = Some (res, st)" and "sim_sent st \<noteq> []"
  obtains smp where "smp \<in> set (received_samples body (snd (sim_sent st ! 0)))" and "smp_name smp = ''battery_soc''"
proof -
  have "0 < length (sim_sent st)" using assms(2) by simp
  from sent_packet_shows(1) [OF body_wf body_distinct body_scales quiet_sine _ _ _ assms(1) [unfolded quiet_run_def] this]
  obtain out where out: "decode_packet (snd (sim_sent st ! 0)) body = Ok out"
    and names: "map smp_name (dp_samples out) = map sig_name (simulated body)"
    by auto
  have "length (snd (sim_sent st ! 0)) \<le> RECV_BUFFER_LEN"
    using out by (simp add: decode_packet_def RECV_BUFFER_LEN_def split: if_splits)
  then have received: "received_samples body (snd (sim_sent st ! 0)) = dp_samples out"
    by (simp add: received_samples_def out)
  have "''battery_soc'' \<in> set (map smp_name (dp_samples out))"
    unfolding names by (simp add: simulated_def body_signals body_names KNOWN_SIGNALS_def del: One_nat_def)
  then show thesis using that received by auto
qed

lemma body_logged:
  assumes "smp \<in> set (received_samples body p)" and "smp_name smp = ''battery_soc''"
  shows "concat (ses_batches (session_for body_started [Datagram p, StopChanged])) \<noteq> []"
proof -
  let ?ses = "session_for body_started [Datagram p, StopChanged]" and ?r = "body_rule (smp_name smp)"
  let ?tr = "rounds_trace (ses_rounds ?ses) :: cel_expr event list"
  have ord: "orderly ident_cel ?ses body_started" by (rule session_for_orderly) simp
  have rule: "?r \<in> set (crs_rules (st_rules body_started))"
    using assms(2) by (simp add: started_of_def body_rules_def)
  have kind: "cr_behaviour ?r = OnChange (f64_lit 0 1)" "cr_condition ?r = None" "rule_signal (cr_def ?r) = smp_name smp"
    by (simp_all add: body_rule_def)
  have "smp \<in> set (rounds_samples (ses_rounds ?ses))"
    using ord assms(1) by (simp add: orderly_def forwarded_eq session_for_def started_of_def Let_def)
  then have "samples_for (smp_name smp) ?tr \<noteq> []"
    by (auto simp: rounds_samples_for filter_empty_conv)
  then have "deadband_filter (f64_lit 0 1) None (samples_for (smp_name smp) ?tr) \<noteq> []"
    by (cases "samples_for (smp_name smp) ?tr") (simp_all add: worth_logging_def)
  then have "map (\<lambda>l. (lr_ts_us l, lr_value l)) (filter (\<lambda>l. lr_rule_id l = cr_id ?r) (concat (ses_batches ?ses))) \<noteq> []"
    unfolding session_points [OF body_boot ord rule] on_change_rule_run [OF kind(1,2) rounds_trace_no_swap]
    by (simp add: kind(3) fresh_state_def)
  then show ?thesis by (metis filter.simps(1) map_is_Nil_conv)
qed

theorem simulated_vehicle_is_logged_witness:
  "\<exists>res sim. quiet_run = Some (res, sim)
    \<and> (let recs = concat (ses_batches (session_for body_started [Datagram (snd (sim_sent sim ! 0)), StopChanged]))
       in recs \<noteq> [] \<and> list_all (\<lambda>l. \<exists>i. i < length (sim_sent sim) \<and> lr_ts_us l = of_nat i
            \<and> value_shows body (round_vehicle quiet_world SDrive (period_of 50) 42 i) (lr_signal l) (lr_value l)) recs)"
proof -
  obtain res st where run: "quiet_run = Some (res, st)" and sent: "sim_sent st \<noteq> []"
    using quiet_sends by blast
  let ?p = "snd (sim_sent st ! 0)"
  let ?ses = "session_for body_started [Datagram ?p, StopChanged]"
  have cat: "st_catalog body_started = body" by (simp add: started_of_def)
  have data: "datagrams_of (ses_ingest ?ses) = [?p]" by (simp add: session_for_def Let_def)
  have fed: "set (datagrams_of (ses_ingest ?ses)) \<subseteq> snd ` set (sim_sent st)"
    unfolding data using sent by simp
  have now: "w_now_us quiet_world i = of_nat i" for i by (simp add: quiet_world_def)
  have "orderly ident_cel ?ses body_started" by (rule session_for_orderly) simp
  from simulated_vehicle_is_logged [OF body_boot this, unfolded cat, OF body_distinct body_scales quiet_sine _ _ _
      run [unfolded quiet_run_def] fed]
  have "list_all (\<lambda>l. \<exists>i<length (sim_sent st). lr_ts_us l = of_nat i
      \<and> value_shows body (round_vehicle quiet_world SDrive (period_of 50) 42 i) (lr_signal l) (lr_value l))
      (concat (ses_batches ?ses))"
    by (simp add: now)
  moreover obtain smp where "smp \<in> set (received_samples body ?p)" "smp_name smp = ''battery_soc''"
    using body_received [OF run sent] .
  ultimately show ?thesis using run body_logged unfolding Let_def by blast
qed

end
